(* ===== verification/Prelude.thy ===== *)
theory Prelude
  imports Main "HOL-Library.Word" "HOL-Library.Monad_Syntax"
begin

text \<open>
  Shared vocabulary of the development.

  \<^item> Machine integers of the kernel (\<open>u8\<close> to \<open>u64\<close>) are words; the build is
    \<^verbatim>\<open>cargo build --release\<close>, so plain \<open>+\<close>, \<open>-\<close>, \<open>*\<close> wrap around, as
    word arithmetic does. Indices and lengths of arrays (\<open>usize\<close>) are \<open>nat\<close>.
  \<^item> A computation of the kernel is an \<open>'a run\<close>: \<open>Some x\<close> returns \<open>x\<close>, \<open>None\<close> never
    returns to its caller: an index out of range, an \<open>unwrap\<close> of \<open>None\<close> or a failed
    \<open>assert!\<close> (the kernel is built with \<^verbatim>\<open>panic = "abort"\<close>), a loop that does not
    end, or a spin lock that is taken while it is already held.
  \<^item> Rust's \<open>Result<T, E>\<close> is the sum \<open>'e + 'a\<close> (\<open>Inl\<close> the error), Rust's \<open>Option\<close> is
    \<open>option\<close>.
\<close>

subsection \<open>Types\<close>

type_synonym u8 = "8 word"
type_synonym u16 = "16 word"
type_synonym u32 = "32 word"
type_synonym u64 = "64 word"
type_synonym 'a run = "'a option"
type_synonym ('e, 'a) result = "'e + 'a"

named_theorems slot_simps \<open>scans of a fixed table of slots\<close>
named_theorems sat_simps \<open>unsigned values of saturating arithmetic\<close>

subsection \<open>Computations that may not return\<close>

text \<open>
  The weak congruence rule makes the simplifier evaluate a computation from its first step
  on, and never the continuation of a step that has not been evaluated yet.
\<close>

lemma bind_weak_cong [cong]: "x = y \<Longrightarrow> Option.bind x f = Option.bind y f"
  by simp

definition idx :: "'a list \<Rightarrow> nat \<Rightarrow> 'a run" where
  "idx xs i = (if i < length xs then Some (xs ! i) else None)"

definition set_idx :: "'a list \<Rightarrow> nat \<Rightarrow> 'a \<Rightarrow> 'a list run" where
  "set_idx xs i v = (if i < length xs then Some (xs[i := v]) else None)"

definition ensure :: "bool \<Rightarrow> unit run" where
  "ensure b = (if b then Some () else None)"

lemma idx_in [simp]: "i < length xs \<Longrightarrow> idx xs i = Some (xs ! i)"
  by (simp add: idx_def)

lemma idx_out [simp]: "length xs \<le> i \<Longrightarrow> idx xs i = None"
  by (simp add: idx_def)

lemma idx_eq_Some: "idx xs i = Some x \<longleftrightarrow> i < length xs \<and> xs ! i = x"
  by (auto simp: idx_def)

lemma set_idx_in [simp]: "i < length xs \<Longrightarrow> set_idx xs i v = Some (xs[i := v])"
  by (simp add: set_idx_def)

lemma set_idx_out [simp]: "length xs \<le> i \<Longrightarrow> set_idx xs i v = None"
  by (simp add: set_idx_def)

lemma ensure_simps [simp]: "ensure True = Some ()" "ensure False = None"
  by (simp_all add: ensure_def)

lemma ensure_eq_Some [simp]: "ensure b = Some u \<longleftrightarrow> b"
  by (simp add: ensure_def)

subsection \<open>Scans of slot tables\<close>

text \<open>
  \<open>position P xs\<close> is Rust's \<open>iter().position(P)\<close>: the index of the first element that
  satisfies \<open>P\<close>. Every table of the kernel is scanned this way for a free slot or for a key.
\<close>

fun position :: "('a \<Rightarrow> bool) \<Rightarrow> 'a list \<Rightarrow> nat option" where
  "position P [] = None"
| "position P (x # xs) = (if P x then Some 0 else map_option Suc (position P xs))"

lemma position_Some:
  "position P xs = Some i \<longleftrightarrow> i < length xs \<and> P (xs ! i) \<and> (\<forall>j < i. \<not> P (xs ! j))"
proof (induction xs arbitrary: i)
  case Nil
  then show ?case by simp
next
  case (Cons x xs)
  show ?case
  proof (cases "P x")
    case True
    then show ?thesis by (cases i) auto
  next
    case False
    with Cons.IH show ?thesis
      by (cases i) (auto simp: less_Suc_eq_0_disj)
  qed
qed

lemma position_None [slot_simps]: "position P xs = None \<longleftrightarrow> (\<forall>x \<in> set xs. \<not> P x)"
  by (induction xs) auto

lemma position_SomeD:
  assumes "position P xs = Some i"
  shows "i < length xs" and "P (xs ! i)"
  using assms by (simp_all add: position_Some)

lemma position_exists: "x \<in> set xs \<Longrightarrow> P x \<Longrightarrow> \<exists>i. position P xs = Some i"
  using position_None [of P xs] by (cases "position P xs") auto

lemma position_cong:
  "length xs = length ys \<Longrightarrow> (\<And>i. i < length xs \<Longrightarrow> P (xs ! i) = Q (ys ! i)) \<Longrightarrow>
   position P xs = position Q ys"
proof (induction xs ys rule: list_induct2)
  case Nil
  then show ?case by simp
next
  case (Cons x xs y ys)
  have "P x = Q y"
    using Cons.prems [of 0] by simp
  moreover have "position P xs = position Q ys"
    by (rule Cons.IH) (use Cons.prems [of "Suc _"] in auto)
  ultimately show ?case by simp
qed

text \<open>How many slots are taken.\<close>

definition used :: "'a option list \<Rightarrow> nat" where
  "used xs = length (filter (\<lambda>s. s \<noteq> None) xs)"

lemma used_simps [simp]:
  "used [] = 0" "used (None # xs) = used xs" "used (Some v # xs) = Suc (used xs)"
  by (simp_all add: used_def)

lemma used_le: "used xs \<le> length xs"
  by (simp add: used_def)

lemma used_fill:
  "i < length xs \<Longrightarrow> xs ! i = None \<Longrightarrow> used (xs[i := Some v]) = Suc (used xs)"
proof (induction xs arbitrary: i)
  case Nil
  then show ?case by simp
next
  case (Cons x xs)
  then show ?case by (cases i) (auto simp: used_def)
qed

lemma used_clear:
  "i < length xs \<Longrightarrow> xs ! i \<noteq> None \<Longrightarrow> used xs = Suc (used (xs[i := None]))"
proof (induction xs arbitrary: i)
  case Nil
  then show ?case by simp
next
  case (Cons x xs)
  then show ?case by (cases i) (auto simp: used_def)
qed

lemma used_full: "used xs = length xs \<longleftrightarrow> position (\<lambda>s. s = None) xs = None"
proof (induction xs)
  case Nil
  then show ?case by simp
next
  case (Cons x xs)
  then show ?case
    using used_le [of xs] by (cases x) auto
qed

subsection \<open>Saturating and checked arithmetic\<close>

definition saturating_add :: "'a::len word \<Rightarrow> 'a word \<Rightarrow> 'a word" where
  "saturating_add a b = (if unat a + unat b < 2 ^ LENGTH('a) then a + b else -1)"

definition saturating_sub :: "'a::len word \<Rightarrow> 'a word \<Rightarrow> 'a word" where
  "saturating_sub a b = (if b \<le> a then a - b else 0)"

definition saturating_mul :: "'a::len word \<Rightarrow> 'a word \<Rightarrow> 'a word" where
  "saturating_mul a b = (if unat a * unat b < 2 ^ LENGTH('a) then a * b else -1)"

definition checked_add :: "'a::len word \<Rightarrow> 'a word \<Rightarrow> 'a word option" where
  "checked_add a b = (if unat a + unat b < 2 ^ LENGTH('a) then Some (a + b) else None)"

definition checked_sub :: "'a::len word \<Rightarrow> 'a word \<Rightarrow> 'a word option" where
  "checked_sub a b = (if b \<le> a then Some (a - b) else None)"

lemma unat_bound: "unat (w :: 'a::len word) < 2 ^ LENGTH('a)"
  by (rule unsigned_less)

lemma unat_minus_one_max: "unat (- 1 :: 'a::len word) = 2 ^ LENGTH('a) - 1"
  by (simp add: unsigned_minus_1_eq_mask mask_eq_exp_minus_1)

lemma unat_add_small:
  "unat a + unat b < 2 ^ LENGTH('a) \<Longrightarrow> unat (a + b) = unat a + unat b"
  for a b :: "'a::len word"
  by (simp only: unat_word_ariths mod_less)

lemma unat_mult_small:
  "unat a * unat b < 2 ^ LENGTH('a) \<Longrightarrow> unat (a * b) = unat a * unat b"
  for a b :: "'a::len word"
  by (simp only: unat_word_ariths mod_less)

lemma unat_saturating_add [sat_simps]:
  "unat (saturating_add a b) = min (unat a + unat b) (2 ^ LENGTH('a) - 1)"
  for a b :: "'a::len word"
proof (cases "unat a + unat b < 2 ^ LENGTH('a)")
  case True
  then have "unat a + unat b \<le> 2 ^ LENGTH('a) - 1" by linarith
  with True show ?thesis
    by (simp only: saturating_add_def unat_add_small min.absorb1 if_True)
next
  case False
  then have "2 ^ LENGTH('a) - 1 \<le> unat a + unat b" by linarith
  with False show ?thesis
    by (simp only: saturating_add_def unat_minus_one_max min.absorb2 if_False)
qed

lemma unat_saturating_sub [sat_simps]:
  "unat (saturating_sub a b) = unat a - unat b" for a b :: "'a::len word"
  by (simp add: saturating_sub_def unat_sub word_le_nat_alt)

lemma unat_saturating_mul [sat_simps]:
  "unat (saturating_mul a b) = min (unat a * unat b) (2 ^ LENGTH('a) - 1)"
  for a b :: "'a::len word"
proof (cases "unat a * unat b < 2 ^ LENGTH('a)")
  case True
  then have "unat a * unat b \<le> 2 ^ LENGTH('a) - 1" by linarith
  with True show ?thesis
    by (simp only: saturating_mul_def unat_mult_small min.absorb1 if_True)
next
  case False
  then have "2 ^ LENGTH('a) - 1 \<le> unat a * unat b" by linarith
  with False show ?thesis
    by (simp only: saturating_mul_def unat_minus_one_max min.absorb2 if_False)
qed

subsection \<open>Bit counting\<close>

definition trailing_zeros :: "'a::len word \<Rightarrow> nat" where
  "trailing_zeros w = length (takeWhile (\<lambda>i. \<not> bit w i) [0..<LENGTH('a)])"

definition leading_zeros :: "'a::len word \<Rightarrow> nat" where
  "leading_zeros w = length (takeWhile (\<lambda>i. \<not> bit w i) (rev [0..<LENGTH('a)]))"

definition count_zeros :: "'a::len word \<Rightarrow> nat" where
  "count_zeros w = length (filter (\<lambda>i. \<not> bit w i) [0..<LENGTH('a)])"

lemma takeWhile_upt:
  assumes "\<And>i. i < n \<Longrightarrow> P i" and "\<not> P n" and "n < m"
  shows "takeWhile P [0..<m] = [0..<n]"
proof -
  have "[0..<m] = [0..<n] @ n # [Suc n..<m]"
    using assms(3) by (metis le_add_diff_inverse less_imp_le upt_add_eq_append upt_conv_Cons zero_le)
  moreover have "takeWhile P ([0..<n] @ n # [Suc n..<m]) = [0..<n] @ takeWhile P (n # [Suc n..<m])"
    using assms(1) by (intro takeWhile_append2) simp
  ultimately show ?thesis using assms(2) by simp
qed

lemma trailing_zeros_eqI:
  "(\<And>i. i < n \<Longrightarrow> \<not> bit w i) \<Longrightarrow> bit w n \<Longrightarrow> n < LENGTH('a) \<Longrightarrow> trailing_zeros w = n"
  for w :: "'a::len word"
  using takeWhile_upt [of n "\<lambda>i. \<not> bit w i" "LENGTH('a)"] by (simp add: trailing_zeros_def)

end
