(* ===== verification/Layout.thy ===== *)
theory Layout
  imports Prelude
begin

unbundle bit_operations_syntax

text \<open>
  Address-space layout and page arithmetic: \<^verbatim>\<open>src/kernel/src/mm/layout.rs\<close>, the protection and
  mapping flags of \<^verbatim>\<open>mm/permissions.rs\<close>, and the direct map of \<^verbatim>\<open>arch/memory.rs\<close> and
  \<^verbatim>\<open>boot/info.rs\<close>. A flag set of the \<open>bitflags\<close> crate is its bit pattern; \<open>contains\<close> is the
  documented test that all bits of the argument are set.
\<close>

subsection \<open>Constants\<close>

definition PAGE_SIZE :: u64 where "PAGE_SIZE = 4096"
abbreviation (input) PAGE_MASK :: u64 where "PAGE_MASK \<equiv> PAGE_SIZE - 1"
definition USER_ADDR_MIN :: u64 where "USER_ADDR_MIN = 0x10000"
definition USER_ADDR_MAX :: u64 where "USER_ADDR_MAX = 0x7FFFFFFFFFFF"
abbreviation (input) USER_MMAP_BASE :: u64 where "USER_MMAP_BASE \<equiv> 0x200000000000"
definition USER_MMAP_LIMIT :: u64 where "USER_MMAP_LIMIT = 0x600000000000"
abbreviation (input) USER_HEAP_BASE :: u64 where "USER_HEAP_BASE \<equiv> 0x100000000000"
abbreviation (input) USER_STACK_TOP :: u64 where "USER_STACK_TOP \<equiv> 0x700000000000"
abbreviation (input) KERNEL_VIRT_BASE :: u64 where "KERNEL_VIRT_BASE \<equiv> 0xFFFFFFFF80000000"

datatype PageSize = Size4KiB | Size2MiB | Size1GiB

fun page_size_bytes :: "PageSize \<Rightarrow> u64" where
  "page_size_bytes Size4KiB = 4096"
| "page_size_bytes Size2MiB = 2 * 1024 * 1024"
| "page_size_bytes Size1GiB = 1024 * 1024 * 1024"

fun page_size_shift :: "PageSize \<Rightarrow> nat" where
  "page_size_shift Size4KiB = 12"
| "page_size_shift Size2MiB = 21"
| "page_size_shift Size1GiB = 30"

subsection \<open>Addresses\<close>

definition is_user_address :: "u64 \<Rightarrow> bool" where
  "is_user_address addr \<longleftrightarrow> addr \<ge> USER_ADDR_MIN \<and> addr \<le> USER_ADDR_MAX"

definition is_kernel_address :: "u64 \<Rightarrow> bool" where
  "is_kernel_address addr \<longleftrightarrow> addr \<ge> KERNEL_VIRT_BASE"

definition align_down :: "u64 \<Rightarrow> u64 \<Rightarrow> u64" where
  "align_down addr align = addr AND NOT (align - 1)"

definition align_up :: "u64 \<Rightarrow> u64 \<Rightarrow> u64" where
  "align_up addr align = (addr + align - 1) AND NOT (align - 1)"

definition phys_to_virt :: "u64 \<Rightarrow> u64 \<Rightarrow> u64" where
  "phys_to_virt hhdm phys = phys + hhdm"

definition virt_to_phys :: "u64 \<Rightarrow> u64 \<Rightarrow> u64 option" where
  "virt_to_phys hhdm virt = (if virt \<ge> hhdm then Some (virt - hhdm) else None)"

subsection \<open>Flag sets\<close>

definition contains :: "'a::len word \<Rightarrow> 'a word \<Rightarrow> bool" where
  "contains flags f \<longleftrightarrow> flags AND f = f"

abbreviation (input) PROT_READ :: u32 where "PROT_READ \<equiv> 1"
abbreviation (input) PROT_WRITE :: u32 where "PROT_WRITE \<equiv> 2"
abbreviation (input) PROT_EXEC :: u32 where "PROT_EXEC \<equiv> 4"
abbreviation (input) PROT_USER :: u32 where "PROT_USER \<equiv> 8"
abbreviation (input) PROT_GROW_DOWN :: u32 where "PROT_GROW_DOWN \<equiv> 16"
abbreviation (input) PROT_SHARED :: u32 where "PROT_SHARED \<equiv> 32"

abbreviation (input) MAP_SHARED :: u32 where "MAP_SHARED \<equiv> 1"
abbreviation (input) MAP_PRIVATE :: u32 where "MAP_PRIVATE \<equiv> 2"
abbreviation (input) MAP_ANONYMOUS :: u32 where "MAP_ANONYMOUS \<equiv> 4"
abbreviation (input) MAP_FIXED :: u32 where "MAP_FIXED \<equiv> 8"
abbreviation (input) MAP_FIXED_NOREPLACE :: u32 where "MAP_FIXED_NOREPLACE \<equiv> 16"
abbreviation (input) MAP_POPULATE :: u32 where "MAP_POPULATE \<equiv> 32"
abbreviation (input) MAP_STACK :: u32 where "MAP_STACK \<equiv> 128"


definition mprotect_of_prot :: "u32 \<Rightarrow> u32" where
  "mprotect_of_prot prot =
     (if contains prot PROT_READ then 1 else 0) OR (if contains prot PROT_WRITE then 2 else 0) OR
     (if contains prot PROT_EXEC then 4 else 0) OR (if contains prot PROT_GROW_DOWN then 8 else 0)"

definition user_readable :: "u32 \<Rightarrow> bool" where
  "user_readable prot \<longleftrightarrow> contains prot PROT_READ \<or> contains prot PROT_EXEC"

definition user_writable :: "u32 \<Rightarrow> bool" where
  "user_writable prot \<longleftrightarrow> contains prot PROT_WRITE"

subsection \<open>Alignment\<close>

lemma not_mask_eq: "w AND NOT (mask n) = push_bit n (drop_bit n w)" for w :: "'a::len word"
  by (rule bit_word_eqI) (auto simp: bit_simps)

lemma unat_align_down:
  assumes "k < 64"
  shows "unat (align_down a (2 ^ k)) = unat a div 2 ^ k * 2 ^ k"
proof -
  have "(2 :: u64) ^ k - 1 = mask k" by (simp add: mask_eq_exp_minus_1)
  then have "align_down a (2 ^ k) = push_bit k (drop_bit k a)"
    by (simp add: align_down_def not_mask_eq)
  moreover have "take_bit LENGTH(64) (unat a) = unat a"
    using unat_bound [of a] by (simp add: take_bit_nat_eq_self_iff)
  ultimately have "unat (align_down a (2 ^ k)) = take_bit LENGTH(64) (push_bit k (drop_bit k (unat a)))"
    by (simp only: unsigned_push_bit_eq unsigned_drop_bit_eq)
  moreover have "LENGTH(64) = 64" by simp
  ultimately have "unat (align_down a (2 ^ k)) = (unat a div 2 ^ k * 2 ^ k) mod 2 ^ 64"
    by (simp only: take_bit_eq_mod push_bit_eq_mult drop_bit_eq_div)
  moreover have "unat a div 2 ^ k * 2 ^ k < 2 ^ 64"
    by (rule le_less_trans [OF div_times_less_eq_dividend]) (use unat_bound [of a] in simp)
  ultimately show ?thesis by simp
qed

lemma unat_align_up:
  assumes "k < 64" and "unat a + (2 ^ k - 1) < 2 ^ 64"
  shows "unat (align_up a (2 ^ k)) = (unat a + (2 ^ k - 1)) div 2 ^ k * 2 ^ k"
proof -
  have "unat (mask k :: u64) = mask k"
    by (rule bit_eqI) (use assms(1) in \<open>auto simp: bit_unsigned_iff bit_mask_iff\<close>)
  then have m: "unat ((2 :: u64) ^ k - 1) = 2 ^ k - 1"
    by (simp add: mask_eq_exp_minus_1)
  then have "unat (a + (2 ^ k - 1)) = unat a + (2 ^ k - 1)"
    using unat_add_small [of a "2 ^ k - 1"] assms(2) by simp
  moreover have "align_up a (2 ^ k) = align_down (a + (2 ^ k - 1)) (2 ^ k)"
    by (simp add: align_up_def align_down_def algebra_simps)
  ultimately show ?thesis using unat_align_down [OF assms(1)] by simp
qed

text \<open>
  C35: for an alignment that is a power of two and an address that does not overflow,
  \<open>align_down\<close> is the greatest multiple not above the address and \<open>align_up\<close> the least multiple
  not below it.
\<close>

theorem align_correct:
  assumes "k < 64" and "unat a + (2 ^ k - 1) < 2 ^ 64"
  shows "2 ^ k dvd unat (align_down a (2 ^ k)) \<and> unat (align_down a (2 ^ k)) \<le> unat a \<and>
    unat a < unat (align_down a (2 ^ k)) + 2 ^ k \<and>
    2 ^ k dvd unat (align_up a (2 ^ k)) \<and> unat a \<le> unat (align_up a (2 ^ k)) \<and>
    unat (align_up a (2 ^ k)) < unat a + 2 ^ k"
proof -
  have "0 < (2 :: nat) ^ k" by simp
  then have "x < x div 2 ^ k * 2 ^ k + 2 ^ k" "x div 2 ^ k * 2 ^ k \<le> x" for x :: nat
    using dividend_less_div_times [of "2 ^ k" x] by simp_all
  from this [of "unat a"] this [of "unat a + (2 ^ k - 1)"] \<open>0 < (2 :: nat) ^ k\<close>
  show ?thesis
    unfolding unat_align_down [OF assms(1)] unat_align_up [OF assms]
    by (intro conjI dvd_triv_right) linarith+
qed

theorem align_correct_witness:
  "unat (0x1234 :: u64) + (2 ^ 12 - 1) < 2 ^ 64 \<and> unat (align_down 0x1234 (2 ^ 12)) \<le> unat (0x1234 :: u64) \<and>
   align_down 0x1234 (2 ^ 12) = 0x1000 \<and> align_up 0x1234 (2 ^ 12) = 0x2000"
  using align_correct [of 12 "0x1234"] by (simp add: align_down_def align_up_def)

end
