(* ===== verification/Context.thy ===== *)
theory Context
  imports Layout
begin

text \<open>
  The saved registers of a thread: \<^verbatim>\<open>src/kernel/src/arch/x86_64/context.rs\<close>, with the frame that the
  interrupt stub pushes (\<^verbatim>\<open>src/kernel/src/arch/x86_64/interrupts.rs\<close>) and the selectors of
  \<^verbatim>\<open>src/kernel/src/arch/x86_64/gdt.rs\<close>. The instructions that save and restore the vector state
  are arguments. The lemmas show that saving a frame and writing it back restores every register.
\<close>

abbreviation (input) SEL_KERNEL_CODE :: u16 where "SEL_KERNEL_CODE \<equiv> 0x08"
abbreviation (input) SEL_KERNEL_DATA :: u16 where "SEL_KERNEL_DATA \<equiv> 0x10"
abbreviation (input) SEL_USER_DATA :: u16 where "SEL_USER_DATA \<equiv> 0x18 OR 3"
abbreviation (input) SEL_USER_CODE :: u16 where "SEL_USER_CODE \<equiv> 0x20 OR 3"

record CpuContext =
  cx_r15 :: u64
  cx_r14 :: u64
  cx_r13 :: u64
  cx_r12 :: u64
  cx_r11 :: u64
  cx_r10 :: u64
  cx_r9 :: u64
  cx_r8 :: u64
  cx_rdi :: u64
  cx_rsi :: u64
  cx_rbp :: u64
  cx_rbx :: u64
  cx_rdx :: u64
  cx_rcx :: u64
  cx_rax :: u64
  cx_rip :: u64
  cx_cs :: u64
  cx_rflags :: u64
  cx_rsp :: u64
  cx_ss :: u64

record InterruptFrame =
  if_r15 :: u64
  if_r14 :: u64
  if_r13 :: u64
  if_r12 :: u64
  if_r11 :: u64
  if_r10 :: u64
  if_r9 :: u64
  if_r8 :: u64
  if_rdi :: u64
  if_rsi :: u64
  if_rbp :: u64
  if_rbx :: u64
  if_rdx :: u64
  if_rcx :: u64
  if_rax :: u64
  if_vector :: u64
  if_error_code :: u64
  if_rip :: u64
  if_cs :: u64
  if_rflags :: u64
  if_rsp :: u64
  if_ss :: u64

definition cpu_context_empty :: CpuContext where
  "cpu_context_empty = \<lparr>cx_r15 = 0, cx_r14 = 0, cx_r13 = 0, cx_r12 = 0, cx_r11 = 0, cx_r10 = 0, cx_r9 = 0,
     cx_r8 = 0, cx_rdi = 0, cx_rsi = 0, cx_rbp = 0, cx_rbx = 0, cx_rdx = 0, cx_rcx = 0,
     cx_rax = 0, cx_rip = 0, cx_cs = ucast SEL_KERNEL_CODE, cx_rflags = 0x202, cx_rsp = 0,
     cx_ss = ucast SEL_KERNEL_DATA\<rparr>"

definition from_interrupt :: "InterruptFrame \<Rightarrow> CpuContext" where
  "from_interrupt frame = \<lparr>cx_r15 = if_r15 frame, cx_r14 = if_r14 frame, cx_r13 = if_r13 frame, cx_r12 = if_r12 frame,
     cx_r11 = if_r11 frame, cx_r10 = if_r10 frame, cx_r9 = if_r9 frame, cx_r8 = if_r8 frame,
     cx_rdi = if_rdi frame, cx_rsi = if_rsi frame, cx_rbp = if_rbp frame, cx_rbx = if_rbx frame,
     cx_rdx = if_rdx frame, cx_rcx = if_rcx frame, cx_rax = if_rax frame, cx_rip = if_rip frame,
     cx_cs = if_cs frame, cx_rflags = if_rflags frame, cx_rsp = if_rsp frame, cx_ss = if_ss frame\<rparr>"

definition write_interrupt :: "CpuContext \<Rightarrow> InterruptFrame \<Rightarrow> InterruptFrame" where
  "write_interrupt c frame = frame\<lparr>if_r15 := cx_r15 c, if_r14 := cx_r14 c, if_r13 := cx_r13 c, if_r12 := cx_r12 c,
     if_r11 := cx_r11 c, if_r10 := cx_r10 c, if_r9 := cx_r9 c, if_r8 := cx_r8 c,
     if_rdi := cx_rdi c, if_rsi := cx_rsi c, if_rbp := cx_rbp c, if_rbx := cx_rbx c,
     if_rdx := cx_rdx c, if_rcx := cx_rcx c, if_rax := cx_rax c, if_rip := cx_rip c,
     if_cs := cx_cs c, if_rflags := cx_rflags c, if_rsp := cx_rsp c, if_ss := cx_ss c\<rparr>"

definition init_kernel_thread :: "u64 \<Rightarrow> u64 \<Rightarrow> CpuContext" where
  "init_kernel_thread stack_top entry = cpu_context_empty\<lparr>cx_rsp := stack_top, cx_rip := entry,
     cx_cs := ucast SEL_KERNEL_CODE, cx_ss := ucast SEL_KERNEL_DATA, cx_rflags := 0x202\<rparr>"

definition init_user_thread :: "u64 \<Rightarrow> u64 \<Rightarrow> CpuContext" where
  "init_user_thread user_stack entry = cpu_context_empty\<lparr>cx_rsp := user_stack, cx_rip := entry,
     cx_cs := ucast SEL_USER_CODE, cx_ss := ucast SEL_USER_DATA, cx_rflags := 0x202\<rparr>"

text \<open>The vector registers, as the bytes that \<open>XSAVE\<close> stores; \<open>xsave\<close> is the processor's answer.\<close>

abbreviation (input) XSAVE_AREA_SIZE :: nat where "XSAVE_AREA_SIZE \<equiv> 4096"

definition extended_zeroed :: "u8 list" where "extended_zeroed = replicate XSAVE_AREA_SIZE 0"

definition save_thread_context ::
  "(u8 list \<Rightarrow> u8 list) \<Rightarrow> u8 list \<Rightarrow> InterruptFrame \<Rightarrow> CpuContext \<times> u8 list" where
  "save_thread_context xsave ext frame = (from_interrupt frame, xsave ext)"

definition restore_thread_context :: "CpuContext \<Rightarrow> u8 list \<Rightarrow> InterruptFrame \<Rightarrow> u8 list \<times> InterruptFrame" where
  "restore_thread_context c ext frame = (ext, write_interrupt c frame)"

lemma from_write_interrupt: "from_interrupt (write_interrupt c frame) = c"
  by (simp add: from_interrupt_def write_interrupt_def)

lemma write_from_interrupt:
  "write_interrupt (from_interrupt f) frame = f\<lparr>if_vector := if_vector frame, if_error_code := if_error_code frame\<rparr>"
  by (simp add: from_interrupt_def write_interrupt_def)

end
