(* ===== verification/Bytes.thy ===== *)
theory Bytes
  imports Layout
begin

text \<open>
  Byte sequences and byte-addressed memory: the little- and big-endian conversions
  (\<open>to_le_bytes\<close>, \<open>from_le_bytes\<close>, \<open>to_be_bytes\<close>, \<open>from_be_bytes\<close>), slices with the bounds
  checks of Rust, and an address space seen as a function from addresses to bytes, with the
  wrap-around of pointer arithmetic.
\<close>

type_synonym bytes = "u8 list"
type_synonym mem = "u64 \<Rightarrow> u8"

named_theorems byte_simps \<open>conversions between words and byte sequences\<close>
named_theorems mem_simps \<open>reads of a memory after writes\<close>

subsection \<open>Slices\<close>

text \<open>
  \<open>slice xs a b\<close> is \<open>&xs[a..b]\<close>, a panic unless \<open>a \<le> b \<le> xs.len()\<close>; \<open>get_slice\<close> is
  \<open>xs.get(a..b)\<close>; \<open>copy_into xs a ys\<close> is \<open>xs[a..a + ys.len()].copy_from_slice(ys)\<close>.
\<close>

definition slice :: "'a list \<Rightarrow> nat \<Rightarrow> nat \<Rightarrow> 'a list run" where
  "slice xs a b = (if a \<le> b \<and> b \<le> length xs then Some (take (b - a) (drop a xs)) else None)"

definition copy_into :: "'a list \<Rightarrow> nat \<Rightarrow> 'a list \<Rightarrow> 'a list run" where
  "copy_into xs a ys =
     (if a + length ys \<le> length xs then Some (take a xs @ ys @ drop (a + length ys) xs) else None)"

lemma slice_in [simp]:
  "a \<le> b \<Longrightarrow> b \<le> length xs \<Longrightarrow> slice xs a b = Some (take (b - a) (drop a xs))"
  by (simp add: slice_def)

lemma slice_eq_Some:
  "slice xs a b = Some ys \<longleftrightarrow> a \<le> b \<and> b \<le> length xs \<and> ys = take (b - a) (drop a xs)"
  by (auto simp: slice_def)

lemma copy_into_in [simp]:
  "a + length ys \<le> length xs \<Longrightarrow>
   copy_into xs a ys = Some (take a xs @ ys @ drop (a + length ys) xs)"
  by (simp add: copy_into_def)

lemma copy_into_length: "copy_into xs a ys = Some zs \<Longrightarrow> length zs = length xs"
  by (auto simp: copy_into_def split: if_splits)

lemma copy_into_same:
  "copy_into xs a ys = Some zs \<Longrightarrow> take (length ys) (drop a zs) = ys"
  by (auto simp: copy_into_def split: if_splits)

lemma copy_into_nth:
  "copy_into xs a ys = Some zs \<Longrightarrow> i < length xs \<Longrightarrow>
   zs ! i = (if a \<le> i \<and> i < a + length ys then ys ! (i - a) else xs ! i)"
  by (auto simp: copy_into_def nth_append split: if_splits)

subsection \<open>Endianness\<close>

definition le_bytes :: "nat \<Rightarrow> 'a::len word \<Rightarrow> bytes" where
  "le_bytes n w = map (\<lambda>i. ucast (drop_bit (8 * i) w)) [0..<n]"

fun of_le :: "bytes \<Rightarrow> 'a::len word" where
  "of_le [] = 0"
| "of_le (b # bs) = ucast b OR push_bit 8 (of_le bs)"

definition be_bytes :: "nat \<Rightarrow> 'a::len word \<Rightarrow> bytes" where
  "be_bytes n w = rev (le_bytes n w)"

definition of_be :: "bytes \<Rightarrow> 'a::len word" where
  "of_be bs = of_le (rev bs)"

lemma length_le_bytes [simp]: "length (le_bytes n w) = n"
  by (simp add: le_bytes_def)

lemma length_be_bytes [simp]: "length (be_bytes n w) = n"
  by (simp add: be_bytes_def)

lemma bit_of_le:
  "bit (of_le bs :: 'a::len word) i \<longleftrightarrow> i < LENGTH('a) \<and> i div 8 < length bs \<and> bit (bs ! (i div 8)) (i mod 8)"
proof (induction bs arbitrary: i)
  case Nil
  then show ?case by simp
next
  case (Cons b bs)
  have hi: "bit (push_bit 8 (of_le bs) :: 'a word) i \<longleftrightarrow>
      i < LENGTH('a) \<and> 8 \<le> i \<and> i div 8 - 1 < length bs \<and> bit (bs ! (i div 8 - 1)) (i mod 8)"
    by (auto simp: bit_push_bit_iff Cons.IH le_div_geq le_mod_geq)
  have lo: "bit (ucast b :: 'a word) i \<longleftrightarrow> i < LENGTH('a) \<and> i < 8 \<and> bit b i"
    using bit_imp_le_length [of b i] by (auto simp: bit_unsigned_iff)
  show ?case
  proof (cases "i < 8")
    case True
    with hi lo show ?thesis by (simp add: bit_or_iff)
  next
    case False
    then obtain k where "i div 8 = Suc k"
      by (metis One_nat_def add_diff_inverse_nat div_greater_zero_iff gr0_conv_Suc not_less zero_less_numeral)
    with False hi lo show ?thesis by (simp add: bit_or_iff)
  qed
qed

lemma of_le_le_bytes [byte_simps]:
  "LENGTH('a) \<le> 8 * n \<Longrightarrow> of_le (le_bytes n w) = (w :: 'a::len word)"
proof (rule bit_word_eqI)
  fix i assume n: "LENGTH('a) \<le> 8 * n" and i: "i < LENGTH('a)"
  then have "i div 8 < n" by linarith
  with i show "bit (of_le (le_bytes n w) :: 'a word) i = bit w i"
    by (simp add: bit_of_le le_bytes_def bit_unsigned_iff bit_drop_bit_eq)
qed

lemma of_be_be_bytes [byte_simps]:
  "LENGTH('a) \<le> 8 * n \<Longrightarrow> of_be (be_bytes n w) = (w :: 'a::len word)"
  by (simp add: of_be_def be_bytes_def byte_simps)

lemma le_bytes_of_le [byte_simps]:
  assumes "8 * length bs \<le> LENGTH('a)"
  shows "le_bytes (length bs) (of_le bs :: 'a::len word) = bs"
proof (rule nth_equalityI)
  fix j assume "j < length (le_bytes (length bs) (of_le bs :: 'a word))"
  then have j: "j < length bs" by simp
  show "le_bytes (length bs) (of_le bs :: 'a word) ! j = bs ! j"
  proof (rule bit_word_eqI)
    fix i assume "i < LENGTH(8)"
    then have i: "i < 8" by simp
    then have "(8 * j + i) div 8 = j" "(8 * j + i) mod 8 = i" "8 * j + i < LENGTH('a)"
      using j assms by auto
    with i j show "bit (le_bytes (length bs) (of_le bs :: 'a word) ! j) i = bit (bs ! j) i"
      by (simp add: le_bytes_def bit_unsigned_iff bit_drop_bit_eq bit_of_le)
  qed
qed simp

subsection \<open>Memory\<close>

definition mem_read :: "mem \<Rightarrow> u64 \<Rightarrow> nat \<Rightarrow> bytes" where
  "mem_read m a n = map (\<lambda>i. m (a + of_nat i)) [0..<n]"

definition mem_write :: "mem \<Rightarrow> u64 \<Rightarrow> bytes \<Rightarrow> mem" where
  "mem_write m a bs = (\<lambda>x. if unat (x - a) < length bs then bs ! unat (x - a) else m x)"

lemma length_mem_read [simp]: "length (mem_read m a n) = n"
  by (simp add: mem_read_def)

lemma mem_read_write_same [mem_simps]:
  "length bs \<le> 2 ^ 64 \<Longrightarrow> mem_read (mem_write m a bs) a (length bs) = bs"
  by (rule nth_equalityI) (auto simp: mem_read_def mem_write_def unat_of_nat)

lemma unat_minus_of_nat:
  assumes "0 < d" "d \<le> 2 ^ 64"
  shows "unat (- of_nat d :: u64) = 2 ^ 64 - d"
proof -
  have "(of_nat (2 ^ 64 - d) :: u64) = of_nat (2 ^ 64) - of_nat d"
    using assms(2) by (rule of_nat_diff)
  moreover have "(of_nat (2 ^ 64) :: u64) = 0" by simp
  ultimately have "(- of_nat d :: u64) = of_nat (2 ^ 64 - d)" by simp
  then show ?thesis
    using assms by (simp only: unat_of_nat) simp
qed

text \<open>A write at \<open>a + o\<close> is not seen by a read at \<open>a + p\<close> when the two ranges of offsets are
  disjoint and the object at \<open>a\<close> has at most \<open>2\<^sup>6\<^sup>4\<close> bytes.\<close>

lemma mem_read_write_other:
  assumes "p + n \<le> q \<or> q + length bs \<le> p"
    and "p + n \<le> 2 ^ 64" and "q + length bs \<le> 2 ^ 64"
  shows "mem_read (mem_write m (a + of_nat q) bs) (a + of_nat p) n = mem_read m (a + of_nat p) n"
proof (rule nth_equalityI)
  fix i assume "i < length (mem_read (mem_write m (a + of_nat q) bs) (a + of_nat p) n)"
  then have i: "i < n" by simp
  have eq: "a + of_nat p + of_nat i - (a + of_nat q) = (of_nat (p + i) - of_nat q :: u64)" by simp
  have "\<not> unat (of_nat (p + i) - of_nat q :: u64) < length bs"
  proof (cases "q \<le> p + i")
    case True
    then have "(of_nat (p + i) - of_nat q :: u64) = of_nat (p + i - q)" by (simp add: of_nat_diff)
    moreover have "p + i - q < 2 ^ 64" using i assms(2) by linarith
    moreover have "\<not> p + i - q < length bs" using True i assms(1) by linarith
    ultimately show ?thesis by (simp only: unat_of_nat) simp
  next
    case False
    have "(of_nat (p + i) - of_nat q :: u64) = - of_nat (q - (p + i))"
      using False by (simp add: of_nat_diff)
    then have "unat (of_nat (p + i) - of_nat q :: u64) = 2 ^ 64 - (q - (p + i))"
      using False assms(3) unat_minus_of_nat [of "q - (p + i)"] by simp
    then show ?thesis using False assms(3) by linarith
  qed
  with i show "mem_read (mem_write m (a + of_nat q) bs) (a + of_nat p) n ! i =
      mem_read m (a + of_nat p) n ! i"
    unfolding mem_read_def mem_write_def by (simp only: nth_map_upt length_upt diff_zero add_0 eq if_False)
qed simp

end
