(* ===== verification/Phys_Bitmap.thy ===== *)
theory Phys_Bitmap
  imports Layout
begin

text \<open>
  The bitmap of physical page frames, \<^verbatim>\<open>src/kernel/src/mm/phys/bitmap.rs\<close>: one bit per frame,
  1 for allocated. The abstraction is the set of free frames; every operation is the set
  operation it stands for, and \<open>find_free\<close> returns the least free frame.
\<close>

subsection \<open>Definitions\<close>

record FrameBitmap =
  fb_bits :: "u64 list"
  fb_frame_count :: nat

definition bitmap_new :: "nat \<Rightarrow> nat \<Rightarrow> FrameBitmap" where
  "bitmap_new words count = \<lparr>fb_bits = replicate words 0, fb_frame_count = count\<rparr>"

definition mark_all_used :: "FrameBitmap \<Rightarrow> FrameBitmap" where
  "mark_all_used b = b\<lparr>fb_bits := map (\<lambda>_. -1) (fb_bits b)\<rparr>"

definition fb_test :: "FrameBitmap \<Rightarrow> nat \<Rightarrow> bool run" where
  "fb_test b frame = do {
     w \<leftarrow> idx (fb_bits b) (frame div 64);
     Some ((drop_bit (frame mod 64) w AND 1) = 1) }"

definition fb_set :: "FrameBitmap \<Rightarrow> nat \<Rightarrow> bool \<Rightarrow> FrameBitmap run" where
  "fb_set b frame is_used = do {
     w \<leftarrow> idx (fb_bits b) (frame div 64);
     let m = push_bit (frame mod 64) 1;
     bs \<leftarrow> set_idx (fb_bits b) (frame div 64) (if is_used then w OR m else w AND NOT m);
     Some (b\<lparr>fb_bits := bs\<rparr>) }"

definition fb_is_free :: "FrameBitmap \<Rightarrow> nat \<Rightarrow> bool run" where
  "fb_is_free b frame =
     (if frame \<ge> fb_frame_count b then Some False else map_option Not (fb_test b frame))"

definition set_used :: "FrameBitmap \<Rightarrow> nat \<Rightarrow> FrameBitmap run" where
  "set_used b frame = fb_set b frame True"

definition set_free :: "FrameBitmap \<Rightarrow> nat \<Rightarrow> FrameBitmap run" where
  "set_free b frame = fb_set b frame False"

fun for_frames :: "(FrameBitmap \<Rightarrow> nat \<Rightarrow> FrameBitmap run) \<Rightarrow> nat list \<Rightarrow> FrameBitmap \<Rightarrow> FrameBitmap run" where
  "for_frames f [] b = Some b"
| "for_frames f (x # xs) b = do { b \<leftarrow> f b x; for_frames f xs b }"

definition fb_reserve :: "FrameBitmap \<Rightarrow> u64 \<Rightarrow> u64 \<Rightarrow> FrameBitmap run" where
  "fb_reserve b start count = for_frames set_used [unat start..<unat (start + count)] b"

text \<open>The body of the scan: the word-wise shortcut, then the test of the frame itself.\<close>

definition find_free_step :: "FrameBitmap \<Rightarrow> nat \<Rightarrow> nat option run" where
  "find_free_step b frame = do {
     word \<leftarrow> idx (fb_bits b) (frame div 64);
     let bit = frame mod 64;
     short \<leftarrow> (if drop_bit bit word = 0
        then let candidate = frame + trailing_zeros (NOT word) - bit in
          if candidate < fb_frame_count b
          then map_option (\<lambda>u. if u then None else Some candidate) (fb_test b candidate)
          else Some None
        else Some None);
     (case short of
        Some candidate \<Rightarrow> Some (Some candidate)
      | None \<Rightarrow> map_option (\<lambda>u. if u then None else Some frame) (fb_test b frame)) }"

function find_free_loop :: "FrameBitmap \<Rightarrow> nat \<Rightarrow> nat option run" where
  "find_free_loop b frame =
     (if frame < fb_frame_count b
      then do {
        r \<leftarrow> find_free_step b frame;
        (case r of Some f \<Rightarrow> Some (Some f) | None \<Rightarrow> find_free_loop b (frame + 1)) }
      else Some None)"
  by pat_completeness auto
termination
  by (relation "measure (\<lambda>(b, frame). fb_frame_count b - frame)") auto

definition find_free_from :: "FrameBitmap \<Rightarrow> nat \<Rightarrow> nat option run" where
  "find_free_from b start = (if start \<ge> fb_frame_count b then Some None else find_free_loop b start)"

definition find_free :: "FrameBitmap \<Rightarrow> nat option run" where
  "find_free b = find_free_from b 0"

definition count_free :: "FrameBitmap \<Rightarrow> nat run" where
  "count_free b = do {
     let full_words = fb_frame_count b div 64;
     u \<leftarrow> ensure (full_words \<le> length (fb_bits b));
     let free = (\<Sum>w\<leftarrow>take full_words (fb_bits b). count_zeros w);
     let tail = fb_frame_count b mod 64;
     (if tail \<noteq> 0
      then do {
        w \<leftarrow> idx (fb_bits b) full_words;
        Some (free + count_zeros ((push_bit tail 1 - 1) AND NOT w)) }
      else Some free) }"

definition words_for_frames :: "u64 \<Rightarrow> u64" where
  "words_for_frames frame_count = (frame_count + 63) div 64"

definition bytes_for_frames :: "u64 \<Rightarrow> u64" where
  "bytes_for_frames frame_count = words_for_frames frame_count * 8"

definition phys_from_frame :: "u64 \<Rightarrow> u64" where
  "phys_from_frame frame = frame * PAGE_SIZE"

definition frame_from_phys :: "u64 \<Rightarrow> u64" where
  "frame_from_phys phys = phys div PAGE_SIZE"

subsection \<open>The set of free frames\<close>

definition fb_ok :: "FrameBitmap \<Rightarrow> bool" where
  "fb_ok b \<longleftrightarrow> fb_frame_count b \<le> 64 * length (fb_bits b)"

definition used_bit :: "FrameBitmap \<Rightarrow> nat \<Rightarrow> bool" where
  "used_bit b f \<longleftrightarrow> bit (fb_bits b ! (f div 64)) (f mod 64)"

definition frees :: "FrameBitmap \<Rightarrow> nat set" where
  "frees b = {f. f < fb_frame_count b \<and> \<not> used_bit b f}"

lemma fb_ok_idx: "fb_ok b \<Longrightarrow> f < fb_frame_count b \<Longrightarrow> f div 64 < length (fb_bits b)"
  by (simp add: fb_ok_def less_mult_imp_div_less)

lemma fb_test_eq: "f div 64 < length (fb_bits b) \<Longrightarrow> fb_test b f = Some (used_bit b f)"
  by (simp add: fb_test_def used_bit_def bit_iff_odd_drop_bit and_one_eq odd_iff_mod_2_eq_one)

lemma fb_set_eq:
  assumes "fb_ok b" and "f < fb_frame_count b"
  obtains b' where "fb_set b f u = Some b'" "fb_ok b'" "fb_frame_count b' = fb_frame_count b"
    "\<forall>g. used_bit b' g = (if g = f then u else used_bit b g)"
proof -
  let ?w = "fb_bits b ! (f div 64)"
  let ?v = "if u then ?w OR push_bit (f mod 64) 1 else ?w AND NOT (push_bit (f mod 64) 1)"
  let ?b = "b\<lparr>fb_bits := (fb_bits b)[f div 64 := ?v]\<rparr>"
  have i: "f div 64 < length (fb_bits b)" by (rule fb_ok_idx [OF assms])
  have "used_bit ?b g = (if g = f then u else used_bit b g)" for g
  proof (cases "g div 64 = f div 64")
    case True
    have "g mod 64 < 64" by simp
    moreover have "g = f \<longleftrightarrow> g mod 64 = f mod 64" using True by (metis div_mult_mod_eq)
    ultimately show ?thesis
      using True i by (auto simp: used_bit_def bit_simps)
  next
    case False
    then show ?thesis using i by (auto simp: used_bit_def)
  qed
  then show ?thesis
    using i assms(1) by (intro that [of ?b]) (simp_all add: fb_set_def fb_ok_def Let_def)
qed

subsection \<open>The least free frame\<close>

lemma drop_bit_zero_iff: "drop_bit n w = 0 \<longleftrightarrow> (\<forall>i. n \<le> i \<longrightarrow> \<not> bit w i)" for w :: "'a::len word"
proof
  assume z: "drop_bit n w = 0"
  show "\<forall>i. n \<le> i \<longrightarrow> \<not> bit w i"
  proof (intro allI impI)
    fix i assume "n \<le> i"
    then have "bit w i = bit (drop_bit n w) (i - n)" by (simp add: bit_drop_bit_eq)
    with z show "\<not> bit w i" by simp
  qed
next
  assume "\<forall>i. n \<le> i \<longrightarrow> \<not> bit w i"
  then show "drop_bit n w = 0" by (intro bit_eqI) (simp add: bit_drop_bit_eq)
qed

lemma find_free_step_used:
  assumes "fb_ok b" "f < fb_frame_count b" "used_bit b f"
  shows "find_free_step b f = Some None"
proof -
  have i: "f div 64 < length (fb_bits b)" by (rule fb_ok_idx [OF assms(1,2)])
  moreover have "drop_bit (f mod 64) (fb_bits b ! (f div 64)) \<noteq> 0"
    using assms(3) by (auto simp: drop_bit_zero_iff used_bit_def)
  ultimately show ?thesis using assms(3) by (simp add: find_free_step_def Let_def fb_test_eq)
qed

lemma find_free_step_free:
  assumes "fb_ok b" "f < fb_frame_count b" "\<not> used_bit b f" and below: "\<forall>g < f. used_bit b g"
  shows "find_free_step b f = Some (Some f)"
proof -
  let ?w = "fb_bits b ! (f div 64)"
  have i: "f div 64 < length (fb_bits b)" by (rule fb_ok_idx [OF assms(1,2)])
  have tz: "trailing_zeros (NOT ?w) = f mod 64"
  proof (rule trailing_zeros_eqI)
    fix j assume j: "j < f mod 64"
    then have "64 * (f div 64) + j < f" by (metis add_strict_left_mono mult_div_mod_eq)
    with below have "used_bit b (64 * (f div 64) + j)" by blast
    moreover have "j < 64" using j mod_less_divisor [of 64 f] by linarith
    ultimately show "\<not> bit (NOT ?w) j" by (simp add: used_bit_def bit_simps)
  next
    show "bit (NOT ?w) (f mod 64)" using assms(3) by (simp add: used_bit_def bit_simps)
  qed simp
  show ?thesis
    using assms(2,3) i by (simp add: find_free_step_def Let_def tz fb_test_eq)
qed

lemma find_free_loop_least:
  assumes "fb_ok b" and "\<forall>g < f. used_bit b g"
  shows "find_free_loop b f = Some (if frees b = {} then None else Some (LEAST g. g \<in> frees b))"
  using assms(2)
proof (induction "fb_frame_count b - f" arbitrary: f)
  case 0
  then have "frees b = {}" by (auto simp: frees_def)
  with 0 show ?case by simp
next
  case (Suc n)
  then have f: "f < fb_frame_count b" by simp
  show ?case
  proof (cases "used_bit b f")
    case True
    then have "\<forall>g < f + 1. used_bit b g" using Suc.prems by (simp add: less_Suc_eq)
    then have "find_free_loop b (f + 1) = Some (if frees b = {} then None else Some (LEAST g. g \<in> frees b))"
      using Suc.hyps by simp
    then show ?thesis
      using f find_free_step_used [OF assms(1) f True] by (subst find_free_loop.simps) simp
  next
    case False
    then have m: "f \<in> frees b" using f by (simp add: frees_def)
    moreover have "(LEAST g. g \<in> frees b) = f"
      by (rule Least_equality) (use m Suc.prems in \<open>auto simp: frees_def not_less [symmetric]\<close>)
    ultimately show ?thesis
      using f find_free_step_free [OF assms(1) f False Suc.prems]
      by (subst find_free_loop.simps) auto
  qed
qed

lemma find_free_eq:
  assumes "fb_ok b"
  shows "find_free b = Some (if frees b = {} then None else Some (LEAST g. g \<in> frees b))"
proof (cases "fb_frame_count b = 0")
  case True
  then show ?thesis by (simp add: find_free_def find_free_from_def frees_def)
next
  case False
  then show ?thesis
    using find_free_loop_least [OF assms, of 0] by (simp add: find_free_def find_free_from_def)
qed

subsection \<open>Counting\<close>

lemma count_zeros_card: "count_zeros w = card {i. i < LENGTH('a) \<and> \<not> bit w i}"
  for w :: "'a::len word"
proof -
  have "count_zeros w = card (set (filter (\<lambda>i. \<not> bit w i) [0..<LENGTH('a)]))"
    by (simp add: count_zeros_def distinct_card [symmetric])
  also have "set (filter (\<lambda>i. \<not> bit w i) [0..<LENGTH('a)]) = {i. i < LENGTH('a) \<and> \<not> bit w i}"
    by auto
  finally show ?thesis .
qed

lemma card_free_words:
  assumes "n \<le> length (fb_bits b)"
  shows "card {f. f < 64 * n \<and> \<not> used_bit b f} = (\<Sum>w\<leftarrow>take n (fb_bits b). count_zeros w)"
  using assms
proof (induction n)
  case 0
  then show ?case by simp
next
  case (Suc n)
  let ?A = "{f. f < 64 * n \<and> \<not> used_bit b f}"
  let ?B = "(\<lambda>i. 64 * n + i) ` {i. i < 64 \<and> \<not> bit (fb_bits b ! n) i}"
  have "{f. f < 64 * Suc n \<and> \<not> used_bit b f} = ?A \<union> ?B"
  proof (intro set_eqI iffI)
    fix f assume f: "f \<in> {f. f < 64 * Suc n \<and> \<not> used_bit b f}"
    show "f \<in> ?A \<union> ?B"
    proof (cases "f < 64 * n")
      case False
      then have "f = 64 * n + (f - 64 * n)" "f - 64 * n < 64" "f div 64 = n" "f mod 64 = f - 64 * n"
        using f by (auto simp: div_nat_eqI mod_nat_eqI)
      then show ?thesis using f by (auto simp: used_bit_def image_iff intro!: exI [of _ "f - 64 * n"])
    qed (use f in simp)
  next
    fix f assume "f \<in> ?A \<union> ?B"
    then show "f \<in> {f. f < 64 * Suc n \<and> \<not> used_bit b f}" by (auto simp: used_bit_def)
  qed
  moreover have "card (?A \<union> ?B) = card ?A + card ?B" by (rule card_Un_disjoint) auto
  moreover have "card ?B = count_zeros (fb_bits b ! n)"
    by (subst card_image) (auto simp: count_zeros_card inj_on_def)
  ultimately show ?case using Suc by (simp add: take_Suc_conv_app_nth)
qed

text \<open>The zeros of the masked complement of the last word, which \<open>count_free\<close> adds up.\<close>

lemma count_zeros_masked:
  fixes w :: u64
  assumes "k < 64"
  shows "count_zeros ((push_bit k 1 - 1) AND NOT w) = 64 - card {i. i < k \<and> \<not> bit w i}"
proof -
  let ?A = "{i. i < k \<and> \<not> bit w i}"
  have "push_bit k 1 - 1 = (mask k :: u64)" by (simp add: mask_eq_exp_minus_1 push_bit_eq_mult)
  then have "bit ((push_bit k 1 - 1) AND NOT w) i \<longleftrightarrow> i \<in> ?A" for i
    using assms by (auto simp: bit_and_iff bit_mask_iff bit_not_iff)
  then have "count_zeros ((push_bit k 1 - 1) AND NOT w) = card ({..<64} - ?A)"
    by (simp add: count_zeros_card set_diff_eq)
  also have "\<dots> = 64 - card ?A" using assms by (subst card_Diff_subset) auto
  finally show ?thesis .
qed

lemma card_free_tail:
  assumes "fb_frame_count b = 64 * n + k" and "k < 64"
  shows "card {f \<in> frees b. 64 * n \<le> f} = card {i. i < k \<and> \<not> bit (fb_bits b ! n) i}"
proof -
  have d: "(64 * n + i) div 64 = n" "(64 * n + i) mod 64 = i" if "i < k" for i
    using that assms(2) by simp_all
  have "{f \<in> frees b. 64 * n \<le> f} = (\<lambda>i. 64 * n + i) ` {i. i < k \<and> \<not> bit (fb_bits b ! n) i}"
  proof (intro set_eqI iffI)
    fix f assume f: "f \<in> {f \<in> frees b. 64 * n \<le> f}"
    then have "f = 64 * n + (f - 64 * n)" "f - 64 * n < k" using assms(1) by (auto simp: frees_def)
    with f d [of "f - 64 * n"] show "f \<in> (\<lambda>i. 64 * n + i) ` {i. i < k \<and> \<not> bit (fb_bits b ! n) i}"
      by (auto simp: frees_def used_bit_def image_iff intro!: exI [of _ "f - 64 * n"])
  next
    fix f assume "f \<in> (\<lambda>i. 64 * n + i) ` {i. i < k \<and> \<not> bit (fb_bits b ! n) i}"
    then show "f \<in> {f \<in> frees b. 64 * n \<le> f}" using d assms(1) by (auto simp: frees_def used_bit_def)
  qed
  then show ?thesis by (simp add: card_image inj_on_def)
qed

text \<open>
  C25: on a well-formed bitmap \<open>find_free\<close> is the least free frame, and \<open>None\<close> exactly when every
  frame is allocated. If the frame count is a multiple of 64, as in the bitmap that the frame
  allocator builds, \<open>count_free\<close> is the number of free frames. If it is not, the frames of the
  last, partial word are counted wrongly: instead of its free frames, 64 minus their number is
  added to the free frames of the full words.
\<close>

theorem bitmap_find_count_correct:
  assumes "fb_ok b"
  shows "find_free b = Some (if frees b = {} then None else Some (LEAST f. f \<in> frees b)) \<and>
    count_free b = Some (if fb_frame_count b mod 64 = 0 then card (frees b)
      else card {f \<in> frees b. f < 64 * (fb_frame_count b div 64)} +
        (64 - card {f \<in> frees b. 64 * (fb_frame_count b div 64) \<le> f}))"
proof -
  define n where "n = fb_frame_count b div 64"
  define k where "k = fb_frame_count b mod 64"
  have c: "fb_frame_count b = 64 * n + k" "k < 64" by (simp_all add: n_def k_def)
  then have l: "n \<le> length (fb_bits b)" "k \<noteq> 0 \<Longrightarrow> n < length (fb_bits b)" using assms by (simp_all add: fb_ok_def)
  have "{f \<in> frees b. f < 64 * n} = {f. f < 64 * n \<and> \<not> used_bit b f}" using c by (auto simp: frees_def)
  then have full: "card {f \<in> frees b. f < 64 * n} = (\<Sum>w\<leftarrow>take n (fb_bits b). count_zeros w)"
    using card_free_words [OF l(1)] by simp
  have "count_free b = Some (if k = 0 then card (frees b)
      else card {f \<in> frees b. f < 64 * n} + (64 - card {f \<in> frees b. 64 * n \<le> f}))"
  proof (cases "k = 0")
    case True
    then have "{f \<in> frees b. f < 64 * n} = frees b" using c by (auto simp: frees_def)
    then show ?thesis using True full l by (simp add: count_free_def Let_def n_def [symmetric] k_def [symmetric])
  next
    case False
    then show ?thesis
      using full l card_free_tail [OF c] count_zeros_masked [OF c(2), of "fb_bits b ! n"]
      by (simp add: count_free_def Let_def n_def [symmetric] k_def [symmetric])
  qed
  then show ?thesis using find_free_eq [OF assms] by (simp add: n_def k_def)
qed

theorem bitmap_find_count_correct_witness:
  "find_free \<lparr>fb_bits = [0xF], fb_frame_count = 64\<rparr> = Some (Some (LEAST f. f \<in> frees \<lparr>fb_bits = [0xF], fb_frame_count = 64\<rparr>)) \<and>
   count_free \<lparr>fb_bits = [0xF], fb_frame_count = 64\<rparr> = Some (card (frees \<lparr>fb_bits = [0xF], fb_frame_count = 64\<rparr>)) \<and>
   count_free \<lparr>fb_bits = [0], fb_frame_count = 1\<rparr> = Some 63"
proof -
  have "4 \<in> frees \<lparr>fb_bits = [0xF], fb_frame_count = 64\<rparr>"
    by (simp add: frees_def used_bit_def)
  moreover have "{f \<in> frees \<lparr>fb_bits = [0], fb_frame_count = 1\<rparr>. 0 \<le> f} = {0}"
    by (auto simp: frees_def used_bit_def)
  ultimately show ?thesis
    using bitmap_find_count_correct [of "\<lparr>fb_bits = [0xF], fb_frame_count = 64\<rparr>"]
      bitmap_find_count_correct [of "\<lparr>fb_bits = [0], fb_frame_count = 1\<rparr>"]
    by (auto simp: fb_ok_def)
qed

text \<open>
  With a partial last word the count is wrong: one free frame out of one is counted as 63,
  because the zeros of the masked word are counted instead of its ones.
\<close>

lemma count_free_partial_word: "count_free \<lparr>fb_bits = [0], fb_frame_count = 1\<rparr> = Some 63"
proof -
  have "{i. i < 64 \<and> \<not> bit (1 :: u64) i} = {1..<64}" by (auto simp: bit_1_iff)
  then have "count_zeros (1 :: u64) = 63" by (simp add: count_zeros_card)
  then show ?thesis by (simp add: count_free_def)
qed

end
