(* ===== verification/Phys_Frame.thy ===== *)
theory Phys_Frame
  imports Phys_Bitmap
begin

text \<open>
  The buddy allocator and the frame allocator: \<^verbatim>\<open>src/kernel/src/mm/phys/buddy.rs\<close> and
  \<^verbatim>\<open>mm/phys/frame.rs\<close>. The block pool is uninitialised memory in the source; a slot that was never
  written is \<open>None\<close>, and reading it has no result. Frame numbers of blocks are natural numbers,
  where the source has 64-bit ones: they are below the number of frames of the machine, so that
  neither the end of a region nor the number of a buddy comes near the width.
\<close>

subsection \<open>Buddy allocator\<close>

definition MAX_ORDER :: nat where "MAX_ORDER = 10"
definition MAX_NODES :: nat where "MAX_NODES = 8"

record FreeBlock =
  blk_frame :: nat
  blk_order :: nat
  blk_next :: "nat option"

record BuddyAllocator =
  ba_free_lists :: "nat option list list"
  ba_blocks :: "FreeBlock option list"
  ba_next_block :: nat

definition buddy_new :: "nat \<Rightarrow> BuddyAllocator" where
  "buddy_new n = \<lparr>ba_free_lists = replicate MAX_NODES (replicate (MAX_ORDER + 1) None),
     ba_blocks = replicate n None, ba_next_block = 0\<rparr>"

definition free_list_get :: "BuddyAllocator \<Rightarrow> nat \<Rightarrow> nat \<Rightarrow> nat option run" where
  "free_list_get a node order = do { row \<leftarrow> idx (ba_free_lists a) node; idx row order }"

definition free_list_set :: "BuddyAllocator \<Rightarrow> nat \<Rightarrow> nat \<Rightarrow> nat option \<Rightarrow> BuddyAllocator run" where
  "free_list_set a node order v = do {
     row \<leftarrow> idx (ba_free_lists a) node;
     row \<leftarrow> set_idx row order v;
     rows \<leftarrow> set_idx (ba_free_lists a) node row;
     Some (a\<lparr>ba_free_lists := rows\<rparr>) }"

definition block :: "BuddyAllocator \<Rightarrow> nat \<Rightarrow> FreeBlock run" where
  "block a i = do { b \<leftarrow> idx (ba_blocks a) i; b }"

definition push_block :: "BuddyAllocator \<Rightarrow> nat \<Rightarrow> nat \<Rightarrow> nat \<Rightarrow> BuddyAllocator run" where
  "push_block a node frame order = do {
     u \<leftarrow> ensure (ba_next_block a < length (ba_blocks a));
     let i = ba_next_block a;
     let a = a\<lparr>ba_next_block := i + 1\<rparr>;
     next \<leftarrow> free_list_get a node order;
     bs \<leftarrow> set_idx (ba_blocks a) i (Some \<lparr>blk_frame = frame, blk_order = order, blk_next = next\<rparr>);
     free_list_set (a\<lparr>ba_blocks := bs\<rparr>) node order (Some i) }"

fun all_free :: "FrameBitmap \<Rightarrow> nat list \<Rightarrow> bool run" where
  "all_free b [] = Some True"
| "all_free b (f # fs) = do { r \<leftarrow> fb_is_free b f; (if r then all_free b fs else Some False) }"

text \<open>The order \<open>add_region\<close> picks at \<open>frame\<close>: the largest aligned free block that fits.\<close>

fun region_order :: "FrameBitmap \<Rightarrow> nat \<Rightarrow> nat \<Rightarrow> nat \<Rightarrow> nat run" where
  "region_order b frame end_frame 0 = Some 0"
| "region_order b frame end_frame (Suc order) =
     (let block_frames = 2 ^ Suc order in
      if frame mod block_frames \<noteq> 0 \<or> frame + block_frames > end_frame
      then region_order b frame end_frame order
      else do {
        ok \<leftarrow> all_free b [frame..<frame + block_frames];
        (if ok then Some (Suc order) else region_order b frame end_frame order) })"

partial_function (option) add_region_loop ::
    "BuddyAllocator \<Rightarrow> FrameBitmap \<Rightarrow> nat \<Rightarrow> nat \<Rightarrow> nat \<Rightarrow> (BuddyAllocator \<times> FrameBitmap) run" where
  [code]: "add_region_loop a b node frame end_frame =
     (if frame < end_frame
      then do {
        order \<leftarrow> region_order b frame end_frame MAX_ORDER;
        b \<leftarrow> for_frames set_used [frame..<frame + 2 ^ order] b;
        a \<leftarrow> push_block a node frame order;
        add_region_loop a b node (frame + 2 ^ order) end_frame }
      else Some (a, b))"

definition add_region ::
    "BuddyAllocator \<Rightarrow> FrameBitmap \<Rightarrow> nat \<Rightarrow> nat \<Rightarrow> nat \<Rightarrow> (BuddyAllocator \<times> FrameBitmap) run" where
  "add_region a b start_frame frame_count node =
     (if frame_count = 0 \<or> node \<ge> MAX_NODES then Some (a, b)
      else add_region_loop a b node start_frame (start_frame + frame_count))"

text \<open>The splitting loop of \<open>alloc\<close>: the upper halves go back to the free lists.\<close>

fun split_block ::
    "BuddyAllocator \<Rightarrow> FrameBitmap \<Rightarrow> nat \<Rightarrow> nat \<Rightarrow> nat \<Rightarrow> nat \<Rightarrow> (BuddyAllocator \<times> FrameBitmap) run" where
  "split_block a b node frame order 0 = Some (a, b)"
| "split_block a b node frame order (Suc current) =
     (if Suc current > order
      then do {
        let buddy = frame + 2 ^ current;
        b \<leftarrow> set_free b buddy;
        a \<leftarrow> push_block a node buddy current;
        split_block a b node frame order current }
      else Some (a, b))"

text \<open>\<open>alloc\<close> scans the preferred node and then the others, each from the largest order down.\<close>

definition alloc_candidates :: "nat \<Rightarrow> nat \<Rightarrow> (nat \<times> nat) list" where
  "alloc_candidates order node =
     map (\<lambda>s. (node, s)) (rev [order..<MAX_ORDER + 1]) @
     concat (map (\<lambda>n. map (\<lambda>s. (n, s)) (rev [order..<MAX_ORDER + 1]))
       (filter (\<lambda>n. n \<noteq> node) [0..<MAX_NODES]))"

fun alloc_scan ::
    "BuddyAllocator \<Rightarrow> FrameBitmap \<Rightarrow> nat \<Rightarrow> (nat \<times> nat) list \<Rightarrow>
     (nat option \<times> BuddyAllocator \<times> FrameBitmap) run" where
  "alloc_scan a b order [] = Some (None, a, b)"
| "alloc_scan a b order ((node, search) # cs) = do {
     head \<leftarrow> free_list_get a node search;
     (case head of
        None \<Rightarrow> alloc_scan a b order cs
      | Some i \<Rightarrow> do {
          blk \<leftarrow> block a i;
          a \<leftarrow> free_list_set a node search (blk_next blk);
          (a, b) \<leftarrow> split_block a b node (blk_frame blk) order search;
          b \<leftarrow> set_used b (blk_frame blk);
          Some (Some (blk_frame blk), a, b) }) }"

definition buddy_alloc ::
    "BuddyAllocator \<Rightarrow> FrameBitmap \<Rightarrow> nat \<Rightarrow> nat \<Rightarrow> (nat option \<times> BuddyAllocator \<times> FrameBitmap) run" where
  "buddy_alloc a b order node =
     (let order = min order MAX_ORDER in alloc_scan a b order (alloc_candidates order node))"

partial_function (option) take_buddy_loop ::
    "BuddyAllocator \<Rightarrow> nat \<Rightarrow> nat \<Rightarrow> nat \<Rightarrow> nat option \<Rightarrow> nat option \<Rightarrow> (bool \<times> BuddyAllocator) run" where
  [code]: "take_buddy_loop a node buddy order prev current =
     (case current of
        None \<Rightarrow> Some (False, a)
      | Some i \<Rightarrow> do {
          blk \<leftarrow> block a i;
          (if blk_frame blk = buddy \<and> blk_order blk = order
           then (case prev of
               None \<Rightarrow> do { a \<leftarrow> free_list_set a node order (blk_next blk); Some (True, a) }
             | Some p \<Rightarrow> do {
                 pb \<leftarrow> block a p;
                 bs \<leftarrow> set_idx (ba_blocks a) p (Some (pb\<lparr>blk_next := blk_next blk\<rparr>));
                 Some (True, a\<lparr>ba_blocks := bs\<rparr>) })
           else take_buddy_loop a node buddy order (Some i) (blk_next blk)) })"

definition take_buddy :: "BuddyAllocator \<Rightarrow> FrameBitmap \<Rightarrow> nat \<Rightarrow> nat \<Rightarrow> nat \<Rightarrow> (bool \<times> BuddyAllocator) run" where
  "take_buddy a b node buddy order = do {
     fr \<leftarrow> fb_is_free b buddy;
     (if \<not> fr then Some (False, a)
      else do {
        head \<leftarrow> free_list_get a node order;
        take_buddy_loop a node buddy order None head }) }"

function buddy_free_loop ::
    "BuddyAllocator \<Rightarrow> FrameBitmap \<Rightarrow> nat \<Rightarrow> nat \<Rightarrow> nat \<Rightarrow> (BuddyAllocator \<times> FrameBitmap \<times> nat \<times> nat) run" where
  "buddy_free_loop a b node frame order =
     (if order \<le> MAX_ORDER
      then (let buddy = frame XOR (2 ^ order) in
        if buddy \<ge> fb_frame_count b then Some (a, b, frame, order)
        else do {
          (taken, a) \<leftarrow> take_buddy a b node buddy order;
          (if \<not> taken then Some (a, b, frame, order)
           else do {
             b \<leftarrow> set_free b (min frame buddy);
             buddy_free_loop a b node (min frame buddy) (order + 1) }) })
      else Some (a, b, frame, order))"
  by pat_completeness auto
termination
  by (relation "measure (\<lambda>(a, b, node, frame, order). MAX_ORDER + 1 - order)") auto

definition buddy_free ::
    "BuddyAllocator \<Rightarrow> FrameBitmap \<Rightarrow> nat \<Rightarrow> nat \<Rightarrow> nat \<Rightarrow> (BuddyAllocator \<times> FrameBitmap) run" where
  "buddy_free a b frame order node = do {
     b \<leftarrow> set_free b frame;
     (a, b, frame, order) \<leftarrow> buddy_free_loop a b node frame (min order MAX_ORDER);
     a \<leftarrow> push_block a node frame order;
     Some (a, b) }"

definition next_power_of_two :: "u64 \<Rightarrow> u64" where
  "next_power_of_two p = (if p \<le> 1 then 1 else drop_bit (leading_zeros (p - 1)) (-1) + 1)"

fun order_loop :: "u64 \<Rightarrow> nat \<Rightarrow> nat \<Rightarrow> nat" where
  "order_loop need order 0 = order"
| "order_loop need order (Suc k) =
     (if push_bit order 1 < need then order_loop need (order + 1) k else order)"

definition order_for_count :: "u64 \<Rightarrow> nat" where
  "order_for_count pages = order_loop (max (next_power_of_two pages) 1) 0 MAX_ORDER"

subsection \<open>Frame allocator\<close>

datatype MemoryKind = Usable | Reserved | AcpiReclaimable | AcpiNvs | BadMemory
  | BootloaderReclaimable | Unknown

record MemoryRegion =
  mr_start :: u64
  mr_length :: u64
  mr_kind :: MemoryKind

record FrameDescriptor =
  fd_frame :: nat
  fd_order :: nat
  fd_node :: nat

definition fd_phys :: "FrameDescriptor \<Rightarrow> u64" where
  "fd_phys d = phys_from_frame (of_nat (fd_frame d))"

definition fd_page_count :: "FrameDescriptor \<Rightarrow> u64" where
  "fd_page_count d = push_bit (fd_order d) 1"

definition fd_byte_len :: "FrameDescriptor \<Rightarrow> u64" where
  "fd_byte_len d = fd_page_count d * PAGE_SIZE"

record FrameAllocator =
  fa_bitmap :: FrameBitmap
  fa_buddy :: BuddyAllocator
  fa_total_frames :: nat

definition MAX_BITMAP_WORDS :: nat where "MAX_BITMAP_WORDS = 65536"
definition MAX_BUDDY_BLOCKS :: nat where "MAX_BUDDY_BLOCKS = 8192"

definition is_allocatable :: "MemoryKind \<Rightarrow> bool" where
  "is_allocatable kind \<longleftrightarrow> kind = Usable \<or> kind = BootloaderReclaimable \<or> kind = AcpiReclaimable"

definition reserve_kernel :: "FrameBitmap \<Rightarrow> u64 \<Rightarrow> FrameBitmap run" where
  "reserve_kernel b kernel_base =
     fb_reserve b (frame_from_phys (kernel_base AND NOT (PAGE_SIZE - 1))) 4096"

definition max_phys :: "MemoryRegion list \<Rightarrow> u64" where
  "max_phys mem = (if mem = [] then 256 * 1024 * 1024
     else Max (set (map (\<lambda>r. mr_start r + mr_length r) mem)))"

text \<open>The frames one region releases, within the \<open>cap\<close> frames of the bitmap.\<close>

definition region_frames :: "nat \<Rightarrow> MemoryRegion \<Rightarrow> nat list" where
  "region_frames cap r =
     (if \<not> is_allocatable (mr_kind r) then []
      else let start_frame = frame_from_phys (mr_start r);
               end_frame = saturating_add start_frame (mr_length r div PAGE_SIZE) in
        if unat start_frame \<ge> cap then []
        else [unat start_frame..<min (unat end_frame) cap])"

fun release_regions :: "MemoryRegion list \<Rightarrow> FrameBitmap \<Rightarrow> FrameBitmap run" where
  "release_regions [] b = Some b"
| "release_regions (r # rs) b = do {
     b \<leftarrow> for_frames set_free (region_frames (fb_frame_count b) r) b;
     release_regions rs b }"

definition frame_allocator_new :: "MemoryRegion list \<Rightarrow> u64 \<Rightarrow> FrameAllocator run" where
  "frame_allocator_new mem kernel_base = do {
     let frame_count = align_up (max_phys mem) PAGE_SIZE div PAGE_SIZE;
     let words = min (unat (words_for_frames frame_count)) MAX_BITMAP_WORDS;
     let bitmap = mark_all_used (bitmap_new words (words * 64));
     bitmap \<leftarrow> reserve_kernel bitmap kernel_base;
     bitmap \<leftarrow> release_regions mem bitmap;
     Some \<lparr>fa_bitmap = bitmap, fa_buddy = buddy_new MAX_BUDDY_BLOCKS,
           fa_total_frames = fb_frame_count bitmap\<rparr> }"

definition alloc_order :: "FrameAllocator \<Rightarrow> nat \<Rightarrow> nat \<Rightarrow> (FrameDescriptor option \<times> FrameAllocator) run" where
  "alloc_order fa order node = do {
     let order = min order MAX_ORDER;
     first \<leftarrow> (if order = 0 then find_free (fa_bitmap fa) else Some None);
     (case first of
        Some frame \<Rightarrow> do {
          b \<leftarrow> set_used (fa_bitmap fa) frame;
          Some (Some \<lparr>fd_frame = frame, fd_order = 0, fd_node = node\<rparr>, fa\<lparr>fa_bitmap := b\<rparr>) }
      | None \<Rightarrow> do {
          (r, a, b) \<leftarrow> buddy_alloc (fa_buddy fa) (fa_bitmap fa) order (min node (MAX_NODES - 1));
          Some (map_option (\<lambda>frame. \<lparr>fd_frame = frame, fd_order = order, fd_node = node\<rparr>) r,
                fa\<lparr>fa_buddy := a, fa_bitmap := b\<rparr>) }) }"

definition alloc_one :: "FrameAllocator \<Rightarrow> nat \<Rightarrow> (FrameDescriptor option \<times> FrameAllocator) run" where
  "alloc_one fa node = do {
     r \<leftarrow> find_free (fa_bitmap fa);
     (case r of
        Some frame \<Rightarrow> do {
          b \<leftarrow> set_used (fa_bitmap fa) frame;
          Some (Some \<lparr>fd_frame = frame, fd_order = 0, fd_node = node\<rparr>, fa\<lparr>fa_bitmap := b\<rparr>) }
      | None \<Rightarrow> alloc_order fa 0 node) }"

definition frame_free :: "FrameAllocator \<Rightarrow> FrameDescriptor \<Rightarrow> FrameAllocator run" where
  "frame_free fa desc =
     (if fd_order desc = 0
      then do { b \<leftarrow> set_free (fa_bitmap fa) (fd_frame desc); Some (fa\<lparr>fa_bitmap := b\<rparr>) }
      else do {
        (a, b) \<leftarrow> buddy_free (fa_buddy fa) (fa_bitmap fa) (fd_frame desc) (fd_order desc)
                    (min (fd_node desc) (MAX_NODES - 1));
        Some (fa\<lparr>fa_buddy := a, fa_bitmap := b\<rparr>) })"

definition frame_reserve :: "FrameAllocator \<Rightarrow> u64 \<Rightarrow> u64 \<Rightarrow> FrameAllocator run" where
  "frame_reserve fa start frames = do {
     b \<leftarrow> fb_reserve (fa_bitmap fa) (frame_from_phys start) frames;
     Some (fa\<lparr>fa_bitmap := b\<rparr>) }"

record PhysicalMemoryStats =
  st_total_frames :: nat
  st_free_frames :: nat
  st_free_bytes :: u64

definition frame_stats :: "FrameAllocator \<Rightarrow> PhysicalMemoryStats run" where
  "frame_stats fa = do {
     n \<leftarrow> count_free (fa_bitmap fa);
     Some \<lparr>st_total_frames = fa_total_frames fa, st_free_frames = n, st_free_bytes = of_nat n * PAGE_SIZE\<rparr> }"

definition mark_used :: "FrameAllocator \<Rightarrow> nat \<Rightarrow> FrameAllocator run" where
  "mark_used fa frame = do { b \<leftarrow> set_used (fa_bitmap fa) frame; Some (fa\<lparr>fa_bitmap := b\<rparr>) }"

definition mark_free :: "FrameAllocator \<Rightarrow> nat \<Rightarrow> FrameAllocator run" where
  "mark_free fa frame = do { b \<leftarrow> set_free (fa_bitmap fa) frame; Some (fa\<lparr>fa_bitmap := b\<rparr>) }"

subsection \<open>The global allocator\<close>

text \<open>
  \<^verbatim>\<open>src/kernel/src/mm/phys/mod.rs\<close>: the allocator behind a lock, absent before \<open>init\<close>. Every entry
  point is one critical section, and panics on an absent allocator.
\<close>

type_synonym 'a phys_op = "FrameAllocator option \<Rightarrow> ('a \<times> FrameAllocator option) run"

definition phys_with :: "(FrameAllocator \<Rightarrow> ('a \<times> FrameAllocator) run) \<Rightarrow> 'a phys_op" where
  "phys_with f g = do { fa \<leftarrow> g; (r, fa) \<leftarrow> f fa; Some (r, Some fa) }"

definition phys_init :: "MemoryRegion list \<Rightarrow> u64 \<Rightarrow> unit phys_op" where
  "phys_init mem kernel_base g = do { fa \<leftarrow> frame_allocator_new mem kernel_base; Some ((), Some fa) }"

definition alloc_frame :: "nat \<Rightarrow> FrameDescriptor option phys_op" where
  "alloc_frame preferred_node = phys_with (\<lambda>fa. alloc_one fa preferred_node)"

definition alloc_frames :: "nat \<Rightarrow> nat \<Rightarrow> FrameDescriptor option phys_op" where
  "alloc_frames order preferred_node = phys_with (\<lambda>fa. alloc_order fa order preferred_node)"

definition free_frame :: "FrameDescriptor \<Rightarrow> unit phys_op" where
  "free_frame frame = phys_with (\<lambda>fa. map_option (Pair ()) (frame_free fa frame))"

definition reserve_range :: "u64 \<Rightarrow> u64 \<Rightarrow> unit phys_op" where
  "reserve_range start frames = phys_with (\<lambda>fa. map_option (Pair ()) (frame_reserve fa start frames))"

definition frame_is_free :: "nat \<Rightarrow> bool phys_op" where
  "frame_is_free frame = phys_with (\<lambda>fa. map_option (\<lambda>r. (r, fa)) (fb_is_free (fa_bitmap fa) frame))"

subsection \<open>Frames as a set\<close>

lemma for_frames_eq:
  assumes "fb_ok b" and "\<forall>f \<in> set fs. f < fb_frame_count b"
  obtains b' where "for_frames (\<lambda>b f. fb_set b f u) fs b = Some b'" "fb_ok b'"
    "fb_frame_count b' = fb_frame_count b"
    "\<forall>g. used_bit b' g = (if g \<in> set fs then u else used_bit b g)"
  using assms
proof (induction fs arbitrary: b thesis)
  case Nil
  then show ?case by auto
next
  case (Cons f fs)
  have "f < fb_frame_count b" using Cons.prems(3) by simp
  with Cons.prems(2) obtain b1 where b1: "fb_set b f u = Some b1" "fb_ok b1"
    "fb_frame_count b1 = fb_frame_count b" "\<forall>g. used_bit b1 g = (if g = f then u else used_bit b g)"
    by (rule fb_set_eq)
  have "\<forall>f \<in> set fs. f < fb_frame_count b1" using Cons.prems(3) b1(3) by simp
  with b1(2) obtain b2 where "for_frames (\<lambda>b f. fb_set b f u) fs b1 = Some b2" "fb_ok b2"
    "fb_frame_count b2 = fb_frame_count b1"
    "\<forall>g. used_bit b2 g = (if g \<in> set fs then u else used_bit b1 g)"
    using Cons.IH by blast
  with b1 show ?case by (intro Cons.prems(1) [of b2]) auto
qed

lemma set_used_fun: "set_used = (\<lambda>b f. fb_set b f True)" and set_free_fun: "set_free = (\<lambda>b f. fb_set b f False)"
  by (auto simp: fun_eq_iff set_used_def set_free_def)

lemma region_frames_less: "f \<in> set (region_frames cap r) \<Longrightarrow> f < cap"
  by (auto simp: region_frames_def Let_def split: if_splits)

lemma release_regions_eq:
  assumes "fb_ok b"
  shows "\<exists>b'. release_regions rs b = Some b' \<and> fb_ok b' \<and> fb_frame_count b' = fb_frame_count b \<and>
    (\<forall>g. used_bit b' g \<longleftrightarrow> used_bit b g \<and> (\<forall>r \<in> set rs. g \<notin> set (region_frames (fb_frame_count b) r)))"
  using assms
proof (induction rs arbitrary: b)
  case Nil
  then show ?case by simp
next
  case (Cons r rs)
  let ?fs = "region_frames (fb_frame_count b) r"
  have "\<forall>f \<in> set ?fs. f < fb_frame_count b" using region_frames_less by blast
  with Cons.prems obtain b1 where b1: "for_frames (\<lambda>b f. fb_set b f False) ?fs b = Some b1" "fb_ok b1"
    "fb_frame_count b1 = fb_frame_count b" "\<forall>g. used_bit b1 g = (if g \<in> set ?fs then False else used_bit b g)"
    by (rule for_frames_eq)
  from Cons.IH [OF b1(2)] b1 show ?case by (auto simp: set_free_fun)
qed

lemma mark_all_used_bit:
  "f < 64 * n \<Longrightarrow> used_bit (mark_all_used (bitmap_new n c)) f"
  by (simp add: used_bit_def mark_all_used_def bitmap_new_def less_mult_imp_div_less)

lemma take_one_frame:
  assumes "fb_ok b" and "frees b \<noteq> {}"
  obtains f b' where "find_free b = Some (Some f)" "f \<in> frees b" "\<forall>g \<in> frees b. f \<le> g"
    "set_used b f = Some b'" "fb_ok b'" "fb_frame_count b' = fb_frame_count b" "frees b' = frees b - {f}"
proof -
  let ?f = "LEAST g. g \<in> frees b"
  have f: "?f \<in> frees b" using assms(2) by (auto intro: LeastI)
  then have "?f < fb_frame_count b" by (simp add: frees_def)
  with assms(1) obtain b' where b': "fb_set b ?f True = Some b'" "fb_ok b'"
    "fb_frame_count b' = fb_frame_count b" "\<forall>g. used_bit b' g = (if g = ?f then True else used_bit b g)"
    by (rule fb_set_eq)
  then have "frees b' = frees b - {?f}" by (auto simp: frees_def)
  with f b' assms find_free_eq [OF assms(1)] show ?thesis
    by (intro that [of ?f b']) (auto simp: set_used_def intro: Least_le)
qed

lemma frame_allocator_new_ok:
  fixes mem :: "MemoryRegion list" and kernel_base :: u64
  defines "n \<equiv> 64 * min (unat (words_for_frames (align_up (max_phys mem) PAGE_SIZE div PAGE_SIZE))) MAX_BITMAP_WORDS"
  assumes "unat (frame_from_phys (kernel_base AND NOT (PAGE_SIZE - 1))) + 4096 \<le> n"
  shows "\<exists>fa. frame_allocator_new mem kernel_base = Some fa \<and> fa_total_frames fa = n \<and>
    frees (fa_bitmap fa) = {f. \<exists>r \<in> set mem. f \<in> set (region_frames n r)}"
proof -
  let ?w = "min (unat (words_for_frames (align_up (max_phys mem) PAGE_SIZE div PAGE_SIZE))) MAX_BITMAP_WORDS"
  let ?s = "frame_from_phys (kernel_base AND NOT (PAGE_SIZE - 1))"
  let ?b0 = "mark_all_used (bitmap_new ?w (?w * 64))"
  have c: "fb_frame_count ?b0 = n" "fb_ok ?b0" "\<forall>f < n. used_bit ?b0 f"
    by (auto simp: n_def fb_ok_def mark_all_used_bit) (simp_all add: mark_all_used_def bitmap_new_def)
  have "n < 2 ^ 64" by (simp add: n_def MAX_BITMAP_WORDS_def)
  then have "unat (?s + 4096) = unat ?s + 4096"
    using assms(2) unat_add_small [of ?s 4096] by simp
  then have "\<forall>f \<in> set [unat ?s..<unat (?s + 4096)]. f < fb_frame_count ?b0"
    using assms(2) c by auto
  with c(2) obtain b1 where b1: "for_frames (\<lambda>b f. fb_set b f True) [unat ?s..<unat (?s + 4096)] ?b0 = Some b1"
    "fb_ok b1" "fb_frame_count b1 = fb_frame_count ?b0"
    "\<forall>g. used_bit b1 g = (if g \<in> set [unat ?s..<unat (?s + 4096)] then True else used_bit ?b0 g)"
    by (rule for_frames_eq)
  have "\<forall>f < n. used_bit b1 f" using c b1 by simp
  moreover from release_regions_eq [OF b1(2), of mem] obtain b2 where
    "release_regions mem b1 = Some b2" "fb_frame_count b2 = fb_frame_count b1"
    "\<forall>g. used_bit b2 g \<longleftrightarrow> used_bit b1 g \<and> (\<forall>r \<in> set mem. g \<notin> set (region_frames (fb_frame_count b1) r))"
    by blast
  ultimately show ?thesis
    using b1 c(1) region_frames_less
    by (auto simp: frame_allocator_new_def Let_def reserve_kernel_def fb_reserve_def set_used_fun frees_def)
qed









text \<open>
  C4: while a frame is free, allocating one frame takes the least free frame out of the set of free frames and nothing
  else, and freeing it puts exactly that frame back.
\<close>

theorem alloc_one_free_refines:
  assumes "fb_ok (fa_bitmap fa)" and "frees (fa_bitmap fa) \<noteq> {}"
  shows "\<exists>d fa' fa''. alloc_one fa node = Some (Some d, fa') \<and> fd_order d = 0 \<and>
    fd_frame d \<in> frees (fa_bitmap fa) \<and> (\<forall>g \<in> frees (fa_bitmap fa). fd_frame d \<le> g) \<and>
    frees (fa_bitmap fa') = frees (fa_bitmap fa) - {fd_frame d} \<and> fb_ok (fa_bitmap fa') \<and>
    frame_free fa' d = Some fa'' \<and> frees (fa_bitmap fa'') = frees (fa_bitmap fa)"
proof -
  from assms obtain f b' where f: "find_free (fa_bitmap fa) = Some (Some f)" "f \<in> frees (fa_bitmap fa)"
    "\<forall>g \<in> frees (fa_bitmap fa). f \<le> g" "set_used (fa_bitmap fa) f = Some b'" "fb_ok b'"
    "fb_frame_count b' = fb_frame_count (fa_bitmap fa)" "frees b' = frees (fa_bitmap fa) - {f}"
    by (rule take_one_frame)
  have "f < fb_frame_count b'" using f(2,6) by (simp add: frees_def)
  with f(5) obtain b'' where b'': "fb_set b' f False = Some b''" "fb_frame_count b'' = fb_frame_count b'"
    "\<forall>g. used_bit b'' g = (if g = f then False else used_bit b' g)"
    by (rule fb_set_eq)
  then have "frees b'' = insert f (frees b')" using \<open>f < fb_frame_count b'\<close> by (auto simp: frees_def)
  then have "frees b'' = frees (fa_bitmap fa)" using f(2,7) by auto
  with f b'' show ?thesis
    by (auto simp: alloc_one_def frame_free_def set_free_def)
qed

theorem alloc_one_free_refines_witness:
  "fb_ok \<lparr>fb_bits = [0xF], fb_frame_count = 64\<rparr> \<and> frees \<lparr>fb_bits = [0xF], fb_frame_count = 64\<rparr> \<noteq> {} \<and>
   (\<exists>d fa'. alloc_one \<lparr>fa_bitmap = \<lparr>fb_bits = [0xF], fb_frame_count = 64\<rparr>, fa_buddy = buddy_new 1, fa_total_frames = 64\<rparr> 0 =
      Some (Some d, fa') \<and> fd_frame d \<in> frees \<lparr>fb_bits = [0xF], fb_frame_count = 64\<rparr>)"
proof -
  have "4 \<in> frees \<lparr>fb_bits = [0xF], fb_frame_count = 64\<rparr>" by (simp add: frees_def used_bit_def)
  then have "frees \<lparr>fb_bits = [0xF], fb_frame_count = 64\<rparr> \<noteq> {}" by blast
  moreover have "fb_ok \<lparr>fb_bits = [0xF], fb_frame_count = 64\<rparr>" by (simp add: fb_ok_def)
  ultimately show ?thesis
    using alloc_one_free_refines [of "\<lparr>fa_bitmap = \<lparr>fb_bits = [0xF], fb_frame_count = 64\<rparr>, fa_buddy = buddy_new 1, fa_total_frames = 64\<rparr>" 0]
    by fastforce
qed

subsection \<open>Orders above 0\<close>

lemma buddy_new_empty: "node < MAX_NODES \<Longrightarrow> order \<le> MAX_ORDER \<Longrightarrow> free_list_get (buddy_new n) node order = Some None"
  by (simp add: free_list_get_def buddy_new_def nth_replicate del: replicate_Suc replicate.simps)

lemma alloc_scan_empty:
  "\<forall>(node, search) \<in> set cs. node < MAX_NODES \<and> search \<le> MAX_ORDER \<Longrightarrow>
   alloc_scan (buddy_new n) b order cs = Some (None, buddy_new n, b)"
  by (induction cs) (auto simp: buddy_new_empty)

text \<open>
  C30: no block larger than one page can ever be allocated from the allocator that \<open>new\<close> builds,
  because the buddy lists are empty and nothing adds a region to them.
\<close>

theorem fresh_alloc_order_none:
  assumes "frame_allocator_new mem kernel_base = Some fa" and "0 < order"
  shows "alloc_order fa order node = Some (None, fa)"
proof -
  have b: "fa_buddy fa = buddy_new MAX_BUDDY_BLOCKS"
    using assms(1) by (auto simp: frame_allocator_new_def Let_def bind_eq_Some_conv)
  obtain k where k: "min order MAX_ORDER = Suc k" "Suc k \<le> MAX_ORDER"
    using assms(2) by (cases "min order MAX_ORDER") (auto simp: MAX_ORDER_def min_def split: if_splits)
  have "\<forall>(node, search) \<in> set (alloc_candidates (Suc k) (min node (MAX_NODES - 1))).
      node < MAX_NODES \<and> search \<le> MAX_ORDER"
    by (auto simp: alloc_candidates_def MAX_NODES_def)
  moreover have "min (Suc k) MAX_ORDER = Suc k" using k(2) by simp
  ultimately show ?thesis
    using b k(1) by (simp add: alloc_order_def Let_def buddy_alloc_def alloc_scan_empty)
qed

theorem fresh_alloc_order_none_witness:
  "\<exists>fa. frame_allocator_new [\<lparr>mr_start = 0, mr_length = 0x2000000, mr_kind = Usable\<rparr>] 0x100000 = Some fa \<and>
     alloc_order fa 1 0 = Some (None, fa)"
proof -
  let ?m = "[\<lparr>mr_start = 0, mr_length = 0x2000000, mr_kind = Usable\<rparr>]"
  have w: "words_for_frames (align_up (max_phys ?m) PAGE_SIZE div PAGE_SIZE) = 128"
    by (simp add: words_for_frames_def align_up_def max_phys_def PAGE_SIZE_def)
  have "unat (frame_from_phys (0x100000 AND NOT (PAGE_SIZE - 1))) + 4096 \<le>
      64 * min (unat (words_for_frames (align_up (max_phys ?m) PAGE_SIZE div PAGE_SIZE))) MAX_BITMAP_WORDS"
    unfolding w by (simp add: frame_from_phys_def PAGE_SIZE_def MAX_BITMAP_WORDS_def)
  from frame_allocator_new_ok [OF this] obtain fa where "frame_allocator_new ?m 0x100000 = Some fa" by blast
  with fresh_alloc_order_none [OF this, of 1 0] show ?thesis by auto
qed

end
