(* ===== verification/Paging.thy ===== *)
theory Paging
  imports Bytes Phys_Frame
begin

text \<open>
  Four-level page tables, \<^verbatim>\<open>src/kernel/src/mm/paging/x86_64.rs\<close>. The tables live in physical
  memory, which the kernel reads and writes through its direct map; the model keeps the physical
  memory as bytes and the frame allocator beside it, and a table entry is eight bytes read in
  little-endian order. The translation look-aside buffer is not part of the model.
\<close>

subsection \<open>Flags and addresses\<close>

definition PF_PRESENT :: u64 where "PF_PRESENT = 1"
definition PF_WRITABLE :: u64 where "PF_WRITABLE = 2"
definition PF_USER :: u64 where "PF_USER = 4"
definition PF_WRITE_THROUGH :: u64 where "PF_WRITE_THROUGH = 8"
definition PF_NO_CACHE :: u64 where "PF_NO_CACHE = 16"
definition PF_ACCESSED :: u64 where "PF_ACCESSED = 32"
definition PF_DIRTY :: u64 where "PF_DIRTY = 64"
definition PF_HUGE :: u64 where "PF_HUGE = 128"
definition PF_GLOBAL :: u64 where "PF_GLOBAL = 256"
definition PF_COW :: u64 where "PF_COW = 512"
definition PF_SOFTWARE_DEMAND :: u64 where "PF_SOFTWARE_DEMAND = 1024"
definition PF_SOFTWARE_FILE :: u64 where "PF_SOFTWARE_FILE = 2048"
definition PF_NO_EXECUTE :: u64 where "PF_NO_EXECUTE = 0x8000000000000000"

lemmas page_flag_defs = PF_PRESENT_def PF_WRITABLE_def PF_USER_def PF_WRITE_THROUGH_def
  PF_NO_CACHE_def PF_ACCESSED_def PF_DIRTY_def PF_HUGE_def PF_GLOBAL_def PF_COW_def
  PF_SOFTWARE_DEMAND_def PF_SOFTWARE_FILE_def PF_NO_EXECUTE_def

text \<open>All bits of \<open>PageFlags\<close>, which is what \<open>from_bits_truncate\<close> keeps, and the address field of
  an entry.\<close>

definition PAGE_FLAGS_ALL :: u64 where "PAGE_FLAGS_ALL = 0x8000000000000FFF"
definition PTE_ADDR :: u64 where "PTE_ADDR = 0x000FFFFFFFFFF000"

record PageIndices =
  pi_pml4 :: u64
  pi_pdpt :: u64
  pi_pd :: u64
  pi_pt :: u64

definition page_indices :: "u64 \<Rightarrow> PageIndices" where
  "page_indices addr = \<lparr>pi_pml4 = drop_bit 39 addr AND 0x1FF, pi_pdpt = drop_bit 30 addr AND 0x1FF,
     pi_pd = drop_bit 21 addr AND 0x1FF, pi_pt = drop_bit 12 addr AND 0x1FF\<rparr>"

fun pi_at :: "PageIndices \<Rightarrow> nat \<Rightarrow> nat" where
  "pi_at p 0 = unat (pi_pml4 p)"
| "pi_at p (Suc 0) = unat (pi_pdpt p)"
| "pi_at p (Suc (Suc 0)) = unat (pi_pd p)"
| "pi_at p _ = unat (pi_pt p)"

definition flags_from_prot :: "u32 \<Rightarrow> bool \<Rightarrow> u64" where
  "flags_from_prot prot user = (
     let flags = PF_PRESENT OR PF_ACCESSED;
         flags = (if contains prot PROT_WRITE then flags OR (PF_WRITABLE OR PF_DIRTY) else flags);
         flags = (if user \<or> contains prot PROT_USER then flags OR PF_USER else flags)
     in if \<not> contains prot PROT_EXEC then flags OR PF_NO_EXECUTE else flags AND NOT PF_NO_EXECUTE)"

definition kernel_data_flags :: u64 where
  "kernel_data_flags = PF_PRESENT OR PF_WRITABLE OR PF_NO_EXECUTE OR PF_ACCESSED"

subsection \<open>Physical memory and the walk\<close>

datatype MapError = AlreadyMapped | NotMapped | NoMemory

record Machine =
  mc_ram :: mem
  mc_frames :: "FrameAllocator option"

definition rd64 :: "mem \<Rightarrow> u64 \<Rightarrow> u64" where
  "rd64 m a = of_le (mem_read m a 8)"

definition wr64 :: "mem \<Rightarrow> u64 \<Rightarrow> u64 \<Rightarrow> mem" where
  "wr64 m a v = mem_write m a (le_bytes 8 v)"

definition zero_page :: "mem \<Rightarrow> u64 \<Rightarrow> mem" where
  "zero_page m a = mem_write m a (replicate 4096 0)"

definition local_node :: nat where "local_node = 0"

definition new_empty :: "Machine \<Rightarrow> (u64 option \<times> Machine) run" where
  "new_empty mc = do {
     (r, g) \<leftarrow> alloc_frame local_node (mc_frames mc);
     (case r of
        None \<Rightarrow> Some (None, mc\<lparr>mc_frames := g\<rparr>)
      | Some frame \<Rightarrow> Some (Some (fd_phys frame),
          mc\<lparr>mc_frames := g, mc_ram := zero_page (mc_ram mc) (fd_phys frame)\<rparr>)) }"

text \<open>The loop of \<open>walk_mut\<close> over the levels above the last, for an allocator \<open>alloc\<close> of the
  frames of the missing tables; the state is the memory and the allocator's.\<close>

fun walk_levels ::
  "('g \<Rightarrow> (FrameDescriptor option \<times> 'g) run) \<Rightarrow> bool \<Rightarrow> u64 \<Rightarrow> nat list \<Rightarrow> mem \<times> 'g \<Rightarrow>
   ((MapError, u64) result \<times> mem \<times> 'g) run" where
  "walk_levels alloc create table [] (m, g) = Some (Inr table, m, g)"
| "walk_levels alloc create table (i # is) (m, g) = (
     let entry = table + of_nat (8 * i); value = rd64 m entry in
     if value AND PF_PRESENT = 0 then
       if \<not> create then Some (Inl NotMapped, m, g)
       else do {
         (r, g) \<leftarrow> alloc g;
         (case r of
            None \<Rightarrow> Some (Inl NoMemory, m, g)
          | Some frame \<Rightarrow>
              let m = zero_page m (fd_phys frame);
                  m = wr64 m entry (fd_phys frame OR PF_PRESENT OR PF_WRITABLE OR PF_USER)
              in walk_levels alloc create (fd_phys frame) is (m, g)) }
     else walk_levels alloc create (value AND PTE_ADDR) is (m, g))"

definition walk_path :: "u64 \<Rightarrow> nat list" where
  "walk_path virt = map (pi_at (page_indices virt)) [0..<3]"

definition walk_mut :: "u64 \<Rightarrow> u64 \<Rightarrow> bool \<Rightarrow> Machine \<Rightarrow> ((MapError, u64) result \<times> Machine) run" where
  "walk_mut cr3 virt create mc = do {
     (r, m, g) \<leftarrow> walk_levels (alloc_frame local_node) create cr3 (walk_path virt) (mc_ram mc, mc_frames mc);
     Some (case r of Inl e \<Rightarrow> Inl e
           | Inr table \<Rightarrow> Inr (table + of_nat (8 * unat (pi_pt (page_indices virt)))),
           mc\<lparr>mc_ram := m, mc_frames := g\<rparr>) }"

definition map_page :: "u64 \<Rightarrow> u64 \<Rightarrow> u64 \<Rightarrow> u64 \<Rightarrow> Machine \<Rightarrow> ((MapError, unit) result \<times> Machine) run" where
  "map_page cr3 virt phys flags mc = do {
     (r, mc) \<leftarrow> walk_mut cr3 virt True mc;
     Some (case r of
        Inl e \<Rightarrow> (Inl e, mc)
      | Inr entry \<Rightarrow>
          if rd64 (mc_ram mc) entry AND PF_PRESENT \<noteq> 0 then (Inl AlreadyMapped, mc)
          else (Inr (), mc\<lparr>mc_ram := wr64 (mc_ram mc) entry (phys OR flags)\<rparr>)) }"

definition map_page_demand :: "u64 \<Rightarrow> u64 \<Rightarrow> u64 \<Rightarrow> Machine \<Rightarrow> ((MapError, unit) result \<times> Machine) run" where
  "map_page_demand cr3 virt flags mc = do {
     (r, mc) \<leftarrow> walk_mut cr3 virt True mc;
     Some (case r of
        Inl e \<Rightarrow> (Inl e, mc)
      | Inr entry \<Rightarrow>
          let demand = (flags OR PF_SOFTWARE_DEMAND) AND (PAGE_FLAGS_ALL AND NOT PF_PRESENT)
          in (Inr (), mc\<lparr>mc_ram := wr64 (mc_ram mc) entry demand\<rparr>)) }"

definition unmap_page :: "u64 \<Rightarrow> u64 \<Rightarrow> Machine \<Rightarrow> ((MapError, u64) result \<times> Machine) run" where
  "unmap_page cr3 virt mc = do {
     (r, mc) \<leftarrow> walk_mut cr3 virt False mc;
     Some (case r of
        Inl e \<Rightarrow> (Inl e, mc)
      | Inr entry \<Rightarrow>
          let value = rd64 (mc_ram mc) entry in
          if value AND PF_PRESENT = 0 then (Inl NotMapped, mc)
          else (Inr (value AND PTE_ADDR), mc\<lparr>mc_ram := wr64 (mc_ram mc) entry 0\<rparr>)) }"

definition get_flags :: "u64 \<Rightarrow> u64 \<Rightarrow> Machine \<Rightarrow> u64 option run" where
  "get_flags cr3 virt mc = do {
     (r, mc) \<leftarrow> walk_mut cr3 virt False mc;
     Some (case r of
        Inl e \<Rightarrow> None
      | Inr entry \<Rightarrow>
          let value = rd64 (mc_ram mc) entry in
          if value = 0 then None else Some (value AND PAGE_FLAGS_ALL)) }"

definition set_flags :: "u64 \<Rightarrow> u64 \<Rightarrow> u64 \<Rightarrow> Machine \<Rightarrow> ((MapError, unit) result \<times> Machine) run" where
  "set_flags cr3 virt flags mc = do {
     (r, mc) \<leftarrow> walk_mut cr3 virt False mc;
     Some (case r of
        Inl e \<Rightarrow> (Inl e, mc)
      | Inr entry \<Rightarrow>
          let value = rd64 (mc_ram mc) entry in
          if value = 0 then (Inl NotMapped, mc)
          else (Inr (), mc\<lparr>mc_ram := wr64 (mc_ram mc) entry (value AND PTE_ADDR OR flags)\<rparr>)) }"

definition resolve :: "u64 \<Rightarrow> u64 \<Rightarrow> Machine \<Rightarrow> (u64 \<times> u64) option run" where
  "resolve cr3 virt mc = do {
     (r, mc) \<leftarrow> walk_mut cr3 virt False mc;
     Some (case r of
        Inl e \<Rightarrow> None
      | Inr entry \<Rightarrow>
          let value = rd64 (mc_ram mc) entry in
          if value AND PF_PRESENT = 0 then None
          else Some (value AND PTE_ADDR, value AND PAGE_FLAGS_ALL)) }"

subsection \<open>Cells of pages\<close>

definition is_page :: "u64 \<Rightarrow> bool" where
  "is_page x \<longleftrightarrow> 4096 dvd unat x \<and> unat x < 2 ^ 52"

definition cell :: "mem \<Rightarrow> u64 \<Rightarrow> nat \<Rightarrow> u64" where
  "cell m x i = rd64 m (x + of_nat (8 * i))"

lemma cell_addr:
  assumes "is_page x" "i < 512"
  shows "unat (x + of_nat (8 * i)) = unat x + 8 * i"
proof -
  have u: "unat (of_nat (8 * i) :: u64) = 8 * i"
    using assms(2) by (simp only: unat_of_nat) simp
  have "unat x + unat (of_nat (8 * i) :: u64) < 2 ^ LENGTH(64)"
    unfolding u using assms by (simp add: is_page_def)
  from unat_add_small [OF this] show ?thesis unfolding u .
qed

lemma mem_read_write_far:
  assumes "unat a + n \<le> unat b \<or> unat b + length bs \<le> unat a"
    and "unat a + n \<le> 2 ^ 64" "unat b + length bs \<le> 2 ^ 64"
  shows "mem_read (mem_write m b bs) a n = mem_read m a n"
  using mem_read_write_other [OF assms, of m 0] by simp

lemma page_apart:
  assumes "is_page x" "is_page y" "x \<noteq> y"
  shows "unat x + 4096 \<le> unat y \<or> unat y + 4096 \<le> unat x"
proof -
  obtain a b where "unat x = 4096 * a" "unat y = 4096 * b"
    using assms by (auto simp: is_page_def dvd_def)
  moreover have "unat x \<noteq> unat y" using assms(3) by (metis unsigned_word_eqI)
  ultimately show ?thesis by (cases "a < b") auto
qed

lemma cell_write:
  assumes "is_page x" "is_page y" "i < 512" "j < 512"
  shows "cell (wr64 m x' v) y j = (if x' = x + of_nat (8 * i) then
    (if x = y \<and> i = j then v else cell m y j) else cell (wr64 m x' v) y j)"
proof (cases "x' = x + of_nat (8 * i)")
  case True
  note a = cell_addr [OF assms(1,3)] cell_addr [OF assms(2,4)]
  show ?thesis
  proof (cases "x = y \<and> i = j")
    case True
    have "mem_read (mem_write m x' (le_bytes 8 v)) x' 8 = le_bytes 8 v"
      using mem_read_write_same [of "le_bytes 8 v" m x'] by simp
    with True \<open>x' = _\<close> show ?thesis by (simp add: cell_def rd64_def wr64_def of_le_le_bytes)
  next
    case False
    then have "unat y + 8 * j + 8 \<le> unat x + 8 * i \<or> unat x + 8 * i + 8 \<le> unat y + 8 * j"
    proof (cases "x = y")
      case True
      with False show ?thesis by (cases "i < j") auto
    next
      case False
      then show ?thesis using page_apart [OF assms(1,2)] assms(3,4) by auto
    qed
    then have "mem_read (mem_write m (x + of_nat (8 * i)) (le_bytes 8 v)) (y + of_nat (8 * j)) 8 =
        mem_read m (y + of_nat (8 * j)) 8"
      using assms by (intro mem_read_write_far) (simp_all only: a length_le_bytes, auto simp: is_page_def)
    with False True show ?thesis by (auto simp: cell_def rd64_def wr64_def)
  qed
qed simp

lemma cell_wr:
  assumes "is_page x" "is_page y" "i < 512" "j < 512"
  shows "cell (wr64 m (x + of_nat (8 * i)) v) y j = (if x = y \<and> i = j then v else cell m y j)"
  using cell_write [OF assms, of m "x + of_nat (8 * i)" v] by simp

lemma of_le_zeros: "of_le (replicate n 0) = 0"
  by (induction n) simp_all

lemma cell_zero:
  assumes "is_page x" "is_page y" "j < 512"
  shows "cell (zero_page m x) y j = (if x = y then 0 else cell m y j)"
proof (cases "x = y")
  case True
  have "mem_read (zero_page m y) (y + of_nat (8 * j)) 8 = replicate 8 0"
  proof (rule nth_equalityI)
    fix i assume "i < length (mem_read (zero_page m y) (y + of_nat (8 * j)) 8)"
    then have i: "i < 8" by simp
    have "y + of_nat (8 * j) + of_nat i - y = (of_nat (8 * j + i) :: u64)" by simp
    moreover have "unat (of_nat (8 * j + i) :: u64) = 8 * j + i"
      using i assms(3) by (simp only: unat_of_nat) simp
    ultimately have "unat (y + of_nat (8 * j) + of_nat i - y) = 8 * j + i" by simp
    with i assms(3) show "mem_read (zero_page m y) (y + of_nat (8 * j)) 8 ! i = replicate 8 0 ! i"
      unfolding mem_read_def zero_page_def mem_write_def by (simp del: of_nat_mult of_nat_add replicate.simps)
  qed simp
  with True show ?thesis by (simp only: cell_def rd64_def of_le_zeros) simp
next
  case False
  have "unat y + 8 * j + 8 \<le> unat x \<or> unat x + 4096 \<le> unat y + 8 * j"
    using page_apart [OF assms(1,2) False] assms(3) by auto
  then have "mem_read (mem_write m x (replicate 4096 0)) (y + of_nat (8 * j)) 8 = mem_read m (y + of_nat (8 * j)) 8"
    using assms by (intro mem_read_write_far)
      (simp_all only: cell_addr length_replicate, auto simp: is_page_def)
  with False show ?thesis by (simp add: cell_def rd64_def zero_page_def)
qed

subsection \<open>Entries\<close>

lemma PTE_ADDR_mask: "PTE_ADDR = mask 52 AND NOT (mask 12)"
  by (simp add: PTE_ADDR_def mask_eq_exp_minus_1)

lemma bit_PTE_ADDR: "bit PTE_ADDR i \<longleftrightarrow> 12 \<le> i \<and> i < 52"
  by (auto simp: PTE_ADDR_mask bit_and_iff bit_not_iff bit_mask_iff)

lemma PAGE_FLAGS_ALL_mask: "PAGE_FLAGS_ALL = mask 12 OR 2 ^ 63"
  by (simp add: PAGE_FLAGS_ALL_def mask_eq_exp_minus_1)

lemma bit_PAGE_FLAGS_ALL: "bit PAGE_FLAGS_ALL i \<longleftrightarrow> i < 12 \<or> i = 63"
  by (simp only: PAGE_FLAGS_ALL_mask bit_or_iff bit_mask_iff bit_exp_iff) auto

lemma and_PTE_ADDR: "v AND PTE_ADDR = align_down (take_bit 52 v) (2 ^ 12)"
proof -
  have "v AND PTE_ADDR = push_bit 12 (drop_bit 12 (take_bit 52 v))"
    by (rule bit_word_eqI) (auto simp: bit_and_iff bit_PTE_ADDR bit_push_bit_iff bit_drop_bit_eq bit_take_bit_iff)
  then show ?thesis
    unfolding align_down_def
    by (simp add: not_mask_eq [of _ 12, unfolded mask_eq_exp_minus_1, simplified])
qed

lemma is_page_and: "is_page (v AND PTE_ADDR)"
proof -
  let ?w = "take_bit 52 v"
  have "v AND PTE_ADDR = align_down ?w (2 ^ 12)" by (rule and_PTE_ADDR)
  then have "unat (v AND PTE_ADDR) = unat ?w div 2 ^ 12 * 2 ^ 12"
    using unat_align_down [of 12 ?w] by simp
  moreover have "unat ?w < 2 ^ 52"
    using take_bit_nat_less_exp [of 52 "unat v"] by (simp only: unsigned_take_bit_eq)
  moreover have "unat ?w div 2 ^ 12 * 2 ^ 12 \<le> unat ?w" by (rule div_times_less_eq_dividend)
  ultimately show ?thesis unfolding is_page_def by simp
qed

lemma is_page_iff: "is_page x \<longleftrightarrow> x AND PTE_ADDR = x"
proof
  assume x: "is_page x"
  then obtain k where k: "unat x = 4096 * k" by (auto simp: is_page_def dvd_def)
  have "unat x mod 2 ^ 52 = unat x" using x by (simp add: is_page_def)
  then have "unat (take_bit 52 x) = unat x"
    by (simp only: unsigned_take_bit_eq) (simp only: take_bit_eq_mod)
  then have t: "take_bit 52 x = x" by (rule unsigned_word_eqI)
  have "unat (align_down x (2 ^ 12)) = unat x" using unat_align_down [of 12 x] k by simp
  then have a: "align_down x (2 ^ 12) = x" by (rule unsigned_word_eqI)
  have "x AND PTE_ADDR = align_down (take_bit 52 x) (2 ^ 12)" by (rule and_PTE_ADDR)
  then show "x AND PTE_ADDR = x" using t a by simp
next
  assume "x AND PTE_ADDR = x"
  then show "is_page x" using is_page_and [of x] by simp
qed

lemma and_absorb_bits: "a AND b = a \<longleftrightarrow> (\<forall>i. bit a i \<longrightarrow> bit b i)" for a b :: "'a::len word"
proof
  assume "a AND b = a"
  then show "\<forall>i. bit a i \<longrightarrow> bit b i" by (metis bit_and_iff)
next
  assume "\<forall>i. bit a i \<longrightarrow> bit b i"
  then show "a AND b = a" by (intro bit_word_eqI) (auto simp: bit_and_iff)
qed

lemma is_page_bits: "is_page x \<longleftrightarrow> (\<forall>i. bit x i \<longrightarrow> 12 \<le> i \<and> i < 52)"
  by (simp add: is_page_iff and_absorb_bits bit_PTE_ADDR)

text \<open>Flags that \<open>PageFlags\<close> can hold.\<close>

definition valid_flags :: "u64 \<Rightarrow> bool" where
  "valid_flags f \<longleftrightarrow> f AND PAGE_FLAGS_ALL = f"

lemma valid_flags_bits: "valid_flags f \<longleftrightarrow> (\<forall>i. bit f i \<longrightarrow> i < 12 \<or> i = 63)"
  by (simp add: valid_flags_def and_absorb_bits bit_PAGE_FLAGS_ALL)

lemma entry_fields:
  assumes "is_page x" "valid_flags f"
  shows "(x OR f) AND PTE_ADDR = x" "(x OR f) AND PAGE_FLAGS_ALL = f"
    "(x OR f) AND PF_PRESENT = f AND PF_PRESENT"
proof -
  have x: "bit x i \<Longrightarrow> 12 \<le> i \<and> i < 52" and f: "bit f i \<Longrightarrow> i < 12 \<or> i = 63" for i
    using assms by (auto simp: is_page_bits valid_flags_bits)
  show "(x OR f) AND PTE_ADDR = x"
    by (rule bit_word_eqI) (use x f in \<open>fastforce simp: bit_and_iff bit_or_iff bit_PTE_ADDR\<close>)
  show "(x OR f) AND PAGE_FLAGS_ALL = f"
    by (rule bit_word_eqI) (use x f in \<open>fastforce simp: bit_and_iff bit_or_iff bit_PAGE_FLAGS_ALL\<close>)
  show "(x OR f) AND PF_PRESENT = f AND PF_PRESENT"
    by (rule bit_word_eqI) (use x f in \<open>fastforce simp: PF_PRESENT_def bit_and_iff bit_or_iff bit_1_iff\<close>)
qed

lemma valid_table_flags: "valid_flags (PF_PRESENT OR PF_WRITABLE OR PF_USER)"
  by (simp add: valid_flags_def page_flag_defs PAGE_FLAGS_ALL_def)

lemma table_entry:
  assumes "is_page x"
  shows "(x OR PF_PRESENT OR PF_WRITABLE OR PF_USER) AND PF_PRESENT \<noteq> 0"
    "(x OR PF_PRESENT OR PF_WRITABLE OR PF_USER) AND PTE_ADDR = x"
  using entry_fields [OF assms valid_table_flags]
  by (simp_all add: or.assoc) (simp add: page_flag_defs)

end
