(* ===== verification/Paging_Walk.thy ===== *)
theory Paging_Walk
  imports Paging
begin

text \<open>
  What the page-table operations of \<^verbatim>\<open>src/kernel/src/mm/paging/x86_64.rs\<close> do to the translation. The
  tables form a tree of distinct pages in physical memory (\<open>pt_tree\<close>), and the translation is
  the last-level entry of every path (\<open>leaf\<close>). The interface to the frame allocator is the
  locale \<open>frame_source\<close>: an allocation returns a page that was available and makes it
  unavailable; it is interpreted by the kernel's allocator. A walk that creates the missing
  tables changes no entry of the translation, so that mapping a page changes exactly one.
\<close>

subsection \<open>The tree of tables and the translation it represents\<close>

definition PT_ENTRIES :: nat where "PT_ENTRIES = 512"

lemma cell_wr_entry:
  "is_page x \<Longrightarrow> is_page y \<Longrightarrow> i < PT_ENTRIES \<Longrightarrow> j < PT_ENTRIES \<Longrightarrow>
   cell (wr64 m (x + of_nat (8 * i)) v) y j = (if x = y \<and> i = j then v else cell m y j)"
  unfolding PT_ENTRIES_def by (rule cell_wr)

lemma cell_zero_entry:
  "is_page x \<Longrightarrow> is_page y \<Longrightarrow> j < PT_ENTRIES \<Longrightarrow>
   cell (zero_page m x) y j = (if x = y then 0 else cell m y j)"
  unfolding PT_ENTRIES_def by (rule cell_zero)

fun pt_tree :: "mem \<Rightarrow> nat \<Rightarrow> u64 \<Rightarrow> u64 set \<Rightarrow> bool" where
  "pt_tree m 0 a S \<longleftrightarrow> is_page a \<and> S = {a}"
| "pt_tree m (Suc n) a S \<longleftrightarrow> is_page a \<and>
     (\<exists>T. S = insert a (\<Union>i<PT_ENTRIES. T i) \<and>
        (\<forall>i<PT_ENTRIES. a \<notin> T i \<and>
           (if cell m a i AND PF_PRESENT = 0 then T i = {}
            else pt_tree m n (cell m a i AND PTE_ADDR) (T i))) \<and>
        (\<forall>i<PT_ENTRIES. \<forall>j<PT_ENTRIES. i \<noteq> j \<longrightarrow> T i \<inter> T j = {}))"

fun find_table :: "mem \<Rightarrow> u64 \<Rightarrow> nat list \<Rightarrow> u64 option" where
  "find_table m a [] = Some a"
| "find_table m a (i # is) =
     (if cell m a i AND PF_PRESENT = 0 then None else find_table m (cell m a i AND PTE_ADDR) is)"

text \<open>The last-level entry of a path, 0 where a table is missing.\<close>

definition leaf :: "mem \<Rightarrow> u64 \<Rightarrow> nat list \<Rightarrow> nat \<Rightarrow> u64" where
  "leaf m a is k = (case find_table m a is of None \<Rightarrow> 0 | Some t \<Rightarrow> cell m t k)"

definition agree :: "mem \<Rightarrow> mem \<Rightarrow> u64 set \<Rightarrow> bool" where
  "agree m m' S \<longleftrightarrow> (\<forall>x \<in> S. \<forall>i<PT_ENTRIES. cell m' x i = cell m x i)"

abbreviation indices :: "nat list \<Rightarrow> bool" where
  "indices is \<equiv> \<forall>i \<in> set is. i < PT_ENTRIES"

lemma leaf_simps:
  "leaf m a [] k = cell m a k"
  "leaf m a (i # is) k =
     (if cell m a i AND PF_PRESENT = 0 then 0 else leaf m (cell m a i AND PTE_ADDR) is k)"
  by (simp_all add: leaf_def)

lemma pt_tree_root: "pt_tree m n a S \<Longrightarrow> is_page a \<and> a \<in> S"
  by (cases n) auto

lemma pt_tree_pages: "pt_tree m n a S \<Longrightarrow> x \<in> S \<Longrightarrow> is_page x"
proof (induction n arbitrary: a S)
  case 0
  then show ?case by simp
next
  case (Suc n)
  then obtain T where "S = insert a (\<Union>i<PT_ENTRIES. T i)" "is_page a"
    and T: "\<forall>i<PT_ENTRIES. a \<notin> T i \<and> (if cell m a i AND PF_PRESENT = 0 then T i = {}
            else pt_tree m n (cell m a i AND PTE_ADDR) (T i))"
    by auto
  with Suc.prems(2) consider "x = a" | i where "i < PT_ENTRIES" "x \<in> T i" by auto
  then show ?case
  proof cases
    case 2
    with T have "pt_tree m n (cell m a i AND PTE_ADDR) (T i)" by (metis empty_iff)
    then show ?thesis using 2(2) by (rule Suc.IH)
  qed (use \<open>is_page a\<close> in simp)
qed

lemma agree_subset: "agree m m' S \<Longrightarrow> T \<subseteq> S \<Longrightarrow> agree m m' T"
  by (auto simp: agree_def)

lemma pt_tree_frame: "pt_tree m n a S \<Longrightarrow> agree m m' S \<Longrightarrow> pt_tree m' n a S"
proof (induction n arbitrary: a S)
  case 0
  then show ?case by simp
next
  case (Suc n)
  then obtain T where S: "S = insert a (\<Union>i<PT_ENTRIES. T i)" "is_page a"
    and T: "\<And>i. i < PT_ENTRIES \<Longrightarrow> a \<notin> T i \<and> (if cell m a i AND PF_PRESENT = 0 then T i = {}
            else pt_tree m n (cell m a i AND PTE_ADDR) (T i))"
    and dis: "\<forall>i<PT_ENTRIES. \<forall>j<PT_ENTRIES. i \<noteq> j \<longrightarrow> T i \<inter> T j = {}"
    by auto
  have ca: "cell m' a i = cell m a i" if "i < PT_ENTRIES" for i
    using Suc.prems(2) S that by (simp add: agree_def)
  have "a \<notin> T i \<and> (if cell m' a i AND PF_PRESENT = 0 then T i = {}
            else pt_tree m' n (cell m' a i AND PTE_ADDR) (T i))" if i: "i < PT_ENTRIES" for i
  proof -
    have "agree m m' (T i)" using agree_subset [OF Suc.prems(2)] S i by blast
    then show ?thesis using T [OF i] Suc.IH by (simp add: ca [OF i])
  qed
  with S dis show ?case by auto
qed

lemma leaf_frame:
  "pt_tree m n a S \<Longrightarrow> agree m m' S \<Longrightarrow> length is = n \<Longrightarrow> indices is \<Longrightarrow> k < PT_ENTRIES \<Longrightarrow>
   leaf m' a is k = leaf m a is k"
proof (induction "is" arbitrary: n a S)
  case Nil
  then show ?case by (auto simp: leaf_simps agree_def)
next
  case (Cons i "is")
  then obtain n' where n: "n = Suc n'" by (cases n) auto
  then obtain T where S: "S = insert a (\<Union>i<PT_ENTRIES. T i)"
    and T: "\<forall>i<PT_ENTRIES. a \<notin> T i \<and> (if cell m a i AND PF_PRESENT = 0 then T i = {}
            else pt_tree m n' (cell m a i AND PTE_ADDR) (T i))"
    using Cons.prems(1) by auto
  have i: "i < PT_ENTRIES" using Cons.prems(4) by simp
  then have ca: "cell m' a i = cell m a i" using Cons.prems(2) S by (simp add: agree_def)
  have "agree m m' (T i)" using agree_subset [OF Cons.prems(2)] S i by blast
  then show ?case
    using T i Cons.IH [of n' "cell m a i AND PTE_ADDR" "T i"] Cons.prems n
    by (auto simp: leaf_simps ca)
qed

lemma pt_tree_zero:
  "is_page p \<Longrightarrow> \<forall>i<PT_ENTRIES. cell m p i = 0 \<Longrightarrow> pt_tree m n p {p}"
  by (cases n) (auto intro!: exI [of _ "\<lambda>_. {}"])

lemma leaf_zero:
  "\<forall>i<PT_ENTRIES. cell m p i = 0 \<Longrightarrow> indices is \<Longrightarrow> k < PT_ENTRIES \<Longrightarrow> leaf m p is k = 0"
  by (cases "is") (simp_all add: leaf_simps)

lemma find_table_in:
  "pt_tree m n a S \<Longrightarrow> length is = n \<Longrightarrow> indices is \<Longrightarrow> find_table m a is = Some t \<Longrightarrow> t \<in> S"
proof (induction "is" arbitrary: n a S)
  case Nil
  then show ?case using pt_tree_root by auto
next
  case (Cons i "is")
  then obtain n' where n: "n = Suc n'" by (cases n) auto
  obtain T where S: "S = insert a (\<Union>i<PT_ENTRIES. T i)" and "i < PT_ENTRIES"
    and T: "\<forall>i<PT_ENTRIES. a \<notin> T i \<and> (if cell m a i AND PF_PRESENT = 0 then T i = {}
            else pt_tree m n' (cell m a i AND PTE_ADDR) (T i))"
    using Cons.prems(1,3) n by auto
  with Cons.IH [of n' "cell m a i AND PTE_ADDR" "T i"] Cons.prems n show ?case
    by (auto split: if_splits)
qed

text \<open>Two different paths never lead to the same table.\<close>

lemma find_table_inj:
  "pt_tree m n a S \<Longrightarrow> length is = n \<Longrightarrow> length js = n \<Longrightarrow> indices is \<Longrightarrow> indices js \<Longrightarrow>
   find_table m a is = Some t \<Longrightarrow> find_table m a js = Some t \<Longrightarrow> is = js"
proof (induction "is" arbitrary: n a S js)
  case Nil
  then show ?case by simp
next
  case (Cons i "is")
  then obtain n' j js' where n: "n = Suc n'" and js: "js = j # js'"
    by (metis length_Cons length_Suc_conv)
  have ij: "i < PT_ENTRIES" "j < PT_ENTRIES" using Cons.prems(4,5) js by simp_all
  obtain T where
    T: "\<And>i. i < PT_ENTRIES \<Longrightarrow> a \<notin> T i \<and> (if cell m a i AND PF_PRESENT = 0 then T i = {}
            else pt_tree m n' (cell m a i AND PTE_ADDR) (T i))"
    and dis: "\<forall>i<PT_ENTRIES. \<forall>j<PT_ENTRIES. i \<noteq> j \<longrightarrow> T i \<inter> T j = {}"
    using Cons.prems(1) n by auto
  have fi: "pt_tree m n' (cell m a i AND PTE_ADDR) (T i)" "find_table m (cell m a i AND PTE_ADDR) is = Some t"
    using T [OF ij(1)] Cons.prems(6) by (simp_all split: if_splits)
  have fj: "pt_tree m n' (cell m a j AND PTE_ADDR) (T j)" "find_table m (cell m a j AND PTE_ADDR) js' = Some t"
    using T [OF ij(2)] Cons.prems(7) js by (simp_all split: if_splits)
  have "t \<in> T i" "t \<in> T j"
    using find_table_in [OF fi(1) _ _ fi(2)] find_table_in [OF fj(1) _ _ fj(2)] Cons.prems(2-5) n js
    by simp_all
  then have eq: "i = j" using dis ij by blast
  have "is = js'"
    by (rule Cons.IH [OF fi(1)]) (use Cons.prems(2-5) n js fi fj eq in simp_all)
  with eq js show ?case by simp
qed

text \<open>Writing an entry of a last-level table changes that entry of the translation only.\<close>

lemma leaf_write:
  fixes v :: u64
  assumes "pt_tree m n a S" "length is = n" "indices is" "find_table m a is = Some t" "k < PT_ENTRIES"
  defines "m' \<equiv> wr64 m (t + of_nat (8 * k)) v"
  shows "pt_tree m' n a S \<and> (\<forall>js j. length js = n \<longrightarrow> indices js \<longrightarrow> j < PT_ENTRIES \<longrightarrow>
    leaf m' a js j = (if js = is \<and> j = k then v else leaf m a js j))"
  using assms(1-4)
proof (induction "is" arbitrary: n a S)
  case Nil
  then have "is_page t" "a = t" "n = 0" by simp_all
  with Nil assms(5) show ?case
    by (auto simp: leaf_simps m'_def cell_wr_entry simp del: of_nat_mult)
next
  case (Cons i "is")
  then obtain n' where n: "n = Suc n'" "length is = n'" by (cases n) auto
  have i: "i < PT_ENTRIES" "indices is" using Cons.prems(3) by simp_all
  obtain T where ST: "S = insert a (\<Union>i<PT_ENTRIES. T i)" "is_page a"
    and T: "\<And>j. j < PT_ENTRIES \<Longrightarrow> a \<notin> T j \<and> (if cell m a j AND PF_PRESENT = 0 then T j = {}
            else pt_tree m n' (cell m a j AND PTE_ADDR) (T j))"
    and dis: "\<And>j k. j < PT_ENTRIES \<Longrightarrow> k < PT_ENTRIES \<Longrightarrow> j \<noteq> k \<Longrightarrow> T j \<inter> T k = {}"
    using Cons.prems(1) n by auto
  have c: "cell m a i AND PF_PRESENT \<noteq> 0" "find_table m (cell m a i AND PTE_ADDR) is = Some t"
    using Cons.prems(4) by (simp_all split: if_splits)
  have Ti: "pt_tree m n' (cell m a i AND PTE_ADDR) (T i)" using T [OF i(1)] c by simp
  have t: "t \<in> T i" using find_table_in [OF Ti n(2) i(2) c(2)] .
  have tp: "is_page t" using pt_tree_pages [OF Ti t] .
  have other: "agree m m' {x}" if "is_page x" "x \<noteq> t" for x
    using that tp assms(5) by (simp add: agree_def m'_def cell_wr_entry del: of_nat_mult)
  have "t \<noteq> a" using t T [OF i(1)] by auto
  then have ca: "cell m' a j = cell m a j" if "j < PT_ENTRIES" for j
    using other [of a] ST that by (auto simp: agree_def)
  have tj: "agree m m' (T j)" if "j < PT_ENTRIES" "j \<noteq> i" for j
    unfolding agree_def
  proof
    fix x assume x: "x \<in> T j"
    then have "x \<in> S" using ST that by auto
    then have "is_page x" by (rule pt_tree_pages [OF Cons.prems(1)])
    moreover have "x \<noteq> t" using x t dis [OF that(1) i(1) that(2)] by auto
    ultimately show "\<forall>i<PT_ENTRIES. cell m' x i = cell m x i" using other by (simp add: agree_def)
  qed
  note IH = Cons.IH [OF Ti n(2) i(2) c(2)]
  have "if cell m' a j AND PF_PRESENT = 0 then T j = {} else pt_tree m' n' (cell m' a j AND PTE_ADDR) (T j)"
    if j: "j < PT_ENTRIES" for j
    using T [OF j] IH pt_tree_frame tj [OF j] ca [OF j] by (cases "j = i") auto
  then have "pt_tree m' n a S"
    unfolding n(1) pt_tree.simps using ST T dis by (intro conjI exI [of _ T]) simp_all
  moreover have "leaf m' a js j = (if js = i # is \<and> j = k then v else leaf m a js j)"
    if js: "length js = n" "indices js" "j < PT_ENTRIES" for js j
  proof -
    obtain l js' where l: "js = l # js'" "l < PT_ENTRIES" using js n by (cases js) auto
    show ?thesis
    proof (cases "l = i")
      case True
      then show ?thesis using IH c js l n ca [OF i(1)] by (auto simp: leaf_simps)
    next
      case False
      then show ?thesis
        using leaf_frame [OF _ tj [OF l(2) False], of n' "cell m a l AND PTE_ADDR" js' j] T [OF l(2)] js l n ca [OF l(2)]
        by (auto simp: leaf_simps)
    qed
  qed
  ultimately show ?case by blast
qed

lemma walk_find:
  "walk_levels alloc False a is (m, g) =
     Some (case find_table m a is of None \<Rightarrow> Inl NotMapped | Some t \<Rightarrow> Inr t, m, g)"
  by (induction "is" arbitrary: a) (simp_all add: Let_def cell_def)

text \<open>A walk that finds every table creates none.\<close>

lemma walk_found:
  "find_table m a is = Some t \<Longrightarrow> walk_levels alloc create a is (m, g) = Some (Inr t, m, g)"
  by (induction "is" arbitrary: a) (auto simp: Let_def cell_def split: if_splits)

subsection \<open>The interface of the frame allocator\<close>

locale frame_source =
  fixes alloc :: "'g \<Rightarrow> (FrameDescriptor option \<times> 'g) run"
    and ready :: "'g \<Rightarrow> bool"
    and avail :: "'g \<Rightarrow> u64 set"
  assumes alloc_returns: "ready g \<Longrightarrow> \<exists>r g'. alloc g = Some (r, g')"
    and alloc_ready: "ready g \<Longrightarrow> alloc g = Some (r, g') \<Longrightarrow> ready g'"
    and alloc_frame_avail: "ready g \<Longrightarrow> alloc g = Some (Some d, g') \<Longrightarrow> fd_phys d \<in> avail g"
    and alloc_takes: "ready g \<Longrightarrow> alloc g = Some (Some d, g') \<Longrightarrow> avail g' = avail g - {fd_phys d}"
    and alloc_none: "ready g \<Longrightarrow> alloc g = Some (None, g') \<Longrightarrow> avail g' = avail g"
    and alloc_none_empty: "ready g \<Longrightarrow> alloc g = Some (None, g') \<Longrightarrow> avail g = {}"
    and avail_finite: "ready g \<Longrightarrow> finite (avail g)"
    and avail_page: "ready g \<Longrightarrow> x \<in> avail g \<Longrightarrow> is_page x"
begin

text \<open>What a walk that creates tables guarantees: the tables still form a tree, which grew only
  by available frames; nothing outside the tree changed; and no translation changed.\<close>

definition walk_ok :: "nat \<Rightarrow> u64 \<Rightarrow> u64 set \<Rightarrow> nat list \<Rightarrow> mem \<Rightarrow> 'g \<Rightarrow> bool" where
  "walk_ok n a S is m g \<longleftrightarrow> (\<exists>r m' g' S'. walk_levels alloc True a is (m, g) = Some (r, m', g') \<and>
     ready g' \<and> avail g' \<subseteq> avail g \<and> pt_tree m' n a S' \<and> S \<subseteq> S' \<and> S' \<subseteq> S \<union> avail g \<and>
     S' \<inter> avail g' = {} \<and>
     (\<forall>x. is_page x \<longrightarrow> x \<notin> S' \<longrightarrow> agree m m' {x}) \<and>
     (\<forall>js k. length js = n \<longrightarrow> indices js \<longrightarrow> k < PT_ENTRIES \<longrightarrow> leaf m' a js k = leaf m a js k) \<and>
     (case r of Inl e \<Rightarrow> e = NoMemory | Inr t \<Rightarrow> find_table m' a is = Some t))"

lemma walk_present:
  assumes tree: "pt_tree m (Suc n) a S" and S: "S \<inter> avail g = {}" and i: "i < PT_ENTRIES"
    and present: "cell m a i AND PF_PRESENT \<noteq> 0"
    and sub: "\<And>T. pt_tree m n (cell m a i AND PTE_ADDR) T \<Longrightarrow> T \<inter> avail g = {} \<Longrightarrow>
      walk_ok n (cell m a i AND PTE_ADDR) T is m g"
  shows "walk_ok (Suc n) a S (i # is) m g"
proof -
  let ?c = "cell m a i AND PTE_ADDR"
  obtain T where ST: "S = insert a (\<Union>i<PT_ENTRIES. T i)" "is_page a"
    and T: "\<And>j. j < PT_ENTRIES \<Longrightarrow> a \<notin> T j \<and> (if cell m a j AND PF_PRESENT = 0 then T j = {}
            else pt_tree m n (cell m a j AND PTE_ADDR) (T j))"
    and dis: "\<And>j k. j < PT_ENTRIES \<Longrightarrow> k < PT_ENTRIES \<Longrightarrow> j \<noteq> k \<Longrightarrow> T j \<inter> T k = {}"
    using tree by auto
  have sub': "pt_tree m n ?c (T i)" "T i \<inter> avail g = {}"
    using T [OF i] present S ST i by auto
  from sub [OF this] obtain r m' g' Ti where
    w: "walk_levels alloc True ?c is (m, g) = Some (r, m', g')" "ready g'" "avail g' \<subseteq> avail g"
    and Ti: "pt_tree m' n ?c Ti" "T i \<subseteq> Ti" "Ti \<subseteq> T i \<union> avail g" "Ti \<inter> avail g' = {}"
    and out: "\<And>x. is_page x \<Longrightarrow> x \<notin> Ti \<Longrightarrow> agree m m' {x}"
    and lf: "\<And>js k. length js = n \<Longrightarrow> indices js \<Longrightarrow> k < PT_ENTRIES \<Longrightarrow> leaf m' ?c js k = leaf m ?c js k"
    and res: "case r of Inl e \<Rightarrow> e = NoMemory | Inr t \<Rightarrow> find_table m' ?c is = Some t"
    unfolding walk_ok_def by metis
  have a: "a \<notin> Ti" using Ti(3) T [OF i] S ST by auto
  have ca: "cell m' a j = cell m a j" if "j < PT_ENTRIES" for j
    using out [OF ST(2) a] that by (simp add: agree_def)
  have sib: "T j \<inter> Ti = {}" if "j < PT_ENTRIES" "j \<noteq> i" for j
    using Ti(3) dis [OF that(1) i that(2)] S ST that(1) by blast
  have tj: "agree m m' (T j)" if "j < PT_ENTRIES" "j \<noteq> i" for j
    unfolding agree_def
  proof
    fix x assume x: "x \<in> T j"
    then have "x \<in> S" using ST that by auto
    then have "is_page x" by (rule pt_tree_pages [OF tree])
    moreover have "x \<notin> Ti" using sib [OF that] x by auto
    ultimately show "\<forall>i<PT_ENTRIES. cell m' x i = cell m x i" using out by (simp add: agree_def)
  qed
  let ?T = "T(i := Ti)"
  let ?S = "insert a (\<Union>j<PT_ENTRIES. ?T j)"
  have "pt_tree m' (Suc n) a ?S"
    unfolding pt_tree.simps
  proof (intro conjI exI [of _ ?T] allI impI)
    fix j k :: nat assume "j < PT_ENTRIES" "k < PT_ENTRIES" "j \<noteq> k"
    then show "?T j \<inter> ?T k = {}" using dis sib by (cases "j = i"; cases "k = i") auto
  next
    fix j :: nat assume j: "j < PT_ENTRIES"
    show "a \<notin> ?T j" using T [OF j] a by simp
    show "if cell m' a j AND PF_PRESENT = 0 then ?T j = {} else pt_tree m' n (cell m' a j AND PTE_ADDR) (?T j)"
    proof (cases "j = i")
      case True
      then show ?thesis using Ti(1) present ca [OF i] by simp
    next
      case False
      then show ?thesis using T [OF j] pt_tree_frame tj [OF j] ca [OF j] by auto
    qed
  qed (use ST in auto)
  moreover have "S \<subseteq> ?S" "?S \<subseteq> S \<union> avail g" using ST Ti(2,3) i by (auto split: if_splits)
  moreover have "?S \<inter> avail g' = {}"
    using w(3) S ST Ti(4) by (auto split: if_splits)
  moreover have "agree m m' {x}" if "is_page x" "x \<notin> ?S" for x
    using that i by (intro out) (auto split: if_splits)
  moreover have "leaf m' a js k = leaf m a js k" if js: "length js = Suc n" "indices js" "k < PT_ENTRIES" for js k
  proof -
    obtain j js' where j: "js = j # js'" "j < PT_ENTRIES" using js by (cases js) auto
    show ?thesis
    proof (cases "j = i")
      case True
      then show ?thesis using lf [of js' k] js j ca [OF i] by (simp add: leaf_simps)
    next
      case False
      then show ?thesis
        using leaf_frame [OF _ tj [OF j(2) False], of n "cell m a j AND PTE_ADDR" js' k] T [OF j(2)] js j ca [OF j(2)]
        by (auto simp: leaf_simps)
    qed
  qed
  moreover have "case r of Inl e \<Rightarrow> e = NoMemory | Inr t \<Rightarrow> find_table m' a (i # is) = Some t"
    using res present ca [OF i] by (simp split: sum.splits)
  moreover have "walk_levels alloc True a (i # is) (m, g) = Some (r, m', g')"
    using w(1) present by (simp add: Let_def cell_def)
  ultimately show ?thesis unfolding walk_ok_def using w(2,3) by blast
qed

lemma walk_absent:
  assumes tree: "pt_tree m (Suc n) a S" and S: "S \<inter> avail g = {}" and i: "i < PT_ENTRIES"
    and g: "ready g" and absent: "cell m a i AND PF_PRESENT = 0"
    and d: "alloc g = Some (Some d, g')"
  shows "\<exists>m'. pt_tree m' (Suc n) a (insert (fd_phys d) S) \<and>
     cell m' a i AND PF_PRESENT \<noteq> 0 \<and> cell m' a i AND PTE_ADDR = fd_phys d \<and>
     (\<forall>is. walk_levels alloc True a (i # is) (m, g) = walk_levels alloc True a (i # is) (m', g')) \<and>
     (\<forall>x. is_page x \<longrightarrow> x \<notin> insert (fd_phys d) S \<longrightarrow> agree m m' {x}) \<and>
     (\<forall>js k. length js = Suc n \<longrightarrow> indices js \<longrightarrow> k < PT_ENTRIES \<longrightarrow> leaf m' a js k = leaf m a js k)"
proof -
  let ?p = "fd_phys d"
  let ?m = "wr64 (zero_page m ?p) (a + of_nat (8 * i)) (?p OR PF_PRESENT OR PF_WRITABLE OR PF_USER)"
  have p: "is_page ?p" "?p \<notin> S"
    using alloc_frame_avail [OF g d] avail_page [OF g] S by auto
  obtain T where ST: "S = insert a (\<Union>i<PT_ENTRIES. T i)" "is_page a"
    and T: "\<And>j. j < PT_ENTRIES \<Longrightarrow> a \<notin> T j \<and> (if cell m a j AND PF_PRESENT = 0 then T j = {}
            else pt_tree m n (cell m a j AND PTE_ADDR) (T j))"
    and dis: "\<And>j k. j < PT_ENTRIES \<Longrightarrow> k < PT_ENTRIES \<Longrightarrow> j \<noteq> k \<Longrightarrow> T j \<inter> T k = {}"
    using tree by auto
  have pa: "?p \<noteq> a" using p ST by auto
  have cells: "cell ?m x j = (if x = a \<and> j = i then ?p OR PF_PRESENT OR PF_WRITABLE OR PF_USER
      else if x = ?p then 0 else cell m x j)" if "is_page x" "j < PT_ENTRIES" for x j
    using that p(1) ST(2) i pa by (auto simp: cell_wr_entry cell_zero_entry simp del: of_nat_mult)
  note entry = table_entry [OF p(1)]
  have ai: "cell ?m a i AND PF_PRESENT \<noteq> 0" "cell ?m a i AND PTE_ADDR = ?p"
    using cells [OF ST(2) i] entry by simp_all
  have out: "agree m ?m {x}" if "is_page x" "x \<noteq> ?p" "x \<noteq> a" for x
    using cells [OF that(1)] that by (simp add: agree_def)
  have tj: "agree m ?m (T j)" if "j < PT_ENTRIES" for j
    unfolding agree_def
  proof
    fix x assume x: "x \<in> T j"
    then have "x \<in> S" using ST that by auto
    moreover from this have "is_page x" by (rule pt_tree_pages [OF tree])
    moreover have "x \<noteq> a" using x T [OF that] by auto
    ultimately show "\<forall>i<PT_ENTRIES. cell ?m x i = cell m x i"
      using out [of x] p(2) by (auto simp: agree_def)
  qed
  have zero: "\<forall>j<PT_ENTRIES. cell ?m ?p j = 0" using cells [OF p(1)] pa by simp
  have "pt_tree ?m (Suc n) a (insert ?p S)"
    unfolding pt_tree.simps
  proof (intro conjI exI [of _ "T(i := {?p})"] allI impI)
    have "T i = {}" using T [OF i] absent by simp
    then show "insert ?p S = insert a (\<Union>j<PT_ENTRIES. (T(i := {?p})) j)"
      using ST i by (auto split: if_splits)
    fix j k assume "j < PT_ENTRIES" "k < PT_ENTRIES" "j \<noteq> k"
    moreover have "?p \<notin> T l" if "l < PT_ENTRIES" for l using p(2) ST that by auto
    ultimately show "(T(i := {?p})) j \<inter> (T(i := {?p})) k = {}" using dis by auto
  next
    fix j assume j: "j < PT_ENTRIES"
    show "a \<notin> (T(i := {?p})) j" using T [OF j] pa by simp
    show "if cell ?m a j AND PF_PRESENT = 0 then (T(i := {?p})) j = {}
          else pt_tree ?m n (cell ?m a j AND PTE_ADDR) ((T(i := {?p})) j)"
    proof (cases "j = i")
      case True
      then show ?thesis using ai pt_tree_zero [OF p(1) zero] by simp
    next
      case False
      then have "cell ?m a j = cell m a j" using cells [OF ST(2) j] pa by auto
      then show ?thesis using False T [OF j] pt_tree_frame tj [OF j] by auto
    qed
  qed (rule ST)
  moreover have "leaf ?m a js k = leaf m a js k" if js: "length js = Suc n" "indices js" "k < PT_ENTRIES" for js k
  proof -
    obtain j js' where j: "js = j # js'" "j < PT_ENTRIES" using js by (cases js) auto
    show ?thesis
    proof (cases "j = i")
      case True
      then show ?thesis using ai absent leaf_zero [OF zero, of js' k] js j by (simp add: leaf_simps)
    next
      case False
      then have "cell ?m a j = cell m a j" using cells [OF ST(2) j(2)] pa by auto
      then show ?thesis
        using leaf_frame [OF _ tj [OF j(2)], of n "cell m a j AND PTE_ADDR" js' k] T [OF j(2)] js j
        by (auto simp: leaf_simps)
    qed
  qed
  moreover have "walk_levels alloc True a (i # is) (m, g) = walk_levels alloc True a (i # is) (?m, g')" for "is"
    using absent d ai by (simp add: Let_def cell_def)
  moreover have "agree m ?m {x}" if "is_page x" "x \<notin> insert ?p S" for x
    using out [OF that(1)] that(2) ST by auto
  ultimately show ?thesis using ai by blast
qed

theorem walk_create:
  assumes "pt_tree m n a S" "ready g" "S \<inter> avail g = {}" "length is = n" "indices is"
  shows "walk_ok n a S is m g"
  using assms
proof (induction "is" arbitrary: n a S m g)
  case Nil
  then show ?case unfolding walk_ok_def by (auto simp: agree_def)
next
  case (Cons i "is")
  then obtain n' where n: "n = Suc n'" "length is = n'" by (cases n) auto
  have i: "i < PT_ENTRIES" "indices is" using Cons.prems(5) by simp_all
  have tree: "pt_tree m (Suc n') a S" using Cons.prems(1) n by simp
  show ?case
  proof (cases "cell m a i AND PF_PRESENT = 0")
    case False
    show ?thesis unfolding n
      by (rule walk_present [OF tree Cons.prems(3) i(1) False])
        (rule Cons.IH [OF _ Cons.prems(2)], use n i in auto)
  next
    case True
    obtain r g' where al: "alloc g = Some (r, g')" using alloc_returns [OF Cons.prems(2)] by auto
    note g' = alloc_ready [OF Cons.prems(2) al]
    show ?thesis
    proof (cases r)
      case None
      then have "walk_levels alloc True a (i # is) (m, g) = Some (Inl NoMemory, m, g')"
        using True al by (simp add: Let_def cell_def)
      moreover have "avail g' = avail g" using alloc_none [OF Cons.prems(2)] al None by simp
      ultimately show ?thesis
        unfolding walk_ok_def using g' Cons.prems(1,3) by (auto simp: agree_def)
    next
      case (Some d)
      then have d: "alloc g = Some (Some d, g')" using al by simp
      let ?S = "insert (fd_phys d) S"
      obtain m' where m': "pt_tree m' (Suc n') a ?S" "cell m' a i AND PF_PRESENT \<noteq> 0"
          "cell m' a i AND PTE_ADDR = fd_phys d"
        and w: "\<And>is. walk_levels alloc True a (i # is) (m, g) = walk_levels alloc True a (i # is) (m', g')"
        and out: "\<And>x. is_page x \<Longrightarrow> x \<notin> ?S \<Longrightarrow> agree m m' {x}"
        and lf: "\<And>js k. length js = Suc n' \<Longrightarrow> indices js \<Longrightarrow> k < PT_ENTRIES \<Longrightarrow> leaf m' a js k = leaf m a js k"
        using walk_absent [OF tree Cons.prems(3) i(1) Cons.prems(2) True d] by metis
      have av: "avail g' = avail g - {fd_phys d}" "fd_phys d \<in> avail g"
        using alloc_takes [OF Cons.prems(2) d] alloc_frame_avail [OF Cons.prems(2) d] by auto
      have S': "?S \<inter> avail g' = {}" using Cons.prems(3) av by auto
      have "walk_ok (Suc n') a ?S (i # is) m' g'"
        by (rule walk_present [OF m'(1) S' i(1) m'(2)]) (rule Cons.IH [OF _ g'], use n i in auto)
      then obtain r m2 g2 S2 where
        "walk_levels alloc True a (i # is) (m', g') = Some (r, m2, g2)" "ready g2" "avail g2 \<subseteq> avail g'"
        "pt_tree m2 (Suc n') a S2" "?S \<subseteq> S2" "S2 \<subseteq> ?S \<union> avail g'" "S2 \<inter> avail g2 = {}"
        and o2: "\<And>x. is_page x \<Longrightarrow> x \<notin> S2 \<Longrightarrow> agree m' m2 {x}"
        and l2: "\<And>js k. length js = Suc n' \<Longrightarrow> indices js \<Longrightarrow> k < PT_ENTRIES \<Longrightarrow> leaf m2 a js k = leaf m' a js k"
        and "case r of Inl e \<Rightarrow> e = NoMemory | Inr t \<Rightarrow> find_table m2 a (i # is) = Some t"
        unfolding walk_ok_def by metis
      moreover have "agree m m2 {x}" if "is_page x" "x \<notin> S2" for x
        using out [OF that(1)] o2 [OF that] \<open>?S \<subseteq> S2\<close> that(2) by (auto simp: agree_def)
      ultimately show ?thesis
        unfolding walk_ok_def n using w lf av(1,2) by (intro exI [of _ r] exI [of _ m2] exI [of _ g2] exI [of _ S2]) auto
    qed
  qed
qed

text \<open>A walk does not run out of memory when a frame is available for each level.\<close>

lemma walk_enough:
  assumes "ready g" and "length is \<le> card (avail g)"
    and "walk_levels alloc True t is (m, g) = Some (r, m', g')"
  shows "\<exists>t'. r = Inr t'"
  using assms
proof (induction "is" arbitrary: t m g)
  case Nil
  then show ?case by auto
next
  case (Cons i "is")
  let ?e = "t + of_nat (8 * i)"
  show ?case
  proof (cases "rd64 m ?e AND PF_PRESENT = 0")
    case True
    obtain d g1 where al: "alloc g = Some (d, g1)" using alloc_returns [OF Cons.prems(1)] by blast
    have "d \<noteq> None"
    proof
      assume "d = None"
      then have "avail g = {}" using alloc_none_empty [OF Cons.prems(1)] al by simp
      then show False using Cons.prems(2) by simp
    qed
    then obtain f where f: "alloc g = Some (Some f, g1)" using al by auto
    have "card (avail g1) = card (avail g) - 1"
      using alloc_takes [OF Cons.prems(1) f] alloc_frame_avail [OF Cons.prems(1) f] by simp
    then have "length is \<le> card (avail g1)" using Cons.prems(2) by simp
    from Cons.IH [OF alloc_ready [OF Cons.prems(1) f] this] show ?thesis
      using Cons.prems(3) True f by (simp add: Let_def del: of_nat_mult)
  next
    case False
    then show ?thesis using Cons.IH [OF Cons.prems(1)] Cons.prems(2,3) by (simp add: Let_def del: of_nat_mult)
  qed
qed

lemma walk_uses:
  assumes "ready g" and "walk_levels alloc True t is (m, g) = Some (r, m', g')"
  shows "card (avail g) \<le> card (avail g') + length is"
  using assms
proof (induction "is" arbitrary: t m g)
  case (Cons i "is")
  let ?e = "t + of_nat (8 * i)"
  show ?case
  proof (cases "rd64 m ?e AND PF_PRESENT = 0")
    case True
    obtain d g1 where al: "alloc g = Some (d, g1)" using alloc_returns [OF Cons.prems(1)] by blast
    show ?thesis
    proof (cases d)
      case None
      then show ?thesis using alloc_none [OF Cons.prems(1)] Cons.prems(2) True al
        by (simp add: Let_def del: of_nat_mult)
    next
      case (Some f)
      then have f: "alloc g = Some (Some f, g1)" using al by simp
      have "card (avail g) \<le> card (avail g1) + 1"
        using alloc_takes [OF Cons.prems(1) f] alloc_frame_avail [OF Cons.prems(1) f] by simp
      moreover have "card (avail g1) \<le> card (avail g') + length is"
        using Cons.IH [OF alloc_ready [OF Cons.prems(1) f]] Cons.prems(2) True f by (simp add: Let_def del: of_nat_mult)
      ultimately show ?thesis by simp
    qed
  next
    case False
    then show ?thesis using Cons.IH [OF Cons.prems(1)] Cons.prems(2) by (force simp: Let_def simp del: of_nat_mult)
  qed
qed simp

end

subsection \<open>The kernel's allocator provides the interface\<close>

definition frames_ready :: "FrameAllocator option \<Rightarrow> bool" where
  "frames_ready g \<longleftrightarrow> (\<exists>fa n. g = Some fa \<and> fb_ok (fa_bitmap fa) \<and>
     fb_frame_count (fa_bitmap fa) \<le> 2 ^ 40 \<and> fa_buddy fa = buddy_new n)"

definition frames_avail :: "FrameAllocator option \<Rightarrow> u64 set" where
  "frames_avail g = (case g of None \<Rightarrow> {}
     | Some fa \<Rightarrow> (\<lambda>f. phys_from_frame (of_nat f)) ` frees (fa_bitmap fa))"

lemma unat_frame: "f < 2 ^ 40 \<Longrightarrow> unat (phys_from_frame (of_nat f)) = f * 4096"
  by (simp add: phys_from_frame_def PAGE_SIZE_def unat_mult_small unat_of_nat)

lemma frame_inj:
  assumes "f < 2 ^ 40" "h < 2 ^ 40" "phys_from_frame (of_nat f) = phys_from_frame (of_nat h)"
  shows "f = h"
proof -
  have "f * 4096 = h * 4096"
    unfolding unat_frame [OF assms(1), symmetric] unat_frame [OF assms(2), symmetric] assms(3) ..
  then show ?thesis by simp
qed

lemma frame_is_page:
  assumes "f < 2 ^ 40"
  shows "is_page (phys_from_frame (of_nat f))"
proof -
  have "f * 4096 < 2 ^ 40 * 4096" using assms by (rule mult_strict_right_mono) simp
  then show ?thesis unfolding is_page_def unat_frame [OF assms] by simp
qed

lemma alloc_one_none:
  assumes "fb_ok (fa_bitmap fa)" "frees (fa_bitmap fa) = {}" "fa_buddy fa = buddy_new n"
  shows "alloc_one fa node = Some (None, fa)"
proof -
  have f: "find_free (fa_bitmap fa) = Some None" using assms(1,2) by (simp add: find_free_eq)
  have "\<forall>(node, search) \<in> set (alloc_candidates 0 (min node (MAX_NODES - 1))). node < MAX_NODES \<and> search \<le> MAX_ORDER"
    by (auto simp: alloc_candidates_def MAX_NODES_def)
  then show ?thesis
    using f assms(3) by (simp add: alloc_one_def alloc_order_def Let_def buddy_alloc_def alloc_scan_empty)
qed

lemma alloc_frame_cases:
  assumes "frames_ready g"
  shows "\<exists>r g'. alloc_frame node g = Some (r, g') \<and> frames_ready g' \<and> (case r of
      None \<Rightarrow> g' = g \<and> frames_avail g = {}
    | Some d \<Rightarrow> fd_phys d \<in> frames_avail g \<and> frames_avail g' = frames_avail g - {fd_phys d})"
proof -
  from assms obtain fa n where g: "g = Some fa" and fa: "fb_ok (fa_bitmap fa)"
    "fb_frame_count (fa_bitmap fa) \<le> 2 ^ 40" "fa_buddy fa = buddy_new n"
    by (auto simp: frames_ready_def)
  let ?b = "fa_bitmap fa"
  show ?thesis
  proof (cases "frees ?b = {}")
    case True
    have "alloc_one fa node = Some (None, fa)"
      by (rule alloc_one_none [OF fa(1) True fa(3)])
    then show ?thesis using assms True by (simp add: alloc_frame_def phys_with_def g frames_avail_def)
  next
    case False
    with fa(1) obtain f b' where f: "find_free ?b = Some (Some f)" "f \<in> frees ?b"
      "set_used ?b f = Some b'" "fb_ok b'" "fb_frame_count b' = fb_frame_count ?b" "frees b' = frees ?b - {f}"
      by (rule take_one_frame)
    let ?d = "\<lparr>fd_frame = f, fd_order = 0, fd_node = node\<rparr>"
    have al: "alloc_frame node g = Some (Some ?d, Some (fa\<lparr>fa_bitmap := b'\<rparr>))"
      using f by (simp add: alloc_frame_def phys_with_def g alloc_one_def)
    have small: "h < 2 ^ 40" if "h \<in> frees ?b" for h using that fa(2) by (simp add: frees_def)
    have inj: "inj_on (\<lambda>f. phys_from_frame (of_nat f)) (frees ?b)"
      by (rule inj_onI) (rule frame_inj, (rule small, assumption)+)
    have "(\<lambda>f. phys_from_frame (of_nat f)) ` (frees ?b - {f}) =
        (\<lambda>f. phys_from_frame (of_nat f)) ` frees ?b - {phys_from_frame (of_nat f)}"
      using inj_on_image_set_diff [OF inj, of "frees ?b" "{f}"] f(2) by simp
    then have "frames_avail (Some (fa\<lparr>fa_bitmap := b'\<rparr>)) = frames_avail g - {fd_phys ?d}"
      using f(6) by (simp add: frames_avail_def g fd_phys_def)
    moreover have "fd_phys ?d \<in> frames_avail g" using f(2) by (simp add: frames_avail_def g fd_phys_def)
    moreover have "frames_ready (Some (fa\<lparr>fa_bitmap := b'\<rparr>))"
      using f(4,5) fa unfolding frames_ready_def by (intro exI [of _ "fa\<lparr>fa_bitmap := b'\<rparr>"] exI [of _ n]) simp
    ultimately show ?thesis using al by auto
  qed
qed

interpretation fs: frame_source "alloc_frame local_node" frames_ready frames_avail
proof unfold_locales
  fix g :: "FrameAllocator option" and r g' d
  assume g: "frames_ready g"
  then show "\<exists>r g'. alloc_frame local_node g = Some (r, g')"
    using alloc_frame_cases by blast
  show "frames_ready g'" if "alloc_frame local_node g = Some (r, g')"
    using alloc_frame_cases [OF g, of local_node] that by auto
  show "fd_phys d \<in> frames_avail g" "frames_avail g' = frames_avail g - {fd_phys d}"
    if "alloc_frame local_node g = Some (Some d, g')"
    using alloc_frame_cases [OF g, of local_node] that by auto
  show "frames_avail g' = frames_avail g" if "alloc_frame local_node g = Some (None, g')"
    using alloc_frame_cases [OF g, of local_node] that by auto
  show "frames_avail g = {}" if "alloc_frame local_node g = Some (None, g')"
    using alloc_frame_cases [OF g, of local_node] that by auto
  show "finite (frames_avail g)"
    using g by (auto simp: frames_ready_def frames_avail_def frees_def)
  show "is_page x" if "x \<in> frames_avail g" for x
    using that g by (auto simp: frames_ready_def frames_avail_def frees_def intro!: frame_is_page)
qed

subsection \<open>Translations\<close>

definition pt_slot :: "u64 \<Rightarrow> nat" where
  "pt_slot virt = unat (pi_pt (page_indices virt))"

lemma index_less: "unat (w AND 0x1FF) < 512" for w :: u64
proof -
  have "w AND 0x1FF = take_bit 9 w" by (simp add: take_bit_eq_mask mask_eq_exp_minus_1)
  then show ?thesis using take_bit_nat_less_exp [of 9 "unat w"] by (simp add: unsigned_take_bit_eq)
qed

lemma walk_path_ok: "length (walk_path virt) = 3" "indices (walk_path virt)" "pt_slot virt < PT_ENTRIES"
  by (auto simp: walk_path_def pt_slot_def page_indices_def PT_ENTRIES_def numeral_3_eq_3 index_less
      less_Suc_eq)

lemma page_indices_eq:
  "walk_path v = walk_path w \<and> pt_slot v = pt_slot w \<longleftrightarrow> page_indices v = page_indices w"
  by (auto simp: walk_path_def pt_slot_def numeral_3_eq_3 page_indices_def dest: unsigned_word_eqI)

text \<open>The entry that translates an address, 0 where there is none.\<close>

definition pte :: "mem \<Rightarrow> u64 \<Rightarrow> u64 \<Rightarrow> u64" where
  "pte m cr3 virt = leaf m cr3 (walk_path virt) (pt_slot virt)"

definition vm_ok :: "u64 \<Rightarrow> Machine \<Rightarrow> bool" where
  "vm_ok cr3 mc \<longleftrightarrow> frames_ready (mc_frames mc) \<and>
     (\<exists>S. pt_tree (mc_ram mc) 3 cr3 S \<and> S \<inter> frames_avail (mc_frames mc) = {})"

text \<open>A page that is in use and is no table.\<close>

definition data_page :: "u64 \<Rightarrow> Machine \<Rightarrow> u64 \<Rightarrow> bool" where
  "data_page cr3 mc x \<longleftrightarrow> is_page x \<and> x \<notin> frames_avail (mc_frames mc) \<and>
     (\<forall>S. pt_tree (mc_ram mc) 3 cr3 S \<longrightarrow> x \<notin> S)"

lemma pt_tree_unique: "pt_tree m n a S \<Longrightarrow> pt_tree m n a S' \<Longrightarrow> S = S'"
proof (induction n arbitrary: a S S')
  case 0
  then show ?case by simp
next
  case (Suc n)
  obtain T where T: "S = insert a (\<Union>i<PT_ENTRIES. T i)" "\<And>i. i < PT_ENTRIES \<Longrightarrow>
      if cell m a i AND PF_PRESENT = 0 then T i = {} else pt_tree m n (cell m a i AND PTE_ADDR) (T i)"
    using Suc.prems(1) by auto
  obtain T' where T': "S' = insert a (\<Union>i<PT_ENTRIES. T' i)" "\<And>i. i < PT_ENTRIES \<Longrightarrow>
      if cell m a i AND PF_PRESENT = 0 then T' i = {} else pt_tree m n (cell m a i AND PTE_ADDR) (T' i)"
    using Suc.prems(2) by auto
  have "T i = T' i" if "i < PT_ENTRIES" for i
    using T(2) [OF that] T'(2) [OF that] Suc.IH by (auto split: if_splits)
  then show ?case unfolding T(1) T'(1) by auto
qed

lemma walk_mut_read:
  "walk_mut cr3 virt False mc = Some (case find_table (mc_ram mc) cr3 (walk_path virt) of
       None \<Rightarrow> Inl NotMapped | Some t \<Rightarrow> Inr (t + of_nat (8 * pt_slot virt)), mc)"
  by (cases "find_table (mc_ram mc) cr3 (walk_path virt)")
    (simp_all add: walk_mut_def walk_find pt_slot_def)

lemma rd_slot: "rd64 m (t + of_nat (8 * k)) = cell m t k"
  by (simp add: cell_def)

lemma resolve_pte:
  "resolve cr3 virt mc = Some (let v = pte (mc_ram mc) cr3 virt in
     if v AND PF_PRESENT = 0 then None else Some (v AND PTE_ADDR, v AND PAGE_FLAGS_ALL))"
  by (cases "find_table (mc_ram mc) cr3 (walk_path virt)")
    (simp_all add: resolve_def walk_mut_read pte_def leaf_def Let_def rd_slot del: of_nat_mult)

lemma get_flags_pte:
  "get_flags cr3 virt mc = Some (let v = pte (mc_ram mc) cr3 virt in
     if v = 0 then None else Some (v AND PAGE_FLAGS_ALL))"
  by (cases "find_table (mc_ram mc) cr3 (walk_path virt)")
    (simp_all add: get_flags_def walk_mut_read pte_def leaf_def Let_def rd_slot del: of_nat_mult)

text \<open>A walk that creates tables returns the slot of the address, or runs out of memory; either
  way no entry of the translation changes.\<close>

lemma walk_mut_create:
  assumes "vm_ok cr3 mc"
  shows "\<exists>r mc'. walk_mut cr3 virt True mc = Some (r, mc') \<and> vm_ok cr3 mc' \<and>
    (\<forall>v. pte (mc_ram mc') cr3 v = pte (mc_ram mc) cr3 v) \<and>
    (case r of Inl e \<Rightarrow> e = NoMemory
     | Inr entry \<Rightarrow> rd64 (mc_ram mc') entry = pte (mc_ram mc) cr3 virt \<and>
         (\<forall>val. vm_ok cr3 (mc'\<lparr>mc_ram := wr64 (mc_ram mc') entry val\<rparr>) \<and>
           (\<forall>v. pte (wr64 (mc_ram mc') entry val) cr3 v =
              (if page_indices v = page_indices virt then val else pte (mc_ram mc) cr3 v)) \<and>
           (\<forall>x. data_page cr3 mc x \<longrightarrow> agree (mc_ram mc) (wr64 (mc_ram mc') entry val) {x} \<and>
             data_page cr3 (mc'\<lparr>mc_ram := wr64 (mc_ram mc') entry val\<rparr>) x))) \<and>
    (3 \<le> card (frames_avail (mc_frames mc)) \<longrightarrow> (\<exists>entry. r = Inr entry)) \<and>
    frames_avail (mc_frames mc') \<subseteq> frames_avail (mc_frames mc)"
proof -
  let ?p = "walk_path virt"
  from assms obtain S where S: "frames_ready (mc_frames mc)" "pt_tree (mc_ram mc) 3 cr3 S"
    "S \<inter> frames_avail (mc_frames mc) = {}" by (auto simp: vm_ok_def)
  obtain r m' g' S' where
    w: "walk_levels (alloc_frame local_node) True cr3 ?p (mc_ram mc, mc_frames mc) = Some (r, m', g')"
    and g': "frames_ready g'" "S' \<inter> frames_avail g' = {}" "frames_avail g' \<subseteq> frames_avail (mc_frames mc)"
    and tree: "pt_tree m' 3 cr3 S'"
    and S': "S' \<subseteq> S \<union> frames_avail (mc_frames mc)"
    and out: "\<And>x. is_page x \<Longrightarrow> x \<notin> S' \<Longrightarrow> agree (mc_ram mc) m' {x}"
    and lf: "\<And>js k. length js = 3 \<Longrightarrow> indices js \<Longrightarrow> k < PT_ENTRIES \<Longrightarrow> leaf m' cr3 js k = leaf (mc_ram mc) cr3 js k"
    and res: "case r of Inl e \<Rightarrow> e = NoMemory | Inr t \<Rightarrow> find_table m' cr3 ?p = Some t"
    using fs.walk_create [OF S(2,1,3) walk_path_ok(1,2)] unfolding fs.walk_ok_def by metis
  have enough: "\<exists>t. r = Inr t" if "3 \<le> card (frames_avail (mc_frames mc))"
    by (rule fs.walk_enough [OF S(1) _ w]) (simp add: walk_path_ok that)
  let ?mc = "mc\<lparr>mc_ram := m', mc_frames := g'\<rparr>"
  have same: "pte m' cr3 v = pte (mc_ram mc) cr3 v" for v
    unfolding pte_def by (rule lf) (rule walk_path_ok)+
  have ok: "vm_ok cr3 ?mc" using g' tree by (auto simp: vm_ok_def)
  show ?thesis
  proof (cases r)
    case (Inl e)
    then have "walk_mut cr3 virt True mc = Some (Inl e, ?mc)" using w by (simp add: walk_mut_def)
    then show ?thesis using Inl res same ok g'(3) enough by auto
  next
    case (Inr t)
    let ?e = "t + of_nat (8 * pt_slot virt)"
    have wm: "walk_mut cr3 virt True mc = Some (Inr ?e, ?mc)"
      using w Inr by (simp add: walk_mut_def pt_slot_def)
    have ft: "find_table m' cr3 ?p = Some t" using res Inr by simp
    have rd: "rd64 m' ?e = pte (mc_ram mc) cr3 virt"
      using same [of virt] ft by (simp add: rd_slot pte_def leaf_def del: of_nat_mult)
    have "pt_tree (wr64 m' ?e val) 3 cr3 S' \<and>
        (\<forall>v. pte (wr64 m' ?e val) cr3 v = (if page_indices v = page_indices virt then val else pte (mc_ram mc) cr3 v))"
      for val
    proof -
      note lw = leaf_write [OF tree walk_path_ok(1,2) ft walk_path_ok(3) [of virt], where v = val]
      have "pte (wr64 m' ?e val) cr3 v = (if page_indices v = page_indices virt then val else pte (mc_ram mc) cr3 v)" for v
      proof -
        have "leaf (wr64 m' ?e val) cr3 (walk_path v) (pt_slot v) =
            (if walk_path v = ?p \<and> pt_slot v = pt_slot virt then val else leaf m' cr3 (walk_path v) (pt_slot v))"
          using lw walk_path_ok [of v] by blast
        then show ?thesis using same [of v] by (simp only: pte_def page_indices_eq)
      qed
      then show ?thesis using lw by blast
    qed
    moreover have "agree (mc_ram mc) (wr64 m' ?e val) {x} \<and>
        data_page cr3 (?mc\<lparr>mc_ram := wr64 m' ?e val\<rparr>) x" if x: "data_page cr3 mc x" for x val
    proof
      have x': "x \<notin> S'" "is_page x" using x S' S(2) by (auto simp: data_page_def)
      moreover have "t \<in> S'" "is_page t"
        using find_table_in [OF tree walk_path_ok(1,2) ft] pt_tree_pages [OF tree] by blast+
      ultimately show "agree (mc_ram mc) (wr64 m' ?e val) {x}"
        using out [of x] walk_path_ok(3) [of virt] by (auto simp: agree_def cell_wr_entry simp del: of_nat_mult)
      have "pt_tree (wr64 m' ?e val) 3 cr3 S'"
        using leaf_write [OF tree walk_path_ok(1,2) ft walk_path_ok(3) [of virt], where v = val] by blast
      then have "x \<notin> T" if "pt_tree (wr64 m' ?e val) 3 cr3 T" for T
        using pt_tree_unique [OF _ that] x' by blast
      moreover have "x \<notin> frames_avail g'" using x g'(3) by (auto simp: data_page_def)
      ultimately show "data_page cr3 (?mc\<lparr>mc_ram := wr64 m' ?e val\<rparr>) x"
        using x' by (simp add: data_page_def del: of_nat_mult)
    qed
    ultimately have "vm_ok cr3 (?mc\<lparr>mc_ram := wr64 (mc_ram ?mc) ?e val\<rparr>) \<and>
        (\<forall>v. pte (wr64 (mc_ram ?mc) ?e val) cr3 v =
           (if page_indices v = page_indices virt then val else pte (mc_ram mc) cr3 v)) \<and>
        (\<forall>x. data_page cr3 mc x \<longrightarrow> agree (mc_ram mc) (wr64 (mc_ram ?mc) ?e val) {x} \<and>
          data_page cr3 (?mc\<lparr>mc_ram := wr64 (mc_ram ?mc) ?e val\<rparr>) x)" for val
      using g' by (auto simp: vm_ok_def)
    with wm rd same ok g'(3) show ?thesis by auto
  qed
qed

text \<open>Mapping a page, in terms of the entries.\<close>

lemma map_page_pte:
  assumes "vm_ok cr3 mc"
  shows "\<exists>r mc'. map_page cr3 virt phys flags mc = Some (r, mc') \<and> vm_ok cr3 mc' \<and>
    frames_avail (mc_frames mc') \<subseteq> frames_avail (mc_frames mc) \<and>
    (case r of
       Inr _ \<Rightarrow> pte (mc_ram mc) cr3 virt AND PF_PRESENT = 0 \<and>
         (\<forall>v. pte (mc_ram mc') cr3 v =
            (if page_indices v = page_indices virt then phys OR flags else pte (mc_ram mc) cr3 v)) \<and>
         (\<forall>x. data_page cr3 mc x \<longrightarrow> agree (mc_ram mc) (mc_ram mc') {x} \<and> data_page cr3 mc' x)
     | Inl e \<Rightarrow> (\<forall>v. pte (mc_ram mc') cr3 v = pte (mc_ram mc) cr3 v) \<and>
         (e = NoMemory \<and> card (frames_avail (mc_frames mc)) < 3 \<or>
          e = AlreadyMapped \<and> pte (mc_ram mc) cr3 virt AND PF_PRESENT \<noteq> 0))"
proof -
  obtain r mc' where w: "walk_mut cr3 virt True mc = Some (r, mc')" "vm_ok cr3 mc'"
    and same: "\<And>v. pte (mc_ram mc') cr3 v = pte (mc_ram mc) cr3 v"
    and res: "case r of Inl e \<Rightarrow> e = NoMemory
     | Inr entry \<Rightarrow> rd64 (mc_ram mc') entry = pte (mc_ram mc) cr3 virt \<and>
         (\<forall>val. vm_ok cr3 (mc'\<lparr>mc_ram := wr64 (mc_ram mc') entry val\<rparr>) \<and>
           (\<forall>v. pte (wr64 (mc_ram mc') entry val) cr3 v =
              (if page_indices v = page_indices virt then val else pte (mc_ram mc) cr3 v)) \<and>
           (\<forall>x. data_page cr3 mc x \<longrightarrow> agree (mc_ram mc) (wr64 (mc_ram mc') entry val) {x} \<and>
             data_page cr3 (mc'\<lparr>mc_ram := wr64 (mc_ram mc') entry val\<rparr>) x))"
    and enough: "3 \<le> card (frames_avail (mc_frames mc)) \<longrightarrow> (\<exists>entry. r = Inr entry)"
    and sub: "frames_avail (mc_frames mc') \<subseteq> frames_avail (mc_frames mc)"
    using walk_mut_create [OF assms, of virt] by blast
  show ?thesis
  proof (cases r)
    case (Inl e)
    then show ?thesis using w res same enough sub by (auto simp: map_page_def)
  next
    case (Inr entry)
    then have rd: "rd64 (mc_ram mc') entry = pte (mc_ram mc) cr3 virt"
      and ok: "vm_ok cr3 (mc'\<lparr>mc_ram := wr64 (mc_ram mc') entry (phys OR flags)\<rparr>)"
      and pt: "\<And>v. pte (wr64 (mc_ram mc') entry (phys OR flags)) cr3 v =
          (if page_indices v = page_indices virt then phys OR flags else pte (mc_ram mc) cr3 v)"
      and out: "\<forall>x. data_page cr3 mc x \<longrightarrow> agree (mc_ram mc) (wr64 (mc_ram mc') entry (phys OR flags)) {x} \<and>
          data_page cr3 (mc'\<lparr>mc_ram := wr64 (mc_ram mc') entry (phys OR flags)\<rparr>) x"
      using res by auto
    then show ?thesis using w same sub Inr
      by (cases "pte (mc_ram mc) cr3 virt AND PF_PRESENT = 0") (simp_all add: map_page_def)
  qed
qed

text \<open>Mapping a page takes at most three frames, for the tables.\<close>

lemma map_page_uses:
  assumes "vm_ok cr3 mc" and "map_page cr3 virt phys flags mc = Some (r, mc')"
  shows "card (frames_avail (mc_frames mc)) \<le> card (frames_avail (mc_frames mc')) + 3"
proof -
  have "frames_ready (mc_frames mc)" using assms(1) by (simp add: vm_ok_def)
  moreover obtain w m' g' where
    w: "walk_levels (alloc_frame local_node) True cr3 (walk_path virt) (mc_ram mc, mc_frames mc) = Some (w, m', g')"
    using assms(2)
    by (cases "walk_levels (alloc_frame local_node) True cr3 (walk_path virt) (mc_ram mc, mc_frames mc)")
      (auto simp: map_page_def walk_mut_def)
  moreover have "mc_frames mc' = g'"
    using assms(2) w by (cases w) (auto simp: map_page_def walk_mut_def split: if_splits)
  ultimately show ?thesis using fs.walk_uses [OF _ w] walk_path_ok(1) [of virt] by simp
qed

text \<open>Unmapping a present page clears its entry.\<close>

lemma unmap_pte:
  assumes "vm_ok cr3 mc" and "pte (mc_ram mc) cr3 virt AND PF_PRESENT \<noteq> 0"
  shows "\<exists>mc'. unmap_page cr3 virt mc = Some (Inr (pte (mc_ram mc) cr3 virt AND PTE_ADDR), mc') \<and>
    vm_ok cr3 mc' \<and>
    (\<forall>v. pte (mc_ram mc') cr3 v = (if page_indices v = page_indices virt then 0 else pte (mc_ram mc) cr3 v))"
proof -
  let ?p = "walk_path virt"
  from assms(1) obtain S where S: "frames_ready (mc_frames mc)" "pt_tree (mc_ram mc) 3 cr3 S"
    "S \<inter> frames_avail (mc_frames mc) = {}" by (auto simp: vm_ok_def)
  obtain t where t: "find_table (mc_ram mc) cr3 ?p = Some t"
    using assms(2) by (cases "find_table (mc_ram mc) cr3 ?p") (simp_all add: pte_def leaf_def)
  let ?e = "t + of_nat (8 * pt_slot virt)"
  let ?mc = "mc\<lparr>mc_ram := wr64 (mc_ram mc) ?e 0\<rparr>"
  note lw = leaf_write [OF S(2) walk_path_ok(1,2) t walk_path_ok(3) [of virt], where v = 0]
  have v: "cell (mc_ram mc) t (pt_slot virt) = pte (mc_ram mc) cr3 virt" using t by (simp add: pte_def leaf_def)
  have "unmap_page cr3 virt mc = Some (Inr (pte (mc_ram mc) cr3 virt AND PTE_ADDR), ?mc)"
    using t assms(2) by (simp add: unmap_page_def walk_mut_read rd_slot v Let_def del: of_nat_mult)
  moreover have "pte (mc_ram ?mc) cr3 w = (if page_indices w = page_indices virt then 0 else pte (mc_ram mc) cr3 w)" for w
  proof -
    have "leaf (wr64 (mc_ram mc) ?e 0) cr3 (walk_path w) (pt_slot w) =
        (if walk_path w = ?p \<and> pt_slot w = pt_slot virt then 0 else leaf (mc_ram mc) cr3 (walk_path w) (pt_slot w))"
      using lw walk_path_ok [of w] by blast
    then show ?thesis by (simp add: pte_def page_indices_eq del: of_nat_mult)
  qed
  moreover have "vm_ok cr3 ?mc" using S lw by (auto simp: vm_ok_def simp del: of_nat_mult)
  ultimately show ?thesis by blast
qed

subsection \<open>Properties\<close>

text \<open>
  C5: Mapping a page on well-formed tables always returns, and keeps the tables well formed. On
  success the address was not mapped before and now resolves to exactly the physical page and the
  flags given, and every other page resolves as it did. \<open>AlreadyMapped\<close> is reported only when the
  address was mapped, \<open>NoMemory\<close> only when fewer than three frames are free, and neither changes a
  translation.
\<close>

theorem map_page_correct:
  assumes "vm_ok cr3 mc" and "is_page phys" and "valid_flags flags" and "flags AND PF_PRESENT \<noteq> 0"
  shows "\<exists>r mc'. map_page cr3 virt phys flags mc = Some (r, mc') \<and> vm_ok cr3 mc' \<and>
    (case r of
       Inr _ \<Rightarrow> resolve cr3 virt mc = Some None \<and> resolve cr3 virt mc' = Some (Some (phys, flags)) \<and>
         (\<forall>v. page_indices v \<noteq> page_indices virt \<longrightarrow> resolve cr3 v mc' = resolve cr3 v mc)
     | Inl e \<Rightarrow> (\<forall>v. resolve cr3 v mc' = resolve cr3 v mc) \<and>
         (e = NoMemory \<and> card (frames_avail (mc_frames mc)) < 3 \<or>
          e = AlreadyMapped \<and> resolve cr3 virt mc \<noteq> Some None))"
proof -
  obtain r mc' where m: "map_page cr3 virt phys flags mc = Some (r, mc')" "vm_ok cr3 mc'"
    "case r of
       Inr _ \<Rightarrow> pte (mc_ram mc) cr3 virt AND PF_PRESENT = 0 \<and>
         (\<forall>v. pte (mc_ram mc') cr3 v =
            (if page_indices v = page_indices virt then phys OR flags else pte (mc_ram mc) cr3 v)) \<and>
         (\<forall>x. data_page cr3 mc x \<longrightarrow> agree (mc_ram mc) (mc_ram mc') {x} \<and> data_page cr3 mc' x)
     | Inl e \<Rightarrow> (\<forall>v. pte (mc_ram mc') cr3 v = pte (mc_ram mc) cr3 v) \<and>
         (e = NoMemory \<and> card (frames_avail (mc_frames mc)) < 3 \<or>
          e = AlreadyMapped \<and> pte (mc_ram mc) cr3 virt AND PF_PRESENT \<noteq> 0)"
    using map_page_pte [OF assms(1), of virt phys flags] by blast
  then show ?thesis
    using entry_fields [OF assms(2,3)] assms(4) by (cases r) (auto simp: resolve_pte Let_def)
qed

text \<open>An empty top-level table at \<open>0x1000\<close>, all other memory zero, with 62 free frames.\<close>

definition fresh_machine :: Machine where
  "fresh_machine = \<lparr>mc_ram = (\<lambda>_. 0),
     mc_frames = Some \<lparr>fa_bitmap = \<lparr>fb_bits = [3], fb_frame_count = 64\<rparr>, fa_buddy = buddy_new 1,
       fa_total_frames = 64\<rparr>\<rparr>"

lemma cell_zero_mem: "cell (\<lambda>_. 0) x i = 0"
  by (simp add: cell_def rd64_def mem_read_def map_replicate_const of_le_zeros)

lemma fresh_machine_ok: "vm_ok 0x1000 fresh_machine"
proof -
  let ?g = "mc_frames fresh_machine"
  have "frames_ready ?g" by (auto simp: frames_ready_def fresh_machine_def fb_ok_def)
  moreover have "pt_tree (mc_ram fresh_machine) 3 0x1000 {0x1000}"
    by (rule pt_tree_zero) (simp_all add: is_page_def fresh_machine_def cell_zero_mem)
  moreover have "0x1000 \<notin> frames_avail ?g"
  proof
    assume "0x1000 \<in> frames_avail ?g"
    then obtain f where f: "f < 64" "\<not> used_bit \<lparr>fb_bits = [3], fb_frame_count = 64\<rparr> f"
      and eq: "phys_from_frame (of_nat f) = 0x1000"
      by (auto simp: frames_avail_def fresh_machine_def frees_def)
    have "phys_from_frame (of_nat 1) = (0x1000 :: u64)" by (simp add: phys_from_frame_def PAGE_SIZE_def)
    then have "f = 1" using f(1) eq by (intro frame_inj) simp_all
    with f(2) show False by (simp add: used_bit_def)
  qed
  ultimately show ?thesis unfolding vm_ok_def by blast
qed

lemma fresh_machine_pte: "pte (mc_ram fresh_machine) 0x1000 v = 0"
  by (simp add: pte_def walk_path_def numeral_3_eq_3 leaf_simps fresh_machine_def cell_zero_mem)

lemma fresh_machine_avail: "4 \<le> card (frames_avail (mc_frames fresh_machine))"
proof -
  let ?A = "frames_avail (mc_frames fresh_machine)"
  have "phys_from_frame (of_nat f) \<in> ?A" if "f \<in> {2, 3, 4, 5}" for f
    using that by (auto simp: frames_avail_def fresh_machine_def frees_def used_bit_def)
  from this [of 2] this [of 3] this [of 4] this [of 5]
  have "{0x2000, 0x3000, 0x4000, 0x5000} \<subseteq> ?A" by (simp add: phys_from_frame_def PAGE_SIZE_def)
  moreover have "finite ?A" using fresh_machine_ok by (simp add: vm_ok_def fs.avail_finite)
  ultimately have "card {0x2000, 0x3000, 0x4000, 0x5000 :: u64} \<le> card ?A" by (intro card_mono)
  then show ?thesis by simp
qed

theorem map_page_correct_witness:
  "vm_ok 0x1000 fresh_machine \<and> is_page 0x5000 \<and> valid_flags (PF_PRESENT OR PF_USER) \<and>
   (\<exists>mc'. map_page 0x1000 0x400000 0x5000 (PF_PRESENT OR PF_USER) fresh_machine = Some (Inr (), mc') \<and>
      vm_ok 0x1000 mc' \<and> resolve 0x1000 0x400000 mc' = Some (Some (0x5000, PF_PRESENT OR PF_USER)))"
proof -
  have p: "is_page 0x5000" "valid_flags (PF_PRESENT OR PF_USER)" "(PF_PRESENT OR PF_USER) AND PF_PRESENT \<noteq> 0"
    by (simp_all add: is_page_def valid_flags_def page_flag_defs PAGE_FLAGS_ALL_def)
  have none: "resolve 0x1000 0x400000 fresh_machine = Some None" by (simp add: resolve_pte fresh_machine_pte)
  from map_page_correct [OF fresh_machine_ok p, of "0x400000"] obtain r mc' where
    m: "map_page 0x1000 0x400000 0x5000 (PF_PRESENT OR PF_USER) fresh_machine = Some (r, mc')" "vm_ok 0x1000 mc'"
    and c: "case r of
       Inr _ \<Rightarrow> resolve 0x1000 0x400000 fresh_machine = Some None \<and>
         resolve 0x1000 0x400000 mc' = Some (Some (0x5000, PF_PRESENT OR PF_USER)) \<and>
         (\<forall>v. page_indices v \<noteq> page_indices 0x400000 \<longrightarrow> resolve 0x1000 v mc' = resolve 0x1000 v fresh_machine)
     | Inl e \<Rightarrow> (\<forall>v. resolve 0x1000 v mc' = resolve 0x1000 v fresh_machine) \<and>
         (e = NoMemory \<and> card (frames_avail (mc_frames fresh_machine)) < 3 \<or>
          e = AlreadyMapped \<and> resolve 0x1000 0x400000 fresh_machine \<noteq> Some None)"
    by blast
  show ?thesis using m c none fresh_machine_avail p fresh_machine_ok by (cases r) auto
qed

text \<open>
  C16: Unmapping undoes mapping: if \<open>map_page\<close> succeeds, \<open>unmap_page\<close> of the same address succeeds,
  returns the physical page that was mapped, and restores the translation of every address.
\<close>

theorem map_unmap_roundtrip:
  assumes "vm_ok cr3 mc" and "is_page phys" and "valid_flags flags" and "flags AND PF_PRESENT \<noteq> 0"
    and "map_page cr3 virt phys flags mc = Some (Inr (), mc')"
  shows "\<exists>mc''. unmap_page cr3 virt mc' = Some (Inr phys, mc'') \<and>
    (\<forall>v. resolve cr3 v mc'' = resolve cr3 v mc)"
proof -
  have ok: "vm_ok cr3 mc'" and old: "pte (mc_ram mc) cr3 virt AND PF_PRESENT = 0"
    and pt: "\<And>v. pte (mc_ram mc') cr3 v =
      (if page_indices v = page_indices virt then phys OR flags else pte (mc_ram mc) cr3 v)"
    using map_page_pte [OF assms(1), of virt phys flags] assms(5) by auto
  note f = entry_fields [OF assms(2,3)]
  from unmap_pte [OF ok, of virt] pt [of virt] f assms(4)
  obtain mc'' where u: "unmap_page cr3 virt mc' = Some (Inr phys, mc'')"
    and pt'': "\<And>v. pte (mc_ram mc'') cr3 v = (if page_indices v = page_indices virt then 0 else pte (mc_ram mc') cr3 v)"
    by auto
  have "resolve cr3 v mc'' = resolve cr3 v mc" for v
  proof (cases "page_indices v = page_indices virt")
    case True
    then have "pte (mc_ram mc) cr3 v = pte (mc_ram mc) cr3 virt"
      by (simp add: pte_def flip: page_indices_eq)
    then show ?thesis using True pt'' old by (simp add: resolve_pte)
  next
    case False
    then show ?thesis using pt'' pt by (simp add: resolve_pte)
  qed
  with u show ?thesis by blast
qed

text \<open>The tables of address 0, with the last-level table empty.\<close>

definition tables_machine :: Machine where
  "tables_machine = \<lparr>mc_ram = wr64 (wr64 (wr64 (\<lambda>_. 0) 0x1000 0x2007) 0x2000 0x3007) 0x3000 0x4007,
     mc_frames = Some \<lparr>fa_bitmap = \<lparr>fb_bits = [0], fb_frame_count = 0\<rparr>, fa_buddy = buddy_new 1,
       fa_total_frames = 0\<rparr>\<rparr>"

lemma pt_tree_single:
  assumes "is_page a" "cell m a 0 = v" "v AND PF_PRESENT \<noteq> 0" "v AND PTE_ADDR = b"
    "\<And>j. j < PT_ENTRIES \<Longrightarrow> j \<noteq> 0 \<Longrightarrow> cell m a j = 0" "pt_tree m n b S" "a \<notin> S"
  shows "pt_tree m (Suc n) a (insert a S)"
  unfolding pt_tree.simps
proof (intro conjI exI [of _ "(\<lambda>_. {})(0 := S)"])
  have "(0 :: nat) < PT_ENTRIES" by (simp add: PT_ENTRIES_def)
  then show "insert a S = insert a (\<Union>i<PT_ENTRIES. ((\<lambda>_. {})(0 := S)) i)"
    by (auto split: if_splits)
qed (use assms in auto)

lemma tables_cells:
  assumes "is_page x" "j < PT_ENTRIES"
  shows "cell (mc_ram tables_machine) x j =
    (if j = 0 then if x = 0x3000 then 0x4007 else if x = 0x2000 then 0x3007
       else if x = 0x1000 then 0x2007 else 0 else 0)"
proof -
  have pages: "is_page 0x1000" "is_page 0x2000" "is_page 0x3000" by (simp_all add: is_page_def)
  have 0: "(0 :: nat) < PT_ENTRIES" by (simp add: PT_ENTRIES_def)
  have w: "cell (wr64 m p v) x j = (if p = x \<and> 0 = j then v else cell m x j)" if "is_page p" for m p v
    using cell_wr_entry [OF that assms(1) 0 assms(2), of m v] by simp
  show ?thesis
    unfolding tables_machine_def Machine.simps w [OF pages(3)] w [OF pages(2)] w [OF pages(1)] cell_zero_mem
    by auto
qed

lemma tables_ok:
  "vm_ok 0x1000 tables_machine"
  "find_table (mc_ram tables_machine) 0x1000 (walk_path 0) = Some 0x4000"
proof -
  let ?m = "mc_ram tables_machine"
  have pages: "is_page 0x1000" "is_page 0x2000" "is_page 0x3000" "is_page 0x4000"
    by (simp_all add: is_page_def)
  have 0: "(0 :: nat) < PT_ENTRIES" by (simp add: PT_ENTRIES_def)
  note c = tables_cells [OF pages(1)] tables_cells [OF pages(2)] tables_cells [OF pages(3)]
  have 1: "pt_tree ?m 0 0x4000 {0x4000}" using pages by simp
  have 2: "pt_tree ?m (Suc 0) 0x3000 {0x3000, 0x4000}"
    by (rule pt_tree_single [OF pages(3) _ _ _ _ 1, where v = "0x4007"])
      (simp_all only: c 0, simp_all add: PF_PRESENT_def PTE_ADDR_def)
  have 3: "pt_tree ?m (Suc (Suc 0)) 0x2000 {0x2000, 0x3000, 0x4000}"
    by (rule pt_tree_single [OF pages(2) _ _ _ _ 2, where v = "0x3007"])
      (simp_all only: c 0, simp_all add: PF_PRESENT_def PTE_ADDR_def)
  have 4: "pt_tree ?m 3 0x1000 {0x1000, 0x2000, 0x3000, 0x4000}"
    unfolding numeral_3_eq_3
    by (rule pt_tree_single [OF pages(1) _ _ _ _ 3, where v = "0x2007"])
      (simp_all only: c 0, simp_all add: PF_PRESENT_def PTE_ADDR_def)
  have "frames_ready (mc_frames tables_machine)"
    by (auto simp: frames_ready_def tables_machine_def fb_ok_def)
  moreover have "frames_avail (mc_frames tables_machine) = {}"
    by (simp add: frames_avail_def tables_machine_def frees_def)
  ultimately show "vm_ok 0x1000 tables_machine" using 4 unfolding vm_ok_def by blast
  show "find_table ?m 0x1000 (walk_path 0) = Some 0x4000"
    using c [OF 0] by (simp add: walk_path_def page_indices_def numeral_3_eq_3 PF_PRESENT_def PTE_ADDR_def)
qed

theorem map_unmap_roundtrip_witness:
  "\<exists>mc' mc''. map_page 0x1000 0 0x5000 PF_PRESENT tables_machine = Some (Inr (), mc') \<and>
     unmap_page 0x1000 0 mc' = Some (Inr 0x5000, mc'') \<and>
     (\<forall>v. resolve 0x1000 v mc'' = resolve 0x1000 v tables_machine)"
proof -
  let ?mc = tables_machine
  have 0: "(0 :: nat) < PT_ENTRIES" by (simp add: PT_ENTRIES_def)
  have slot: "pt_slot 0 = 0" by (simp add: pt_slot_def page_indices_def)
  have "pte (mc_ram ?mc) 0x1000 0 = 0"
    using tables_cells [of "0x4000" 0] 0
    by (simp add: pte_def leaf_def tables_ok(2) slot is_page_def)
  then have "rd64 (mc_ram ?mc) 0x4000 = 0"
    by (simp add: pte_def leaf_def tables_ok(2) slot cell_def)
  moreover have "walk_levels (alloc_frame local_node) True 0x1000 (walk_path 0) (mc_ram ?mc, mc_frames ?mc) =
      Some (Inr 0x4000, mc_ram ?mc, mc_frames ?mc)"
    by (rule walk_found) (rule tables_ok(2))
  then have "walk_mut 0x1000 0 True ?mc = Some (Inr 0x4000, ?mc)"
    using slot by (simp add: walk_mut_def pt_slot_def)
  ultimately have m: "map_page 0x1000 0 0x5000 PF_PRESENT ?mc =
      Some (Inr (), ?mc\<lparr>mc_ram := wr64 (mc_ram ?mc) 0x4000 (0x5000 OR PF_PRESENT)\<rparr>)"
    by (simp add: map_page_def)
  have p: "is_page 0x5000" "valid_flags PF_PRESENT" "PF_PRESENT AND PF_PRESENT \<noteq> 0"
    by (simp_all add: is_page_def valid_flags_def page_flag_defs PAGE_FLAGS_ALL_def)
  from map_unmap_roundtrip [OF tables_ok(1) p m] m show ?thesis by blast
qed

end
