(* ===== verification/Vma.thy ===== *)
theory Vma
  imports Layout "HOL-Library.Multiset"
begin

text \<open>
  The virtual memory areas of an address space, \<^verbatim>\<open>src/kernel/src/mm/vma.rs\<close>: an array of 256
  optional areas with a count, kept sorted by start address by an insertion sort after every
  insertion and compacted after every removal. The lemmas show that the array refines a sorted
  list of disjoint areas, that the first-fit search for a gap ends and is right whenever the
  addresses it tries do not overflow, and what each operation does on its error branches.
\<close>

subsection \<open>Areas\<close>

datatype VmaKind = Anonymous | FileBacked | Stack | Heap | Mmap | Framebuffer

record Vma =
  v_start :: u64
  v_end :: u64
  v_prot :: u32
  v_flags :: u32
  v_kind :: VmaKind
  v_file_offset :: u64
  v_shared :: bool
  v_populated :: bool

definition vma_new :: "u64 \<Rightarrow> u64 \<Rightarrow> u32 \<Rightarrow> u32 \<Rightarrow> VmaKind \<Rightarrow> Vma" where
  "vma_new start len prot flags kind =
     \<lparr>v_start = start, v_end = start + len, v_prot = prot, v_flags = flags, v_kind = kind,
      v_file_offset = 0, v_shared = contains flags MAP_SHARED,
      v_populated = contains flags MAP_POPULATE\<rparr>"

definition vma_length :: "Vma \<Rightarrow> u64" where
  "vma_length v = v_end v - v_start v"

definition vma_contains :: "Vma \<Rightarrow> u64 \<Rightarrow> bool" where
  "vma_contains v addr \<longleftrightarrow> addr \<ge> v_start v \<and> addr < v_end v"

definition page_count :: "Vma \<Rightarrow> u64" where
  "page_count v = align_up (vma_length v) PAGE_SIZE div PAGE_SIZE"

subsection \<open>The array of areas\<close>

datatype VmaError = NoSpace | NotFound | Overlap

definition MAX_VMAS :: nat where "MAX_VMAS = 256"

record VmaTree =
  vt_entries :: "Vma option list"
  vt_len :: nat

definition vma_tree_new :: VmaTree where
  "vma_tree_new = \<lparr>vt_entries = replicate MAX_VMAS None, vt_len = 0\<rparr>"

text \<open>\<open>self.entries.iter().take(self.len).flatten()\<close>\<close>

definition vma_iter :: "VmaTree \<Rightarrow> Vma list" where
  "vma_iter t = List.map_filter id (take (vt_len t) (vt_entries t))"

definition overlaps :: "VmaTree \<Rightarrow> u64 \<Rightarrow> u64 \<Rightarrow> bool" where
  "overlaps t start end \<longleftrightarrow> list_ex (\<lambda>v. start < v_end v \<and> end > v_start v) (vma_iter t)"

definition swap :: "'a list \<Rightarrow> nat \<Rightarrow> nat \<Rightarrow> 'a list run" where
  "swap xs i j = do { x \<leftarrow> idx xs i; y \<leftarrow> idx xs j; xs \<leftarrow> set_idx xs i y; set_idx xs j x }"

fun sift_left :: "Vma option list \<Rightarrow> nat \<Rightarrow> Vma option list run" where
  "sift_left es 0 = Some es"
| "sift_left es (Suc j) = do {
     l \<leftarrow> idx es j; left \<leftarrow> l;
     r \<leftarrow> idx es (Suc j); right \<leftarrow> r;
     if v_start left \<le> v_start right then Some es
     else do { es \<leftarrow> swap es j (Suc j); sift_left es j } }"

fun sort_loop :: "Vma option list \<Rightarrow> nat list \<Rightarrow> Vma option list run" where
  "sort_loop es [] = Some es"
| "sort_loop es (i # is) = do { es \<leftarrow> sift_left es i; sort_loop es is }"

definition sort_entries :: "VmaTree \<Rightarrow> VmaTree run" where
  "sort_entries t = do { es \<leftarrow> sort_loop (vt_entries t) [1..<vt_len t]; Some (t\<lparr>vt_entries := es\<rparr>) }"

definition vma_insert :: "VmaTree \<Rightarrow> Vma \<Rightarrow> ((VmaError, unit) result \<times> VmaTree) run" where
  "vma_insert t vma =
     (if vt_len t \<ge> MAX_VMAS \<or> overlaps t (v_start vma) (v_end vma) then Some (Inl NoSpace, t)
      else do {
        es \<leftarrow> set_idx (vt_entries t) (vt_len t) (Some vma);
        t \<leftarrow> sort_entries (t\<lparr>vt_entries := es, vt_len := vt_len t + 1\<rparr>);
        Some (Inr (), t) })"

fun compact_loop :: "Vma option list \<Rightarrow> nat \<Rightarrow> nat list \<Rightarrow> (Vma option list \<times> nat) run" where
  "compact_loop es out [] = Some (es, out)"
| "compact_loop es out (i # is) = do {
     e \<leftarrow> idx es i;
     if e \<noteq> None then do {
       es \<leftarrow> (if out \<noteq> i then set_idx es out e else Some es);
       compact_loop es (out + 1) is }
     else compact_loop es out is }"

definition compact :: "VmaTree \<Rightarrow> VmaTree run" where
  "compact t = do {
     (es, out) \<leftarrow> compact_loop (vt_entries t) 0 [0..<vt_len t];
     Some (t\<lparr>vt_entries := take out es @ replicate (vt_len t - out) None @ drop (vt_len t) es,
             vt_len := out\<rparr>) }"

fun vma_remove_loop :: "VmaTree \<Rightarrow> u64 \<Rightarrow> u64 \<Rightarrow> nat list \<Rightarrow> ((VmaError, Vma) result \<times> VmaTree) run" where
  "vma_remove_loop t start end [] = Some (Inl NotFound, t)"
| "vma_remove_loop t start end (i # is) = do {
     e \<leftarrow> idx (vt_entries t) i;
     (case e of
        Some vma \<Rightarrow>
          if v_start vma = start \<and> v_end vma = end then do {
            es \<leftarrow> set_idx (vt_entries t) i None;
            t \<leftarrow> compact (t\<lparr>vt_entries := es\<rparr>);
            Some (Inr vma, t) }
          else vma_remove_loop t start end is
      | None \<Rightarrow> vma_remove_loop t start end is) }"

definition vma_remove :: "VmaTree \<Rightarrow> u64 \<Rightarrow> u64 \<Rightarrow> ((VmaError, Vma) result \<times> VmaTree) run" where
  "vma_remove t start len = vma_remove_loop t start (start + len) [0..<vt_len t]"

definition vma_find :: "VmaTree \<Rightarrow> u64 \<Rightarrow> Vma option" where
  "vma_find t addr = List.find (\<lambda>v. vma_contains v addr) (vma_iter t)"

partial_function (option) find_gap_loop :: "VmaTree \<Rightarrow> u64 \<Rightarrow> u64 \<Rightarrow> u64 \<Rightarrow> u64 option run" where
  "find_gap_loop t cursor len limit =
     (if cursor + len \<le> limit then
        (if \<not> overlaps t cursor (cursor + len) then Some (Some cursor)
         else find_gap_loop t (align_up (cursor + 1) PAGE_SIZE) len limit)
      else Some None)"

definition find_gap :: "VmaTree \<Rightarrow> u64 \<Rightarrow> u64 \<Rightarrow> u64 \<Rightarrow> u64 option run" where
  "find_gap t hint len limit = find_gap_loop t hint len limit"

definition same_range :: "u64 \<Rightarrow> u64 \<Rightarrow> Vma option \<Rightarrow> bool" where
  "same_range start end e \<longleftrightarrow> (case e of Some v \<Rightarrow> v_start v = start \<and> v_end v = end | None \<Rightarrow> False)"

definition update_prot :: "VmaTree \<Rightarrow> u64 \<Rightarrow> u64 \<Rightarrow> u32 \<Rightarrow> (VmaError, unit) result \<times> VmaTree" where
  "update_prot t start len prot =
     (case position (same_range start (start + len)) (take (vt_len t) (vt_entries t)) of
        None \<Rightarrow> (Inl NotFound, t)
      | Some i \<Rightarrow> (Inr (), t\<lparr>vt_entries := (vt_entries t)
                     [i := map_option (v_prot_update (\<lambda>_. prot)) (vt_entries t ! i)]\<rparr>))"

subsection \<open>The sorted list that the array represents\<close>

definition vt_rep :: "VmaTree \<Rightarrow> Vma list \<Rightarrow> bool" where
  "vt_rep t vs \<longleftrightarrow> vt_len t = length vs \<and> length vs \<le> MAX_VMAS \<and>
     vt_entries t = map Some vs @ replicate (MAX_VMAS - length vs) None"

definition apart :: "Vma \<Rightarrow> Vma \<Rightarrow> bool" where
  "apart v w \<longleftrightarrow> v_end v \<le> v_start w \<or> v_end w \<le> v_start v"

definition areas_ok :: "Vma list \<Rightarrow> bool" where
  "areas_ok vs \<longleftrightarrow> sorted (map v_start vs) \<and>
     (\<forall>i < length vs. \<forall>j < length vs. i \<noteq> j \<longrightarrow> apart (vs ! i) (vs ! j))"

definition vt_ok :: "VmaTree \<Rightarrow> bool" where
  "vt_ok t \<longleftrightarrow> (\<exists>vs. vt_rep t vs \<and> areas_ok vs)"

lemma map_filter_Some: "List.map_filter id (map Some vs) = vs"
  by (induction vs) (simp_all add: List.map_filter_simps)

lemma vma_iter_rep: "vt_rep t vs \<Longrightarrow> vma_iter t = vs"
  by (simp add: vt_rep_def vma_iter_def map_filter_Some)

lemma vt_ok_iff: "vt_ok t \<longleftrightarrow> vt_rep t (vma_iter t) \<and> areas_ok (vma_iter t)"
  unfolding vt_ok_def by (metis vma_iter_rep)

lemma vma_tree_new_rep: "vt_rep vma_tree_new []"
  by (simp add: vt_rep_def vma_tree_new_def)

lemma vma_tree_new_ok: "vt_ok vma_tree_new"
  unfolding vt_ok_def using vma_tree_new_rep by (auto simp: areas_ok_def)

lemma apart_sym: "apart v w \<Longrightarrow> apart w v"
  by (auto simp: apart_def)

lemma areas_ok_pairwise:
  "areas_ok vs \<longleftrightarrow> sorted (map v_start vs) \<and> sorted_wrt apart vs"
  by (auto simp: areas_ok_def sorted_wrt_iff_nth_less) (metis apart_sym linorder_neqE_nat)

lemma overlaps_rep:
  "vt_rep t vs \<Longrightarrow> overlaps t a b \<longleftrightarrow> (\<exists>v \<in> set vs. a < v_end v \<and> v_start v < b)"
  by (simp add: overlaps_def vma_iter_rep list_ex_iff)

subsection \<open>Insertion sort\<close>

fun ins :: "Vma \<Rightarrow> Vma list \<Rightarrow> Vma list" where
  "ins v [] = [v]"
| "ins v (x # xs) = (if v_start x \<le> v_start v then x # ins v xs else v # x # xs)"

lemma ins_snoc:
  "sorted (map v_start (xs @ [x])) \<Longrightarrow>
   ins v (xs @ [x]) = (if v_start x \<le> v_start v then xs @ [x, v] else ins v xs @ [x])"
  by (induction xs) (auto simp: sorted_append)

lemma ins_last: "\<forall>x \<in> set xs. v_start x \<le> v_start v \<Longrightarrow> ins v xs = xs @ [v]"
  by (induction xs) auto

lemma mset_ins [simp]: "mset (ins v xs) = add_mset v (mset xs)"
  by (induction xs) auto

lemma set_ins [simp]: "set (ins v xs) = insert v (set xs)"
  by (induction xs) auto

lemma length_ins [simp]: "length (ins v xs) = Suc (length xs)"
  by (induction xs) auto

lemma sorted_ins: "sorted (map v_start xs) \<Longrightarrow> sorted (map v_start (ins v xs))"
  by (induction xs) auto

lemma apart_ins:
  "sorted_wrt apart xs \<Longrightarrow> \<forall>x \<in> set xs. apart v x \<Longrightarrow> sorted_wrt apart (ins v xs)"
  by (induction xs) (auto intro: apart_sym)

lemma swap_adjacent:
  "length xs = j \<Longrightarrow> swap (xs @ x # y # ys) j (Suc j) = Some (xs @ y # x # ys)"
  by (simp add: swap_def nth_append list_update_append)

lemma sift_left_ins:
  "sorted (map v_start xs) \<Longrightarrow>
   sift_left (map Some xs @ Some v # ys) (length xs) = Some (map Some (ins v xs) @ ys)"
proof (induction xs arbitrary: ys rule: rev_induct)
  case Nil
  then show ?case by simp
next
  case (snoc x xs)
  let ?es = "map Some xs @ Some x # Some v # ys"
  have at: "idx ?es (length xs) = Some (Some x)" "idx ?es (Suc (length xs)) = Some (Some v)"
    by (simp_all add: idx_def nth_append)
  have sw: "swap ?es (length xs) (Suc (length xs)) = Some (map Some xs @ Some v # Some x # ys)"
    by (rule swap_adjacent) simp
  show ?case
    using snoc ins_snoc [OF snoc.prems, of v] at sw
    by (simp add: sorted_append)
qed

lemma sort_loop_sorted:
  "sorted (map v_start xs) \<Longrightarrow> n \<le> length xs \<Longrightarrow> sort_loop (map Some xs @ ys) [i..<n] = Some (map Some xs @ ys)"
proof (induction "n - i" arbitrary: i)
  case 0
  then show ?case by simp
next
  case (Suc k)
  then have i: "i < n" "i < length xs" by simp_all
  have split: "map Some xs @ ys = map Some (take i xs) @ Some (xs ! i) # map Some (drop (Suc i) xs) @ ys"
    using i by (metis Cons_eq_appendI append_assoc id_take_nth_drop list.simps(9) map_append)
  have "sorted (map v_start (take i xs))"
    using Suc.prems(1) by (simp add: sorted_wrt_take flip: take_map)
  moreover have "ins (xs ! i) (take i xs) = take i xs @ [xs ! i]"
    by (rule ins_last)
      (use Suc.prems(1) i in \<open>auto simp: in_set_conv_nth sorted_iff_nth_mono\<close>)
  ultimately have "sift_left (map Some xs @ ys) i = Some (map Some xs @ ys)"
    using sift_left_ins [of "take i xs" "xs ! i" "map Some (drop (Suc i) xs) @ ys"] i
    by (simp add: split [symmetric] min.absorb2)
  moreover have "sort_loop (map Some xs @ ys) [Suc i..<n] = Some (map Some xs @ ys)"
    using Suc by simp
  ultimately show ?case using i by (simp add: upt_conv_Cons)
qed

lemma sort_loop_append:
  "sort_loop es (is @ js) = do { es \<leftarrow> sort_loop es is; sort_loop es js }"
proof (induction es "is" rule: sort_loop.induct)
  case (2 es i "is")
  then show ?case by (cases "sift_left es i") simp_all
qed simp

lemma sort_loop_ins:
  assumes "sorted (map v_start xs)"
  shows "sort_loop (map Some xs @ Some v # ys) [1..<Suc (length xs)] = Some (map Some (ins v xs) @ ys)"
proof (cases xs)
  case Nil
  then show ?thesis by simp
next
  case (Cons x xs')
  then have "[1..<Suc (length xs)] = [1..<length xs] @ [length xs]" by simp
  then show ?thesis
    using sort_loop_sorted [OF assms, of "length xs" "Some v # ys" 1] sift_left_ins [OF assms]
    by (simp add: sort_loop_append)
qed

lemma replicate_split: "0 < n \<Longrightarrow> replicate n x = x # replicate (n - 1) x"
  by (cases n) simp_all

lemma vma_insert_rep:
  assumes "vt_rep t vs" "sorted (map v_start vs)"
  shows "vma_insert t v =
    (if length vs = MAX_VMAS \<or> (\<exists>w \<in> set vs. v_start v < v_end w \<and> v_start w < v_end v)
     then Some (Inl NoSpace, t)
     else Some (Inr (), \<lparr>vt_entries = map Some (ins v vs) @ replicate (MAX_VMAS - Suc (length vs)) None,
                         vt_len = Suc (length vs)\<rparr>))"
proof (cases "length vs = MAX_VMAS \<or> overlaps t (v_start v) (v_end v)")
  case True
  with assms(1) overlaps_rep [OF assms(1)] show ?thesis
    by (auto simp: vma_insert_def vt_rep_def)
next
  case False
  then have lt: "length vs < MAX_VMAS" and rep: "vt_len t = length vs"
    "vt_entries t = map Some vs @ None # replicate (MAX_VMAS - Suc (length vs)) None"
    using assms(1) by (auto simp: vt_rep_def replicate_split)
  have upd: "set_idx (vt_entries t) (vt_len t) (Some v) =
      Some (map Some vs @ Some v # replicate (MAX_VMAS - Suc (length vs)) None)"
    using rep lt by (simp add: set_idx_def list_update_append)
  have "sort_entries (t\<lparr>vt_entries := map Some vs @ Some v # replicate (MAX_VMAS - Suc (length vs)) None,
        vt_len := vt_len t + 1\<rparr>) =
      Some \<lparr>vt_entries = map Some (ins v vs) @ replicate (MAX_VMAS - Suc (length vs)) None,
        vt_len = Suc (length vs)\<rparr>"
    using sort_loop_ins [OF assms(2), of v] rep(1) by (cases t) (simp add: sort_entries_def del: upt_Suc)
  then show ?thesis
    using False lt rep(1) upd overlaps_rep [OF assms(1), of "v_start v" "v_end v"]
    by (simp add: vma_insert_def)
qed

subsection \<open>Removal\<close>

lemma compact_loop_correct:
  "out \<le> i \<Longrightarrow> i \<le> n \<Longrightarrow> n \<le> length es \<Longrightarrow>
   \<exists>es'. compact_loop es out [i..<n] =
           Some (es', out + length (filter (\<lambda>e. e \<noteq> None) (take (n - i) (drop i es)))) \<and>
         length es' = length es \<and> drop n es' = drop n es \<and>
         take (out + length (filter (\<lambda>e. e \<noteq> None) (take (n - i) (drop i es)))) es' =
           take out es @ filter (\<lambda>e. e \<noteq> None) (take (n - i) (drop i es))"
proof (induction "n - i" arbitrary: i out es)
  case 0
  then show ?case by simp
next
  case (Suc k)
  then have i: "i < n" "i < length es" by simp_all
  then have upt: "[i..<n] = i # [Suc i..<n]" by (simp add: upt_conv_Cons)
  have tk: "take (n - i) (drop i es) = es ! i # take (n - Suc i) (drop (Suc i) es)"
    using i by (simp add: Cons_nth_drop_Suc [symmetric] Suc_diff_Suc [symmetric] del: Cons_nth_drop_Suc)
  show ?case
  proof (cases "es ! i")
    case None
    with Suc.hyps(1) [of "Suc i" out es] Suc.hyps(2) Suc.prems i upt tk show ?thesis by simp
  next
    case (Some v)
    define es1 where "es1 = (if out \<noteq> i then es[out := es ! i] else es)"
    have es1: "length es1 = length es" "drop (Suc i) es1 = drop (Suc i) es" "drop n es1 = drop n es"
      "take (Suc out) es1 = take out es @ [es ! i]"
      using Suc.prems(1) i by (auto simp: es1_def take_Suc_conv_app_nth)
    have step: "compact_loop es out [i..<n] = compact_loop es1 (Suc out) [Suc i..<n]"
      using Some i Suc.prems(1) by (auto simp: upt es1_def)
    from Suc.hyps(1) [of "Suc i" "Suc out" es1] Suc.hyps(2) Suc.prems(1,3) i es1 step Some tk
    show ?thesis by simp
  qed
qed

lemma compact_rep:
  assumes "vt_entries t = es @ replicate (MAX_VMAS - length es) None" "vt_len t = length es"
    "length es \<le> MAX_VMAS" "filter (\<lambda>e. e \<noteq> None) es = map Some vs"
  shows "\<exists>t'. compact t = Some t' \<and> vt_rep t' vs"
proof -
  have len: "length vs \<le> length es"
    using assms(4) length_filter_le [of "\<lambda>e. e \<noteq> None" es] by simp
  have tk: "take (length es - 0) (drop 0 (vt_entries t)) = es" using assms(1) by simp
  obtain es' where es': "compact_loop (vt_entries t) 0 [0..<length es] = Some (es', length vs)"
    "length es' = length (vt_entries t)" "drop (length es) es' = drop (length es) (vt_entries t)"
    "take (length vs) es' = map Some vs"
    using compact_loop_correct [of 0 0 "length es" "vt_entries t"] assms(1,4) tk by auto
  have "replicate (length es - length vs) None @ replicate (MAX_VMAS - length es) None =
      replicate (MAX_VMAS - length vs) (None :: Vma option)"
    using len assms(3) by (simp add: replicate_add [symmetric])
  with es' assms len show ?thesis by (simp add: compact_def vt_rep_def)
qed

lemma vma_remove_loop_skip:
  "vt_rep t vs \<Longrightarrow> n \<le> length vs \<Longrightarrow> \<forall>i < n. \<not> same_range s e (Some (vs ! i)) \<Longrightarrow> j \<le> n \<Longrightarrow>
   vma_remove_loop t s e [j..<length vs] = vma_remove_loop t s e [n..<length vs]"
proof (induction "n - j" arbitrary: j)
  case 0
  then show ?case by simp
next
  case (Suc k)
  then have "j < n" "j < length vs" by simp_all
  with Suc show ?case
    by (auto simp: upt_conv_Cons vt_rep_def idx_def nth_append same_range_def)
qed

lemma filter_Some_None:
  "i < length vs \<Longrightarrow> filter (\<lambda>e. e \<noteq> None) ((map Some vs)[i := None]) = map Some (take i vs @ drop (Suc i) vs)"
proof (induction vs arbitrary: i)
  case Nil
  then show ?case by simp
next
  case (Cons v vs)
  have "filter (\<lambda>e. e \<noteq> None) (map Some vs) = map Some vs"
    by (induction vs) auto
  with Cons show ?case by (cases i) auto
qed

lemma vma_remove_rep:
  assumes rep: "vt_rep t vs"
  shows "case position (\<lambda>v. v_start v = s \<and> v_end v = s + n) vs of
      None \<Rightarrow> vma_remove t s n = Some (Inl NotFound, t)
    | Some i \<Rightarrow> \<exists>t'. vma_remove t s n = Some (Inr (vs ! i), t') \<and>
        vt_rep t' (take i vs @ drop (Suc i) vs)"
proof (cases "position (\<lambda>v. v_start v = s \<and> v_end v = s + n) vs")
  case None
  then have "\<forall>i < length vs. \<not> same_range s (s + n) (Some (vs ! i))"
    by (auto simp: position_None same_range_def)
  with vma_remove_loop_skip [OF rep, of "length vs" s "s + n" 0] None rep show ?thesis
    by (simp add: vma_remove_def vt_rep_def)
next
  case (Some i)
  then have i: "i < length vs" "v_start (vs ! i) = s" "v_end (vs ! i) = s + n"
    and before: "\<forall>j < i. \<not> same_range s (s + n) (Some (vs ! j))"
    by (auto simp: position_Some same_range_def)
  let ?t1 = "t\<lparr>vt_entries := (vt_entries t)[i := None]\<rparr>"
  have "vt_entries ?t1 = (map Some vs)[i := None] @ replicate (MAX_VMAS - length ((map Some vs)[i := None])) None"
    using rep i by (simp add: vt_rep_def list_update_append)
  moreover have "vt_len ?t1 = length ((map Some vs)[i := None])"
    "length ((map Some vs)[i := None]) \<le> MAX_VMAS"
    using rep by (simp_all add: vt_rep_def)
  ultimately obtain t' where t': "compact ?t1 = Some t'" "vt_rep t' (take i vs @ drop (Suc i) vs)"
    using compact_rep [of ?t1 "(map Some vs)[i := None]"] filter_Some_None [OF i(1)] by blast
  have "vma_remove_loop t s (s + n) [0..<length vs] = vma_remove_loop t s (s + n) [i..<length vs]"
    using vma_remove_loop_skip [OF rep, of i s "s + n" 0] i before by simp
  moreover have "idx (vt_entries t) i = Some (Some (vs ! i))"
    "set_idx (vt_entries t) i None = Some ((vt_entries t)[i := None])"
    using rep i by (auto simp: vt_rep_def idx_def nth_append set_idx_def)
  ultimately have "vma_remove t s n = Some (Inr (vs ! i), t')"
    using i t' rep by (simp add: vma_remove_def vt_rep_def upt_conv_Cons)
  with Some t' show ?thesis by auto
qed

subsection \<open>The search for a gap\<close>

text \<open>The addresses that \<open>find_gap\<close> tries: the hint and every page boundary above it.\<close>

definition tried :: "u64 \<Rightarrow> u64 \<Rightarrow> bool" where
  "tried hint h \<longleftrightarrow> hint \<le> h \<and> (h = hint \<or> 4096 dvd unat h)"

lemma next_page:
  assumes "unat c + 2 ^ 12 < 2 ^ 64"
  shows "unat (align_up (c + 1) PAGE_SIZE) = (unat c div 4096 + 1) * 4096"
proof -
  have c1: "unat (c + 1) = unat c + 1"
    using unat_add_small [of c 1] assms by simp
  have "unat (align_up (c + 1) (2 ^ 12)) = (unat (c + 1) + (2 ^ 12 - 1)) div 2 ^ 12 * 2 ^ 12"
    by (rule unat_align_up) (use assms c1 in simp_all)
  moreover have "PAGE_SIZE = 2 ^ 12" by (simp add: PAGE_SIZE_def)
  moreover have "(unat c + 1 + (2 ^ 12 - 1)) div 2 ^ 12 = unat c div 4096 + 1" by simp
  ultimately show ?thesis by (simp only: c1) simp
qed

lemma tried_next:
  assumes "unat c + 2 ^ 12 < 2 ^ 64"
  shows "tried c h \<longleftrightarrow> h = c \<or> tried (align_up (c + 1) PAGE_SIZE) h"
    and "c < align_up (c + 1) PAGE_SIZE"
proof -
  let ?c' = "align_up (c + 1) PAGE_SIZE"
  have c': "unat ?c' = (unat c div 4096 + 1) * 4096" by (rule next_page) (rule assms)
  have "unat c < (unat c div 4096 + 1) * 4096"
    using dividend_less_div_times [of 4096 "unat c"] by simp
  then show lt: "c < ?c'" using c' by (simp add: word_less_nat_alt)
  have "4096 dvd unat ?c'" using c' by simp
  moreover have "unat ?c' \<le> unat h" if mult: "4096 dvd unat h" and above: "unat c < unat h"
  proof -
    obtain k where "unat h = 4096 * k" using mult by (elim dvdE)
    then have "unat c < k * 4096" using above by simp
    then have "unat c div 4096 < k" by (rule less_mult_imp_div_less)
    then have "(unat c div 4096 + 1) * 4096 \<le> k * 4096" by (intro mult_le_mono1) simp
    then show ?thesis using c' \<open>unat h = 4096 * k\<close> by linarith
  qed
  ultimately show "tried c h \<longleftrightarrow> h = c \<or> tried ?c' h"
    using lt by (auto simp: tried_def word_le_nat_alt word_less_nat_alt le_less
        dest: unsigned_word_eqI)
qed

lemma find_gap_loop_correct:
  "unat c + unat len < 2 ^ 64 \<Longrightarrow> unat limit + 2 ^ 12 < 2 ^ 64 \<Longrightarrow>
   \<exists>r. find_gap_loop t c len limit = Some r \<and>
     (case r of
        Some g \<Rightarrow> tried c g \<and> unat g + unat len \<le> unat limit \<and> \<not> overlaps t g (g + len) \<and>
          (\<forall>h < g. tried c h \<longrightarrow> overlaps t h (h + len))
      | None \<Rightarrow> \<forall>h. tried c h \<and> unat h + unat len \<le> unat limit \<longrightarrow> overlaps t h (h + len))"
proof (induction "unat limit - unat c" arbitrary: c rule: less_induct)
  case less
  note fgl = find_gap_loop.simps [of t c len limit]
  have sum: "unat (c + len) = unat c + unat len"
    by (rule unat_add_small) (use less.prems in simp)
  show ?case
  proof (cases "c + len \<le> limit")
    case False
    have "\<not> unat h + unat len \<le> unat limit" if "tried c h" for h
      using that False sum by (auto simp: tried_def word_le_nat_alt)
    then show ?thesis using fgl False by auto
  next
    case True
    then have le: "unat c + unat len \<le> unat limit" by (simp add: word_le_nat_alt sum)
    show ?thesis
    proof (cases "overlaps t c (c + len)")
      case False
      have "\<not> tried c h" if "h < c" for h using that by (auto simp: tried_def)
      then show ?thesis using fgl True False le by (auto simp: tried_def)
    next
      case ov: True
      let ?c' = "align_up (c + 1) PAGE_SIZE"
      have small: "unat c + 2 ^ 12 < 2 ^ 64" using le less.prems by linarith
      have c': "unat ?c' = (unat c div 4096 + 1) * 4096" by (rule next_page) (rule small)
      have up: "unat ?c' \<le> unat c + 4096"
        using c' div_times_less_eq_dividend [of "unat c" 4096] by simp
      have lt: "unat c < unat ?c'" using tried_next(2) [OF small] by (simp add: word_less_nat_alt)
      have "\<exists>r. find_gap_loop t ?c' len limit = Some r \<and>
         (case r of
            Some g \<Rightarrow> tried ?c' g \<and> unat g + unat len \<le> unat limit \<and> \<not> overlaps t g (g + len) \<and>
              (\<forall>h < g. tried ?c' h \<longrightarrow> overlaps t h (h + len))
          | None \<Rightarrow> \<forall>h. tried ?c' h \<and> unat h + unat len \<le> unat limit \<longrightarrow> overlaps t h (h + len))"
      proof (cases "unat c < unat limit")
        case True
        then show ?thesis using less.hyps [of ?c'] lt up le less.prems by simp
      next
        case False
        then have "unat limit < unat (?c' + len)" "\<not> tried ?c' h \<or> unat limit < unat h" for h
          using lt le unat_add_small [of ?c' len] up less.prems(2)
          by (auto simp: tried_def word_le_nat_alt)
        then show ?thesis
          using find_gap_loop.simps [of t ?c' len limit] by (fastforce simp: word_le_nat_alt not_le)
      qed
      then show ?thesis
        using fgl True ov tried_next(1) [OF small] by (auto split: option.splits)
    qed
  qed
qed

subsection \<open>Properties\<close>

lemma vma_insert_cases:
  assumes "vt_ok t"
  shows "\<exists>r t'. vma_insert t v = Some (r, t') \<and> vt_ok t' \<and>
    (case r of
       Inl e \<Rightarrow> e = NoSpace \<and> t' = t \<and>
         (length (vma_iter t) = MAX_VMAS \<or> (\<exists>w \<in> set (vma_iter t). v_start v < v_end w \<and> v_start w < v_end v))
     | Inr _ \<Rightarrow> mset (vma_iter t') = add_mset v (mset (vma_iter t)) \<and>
         (\<forall>w \<in> set (vma_iter t). apart v w))"
proof -
  let ?vs = "vma_iter t"
  have rep: "vt_rep t ?vs" and ok: "sorted (map v_start ?vs)" "sorted_wrt apart ?vs"
    using assms by (simp_all add: vt_ok_iff areas_ok_pairwise)
  show ?thesis
  proof (cases "length ?vs = MAX_VMAS \<or> (\<exists>w \<in> set ?vs. v_start v < v_end w \<and> v_start w < v_end v)")
    case True
    then show ?thesis using vma_insert_rep [OF rep ok(1)] assms by auto
  next
    case False
    let ?t' = "\<lparr>vt_entries = map Some (ins v ?vs) @ replicate (MAX_VMAS - Suc (length ?vs)) None,
      vt_len = Suc (length ?vs)\<rparr>"
    have ap: "\<forall>w \<in> set ?vs. apart v w" using False by (force simp: apart_def not_less)
    have "vt_rep ?t' (ins v ?vs)"
      using rep False by (auto simp: vt_rep_def)
    then have it: "vma_iter ?t' = ins v ?vs" and "vt_ok ?t'"
      using sorted_ins [OF ok(1)] apart_ins [OF ok(2) ap]
      by (simp_all add: vma_iter_rep vt_ok_def areas_ok_pairwise) blast
    moreover have "vma_insert t v = Some (Inr (), ?t')"
      using vma_insert_rep [OF rep ok(1)] False by auto
    ultimately show ?thesis using ap by auto
  qed
qed

text \<open>
  C22: \<open>VmaTree::insert\<close> on a well-formed array always returns. It is refused, without effect,
  exactly when the array is full or the new range overlaps an area; otherwise the array stays
  well formed (packed, sorted by start address, areas pairwise disjoint) and holds the old areas
  and the new one, each once.
\<close>

theorem vma_insert_correct:
  assumes "vt_ok t"
  shows "\<exists>r t'. vma_insert t v = Some (r, t') \<and> vt_ok t' \<and>
    (case r of
       Inl e \<Rightarrow> e = NoSpace \<and> t' = t \<and>
         (length (vma_iter t) = MAX_VMAS \<or> (\<exists>w \<in> set (vma_iter t). v_start v < v_end w \<and> v_start w < v_end v))
     | Inr _ \<Rightarrow> mset (vma_iter t') = add_mset v (mset (vma_iter t)) \<and>
         (\<forall>w \<in> set (vma_iter t). apart v w))"
  using assms by (rule vma_insert_cases)

theorem vma_insert_correct_witness:
  "vt_ok vma_tree_new \<and>
   (\<exists>r t'. vma_insert vma_tree_new (vma_new 0x1000 0x2000 PROT_READ MAP_PRIVATE Anonymous) = Some (r, t') \<and>
     vt_ok t' \<and> mset (vma_iter t') = {# vma_new 0x1000 0x2000 PROT_READ MAP_PRIVATE Anonymous #})"
proof -
  have empty: "vma_iter vma_tree_new = []" using vma_tree_new_rep by (rule vma_iter_rep)
  obtain r t' where "vma_insert vma_tree_new (vma_new 0x1000 0x2000 PROT_READ MAP_PRIVATE Anonymous) = Some (r, t')"
    "vt_ok t'"
    "case r of
       Inl e \<Rightarrow> e = NoSpace \<and> t' = vma_tree_new \<and>
         (length (vma_iter vma_tree_new) = MAX_VMAS \<or> (\<exists>w \<in> set (vma_iter vma_tree_new).
            v_start (vma_new 0x1000 0x2000 PROT_READ MAP_PRIVATE Anonymous) < v_end w \<and>
            v_start w < v_end (vma_new 0x1000 0x2000 PROT_READ MAP_PRIVATE Anonymous)))
     | Inr _ \<Rightarrow> mset (vma_iter t') =
         add_mset (vma_new 0x1000 0x2000 PROT_READ MAP_PRIVATE Anonymous) (mset (vma_iter vma_tree_new)) \<and>
         (\<forall>w \<in> set (vma_iter vma_tree_new). apart (vma_new 0x1000 0x2000 PROT_READ MAP_PRIVATE Anonymous) w)"
    using vma_insert_correct [OF vma_tree_new_ok] by blast
  then show ?thesis
    using vma_tree_new_ok by (auto simp: empty MAX_VMAS_def split: sum.splits)
qed

text \<open>
  C34: \<open>VmaTree::remove\<close> on a well-formed array always returns. If an area has exactly the range
  asked for, one such area is returned and taken out, and the others stay, well formed and in
  order; otherwise the error is \<open>NotFound\<close> and nothing changes.
\<close>

theorem vma_remove_correct:
  assumes "vt_ok t"
  shows "\<exists>r t'. vma_remove t start n = Some (r, t') \<and> vt_ok t' \<and>
    (case r of
       Inl e \<Rightarrow> e = NotFound \<and> t' = t \<and> \<not> (\<exists>v \<in> set (vma_iter t). v_start v = start \<and> v_end v = start + n)
     | Inr v \<Rightarrow> v_start v = start \<and> v_end v = start + n \<and>
         mset (vma_iter t) = add_mset v (mset (vma_iter t')))"
proof -
  let ?vs = "vma_iter t"
  have rep: "vt_rep t ?vs" and ok: "sorted (map v_start ?vs)" "sorted_wrt apart ?vs"
    using assms by (simp_all add: vt_ok_iff areas_ok_pairwise)
  show ?thesis
  proof (cases "position (\<lambda>v. v_start v = start \<and> v_end v = start + n) ?vs")
    case None
    then have "vma_remove t start n = Some (Inl NotFound, t)"
      using vma_remove_rep [OF rep, of start n] by simp
    with None show ?thesis using assms by (auto simp: position_None)
  next
    case (Some i)
    then have i: "i < length ?vs" "v_start (?vs ! i) = start" "v_end (?vs ! i) = start + n"
      by (simp_all add: position_Some)
    let ?ws = "take i ?vs @ drop (Suc i) ?vs"
    obtain t' where t': "vma_remove t start n = Some (Inr (?vs ! i), t')" "vt_rep t' ?ws"
      using vma_remove_rep [OF rep, of start n] Some by auto
    have split: "?vs = take i ?vs @ ?vs ! i # drop (Suc i) ?vs" by (rule id_take_nth_drop) (rule i)
    have "sorted (map v_start ?ws)" "sorted_wrt apart ?ws"
      using ok by (subst (asm) (1 2) split, simp add: sorted_append sorted_wrt_append)+
    then have "vt_ok t'" using t'(2) by (auto simp: vt_ok_def areas_ok_pairwise)
    moreover have "mset ?vs = add_mset (?vs ! i) (mset ?ws)" by (subst split) simp
    ultimately show ?thesis using t' i vma_iter_rep [OF t'(2)] by auto
  qed
qed

text \<open>A tree with one area, for the witnesses.\<close>

definition one_area :: VmaTree where
  "one_area = \<lparr>vt_entries = Some (vma_new 0x1000 0x2000 PROT_READ MAP_PRIVATE Anonymous) #
     replicate (MAX_VMAS - 1) None, vt_len = 1\<rparr>"

lemma one_area_ok: "vt_ok one_area"
  and one_area_iter: "vma_iter one_area = [vma_new 0x1000 0x2000 PROT_READ MAP_PRIVATE Anonymous]"
proof -
  have rep: "vt_rep one_area [vma_new 0x1000 0x2000 PROT_READ MAP_PRIVATE Anonymous]"
    by (simp add: vt_rep_def one_area_def MAX_VMAS_def)
  then show "vt_ok one_area" by (auto simp: vt_ok_def areas_ok_def)
  show "vma_iter one_area = [vma_new 0x1000 0x2000 PROT_READ MAP_PRIVATE Anonymous]"
    using rep by (rule vma_iter_rep)
qed

theorem vma_remove_correct_witness:
  "vt_ok one_area \<and> (\<exists>v t'. vma_remove one_area 0x1000 0x2000 = Some (Inr v, t') \<and> vma_iter t' = [])"
proof -
  have "v_start (vma_new 0x1000 0x2000 PROT_READ MAP_PRIVATE Anonymous) = 0x1000"
    "v_end (vma_new 0x1000 0x2000 PROT_READ MAP_PRIVATE Anonymous) = 0x1000 + 0x2000"
    by (simp_all add: vma_new_def)
  moreover obtain r t' where "vma_remove one_area 0x1000 0x2000 = Some (r, t')"
    "case r of
       Inl e \<Rightarrow> e = NotFound \<and> t' = one_area \<and>
         \<not> (\<exists>v \<in> set (vma_iter one_area). v_start v = 0x1000 \<and> v_end v = 0x1000 + 0x2000)
     | Inr v \<Rightarrow> v_start v = 0x1000 \<and> v_end v = 0x1000 + 0x2000 \<and>
         mset (vma_iter one_area) = add_mset v (mset (vma_iter t'))"
    using vma_remove_correct [OF one_area_ok, of "0x1000" "0x2000"] by blast
  ultimately show ?thesis
    using one_area_ok by (cases r) (simp_all add: one_area_iter)
qed

text \<open>
  Lookup in a well-formed array: \<open>find\<close> returns an area exactly when some area contains the
  address, and it is the only one that does.
\<close>

lemma vma_find_correct:
  assumes "vt_ok t"
  shows "vma_find t addr = Some v \<longleftrightarrow> v \<in> set (vma_iter t) \<and> vma_contains v addr"
proof -
  have ap: "\<forall>i < length (vma_iter t). \<forall>j < length (vma_iter t). i \<noteq> j \<longrightarrow>
      apart (vma_iter t ! i) (vma_iter t ! j)"
    using assms by (simp add: vt_ok_iff areas_ok_def)
  have clash: "\<not> (vma_contains v addr \<and> vma_contains w addr)" if "apart v w" for v w
    using that by (auto simp: vma_contains_def apart_def)
  have uniq: "v = w" if vw: "v \<in> set (vma_iter t)" "w \<in> set (vma_iter t)"
    "vma_contains v addr" "vma_contains w addr" for v w
  proof -
    from vw(1,2) obtain i j where ij: "i < length (vma_iter t)" "vma_iter t ! i = v"
      "j < length (vma_iter t)" "vma_iter t ! j = w"
      by (auto simp: in_set_conv_nth)
    with ap clash [of v w] vw(3,4) show ?thesis by blast
  qed
  show ?thesis
  proof (cases "vma_find t addr")
    case None
    then have "\<not> vma_contains v addr" if "v \<in> set (vma_iter t)"
      using that by (simp add: vma_find_def find_None_iff)
    with None show ?thesis by auto
  next
    case (Some w)
    then have "w \<in> set (vma_iter t)" "vma_contains w addr"
      by (auto simp: vma_find_def find_Some_iff in_set_conv_nth)
    with Some uniq show ?thesis by auto
  qed
qed

text \<open>
  C26: The search for a gap ends and is a first-fit search. When the hint plus the length and the
  limit plus one page do not overflow, \<open>find_gap\<close> returns; an address it returns is the first
  of the addresses it tries (the hint, then every page boundary above it) whose range is free and
  below the limit, and if it returns none then every range it could have returned overlaps an
  area.
\<close>

theorem find_gap_first_fit:
  assumes "unat hint + unat len < 2 ^ 64" and "unat limit + 2 ^ 12 < 2 ^ 64"
  shows "\<exists>r. find_gap t hint len limit = Some r \<and>
     (case r of
        Some g \<Rightarrow> tried hint g \<and> unat g + unat len \<le> unat limit \<and> \<not> overlaps t g (g + len) \<and>
          (\<forall>h < g. tried hint h \<longrightarrow> overlaps t h (h + len))
      | None \<Rightarrow> \<forall>h. tried hint h \<and> unat h + unat len \<le> unat limit \<longrightarrow> overlaps t h (h + len))"
  unfolding find_gap_def using assms by (rule find_gap_loop_correct)

theorem find_gap_first_fit_witness:
  "\<exists>r. find_gap one_area 0x1000 0x1000 0x10000 = Some r \<and>
     (case r of
        Some g \<Rightarrow> tried 0x1000 g \<and> unat g + unat (0x1000 :: u64) \<le> unat (0x10000 :: u64) \<and>
          \<not> overlaps one_area g (g + 0x1000) \<and>
          (\<forall>h < g. tried 0x1000 h \<longrightarrow> overlaps one_area h (h + 0x1000))
      | None \<Rightarrow> \<forall>h. tried 0x1000 h \<and> unat h + unat (0x1000 :: u64) \<le> unat (0x10000 :: u64) \<longrightarrow>
          overlaps one_area h (h + 0x1000))"
  by (rule find_gap_first_fit) simp_all

text \<open>
  C40: The overflow the search does not check: a hint whose range wraps around the end of the
  address space passes the test against the limit, and is returned, however small the limit, if
  no area reaches above it.
\<close>

theorem find_gap_wraps:
  assumes "2 ^ 64 \<le> unat hint + unat len" and "unat hint + unat len - 2 ^ 64 \<le> unat limit"
    and "\<forall>v \<in> set (vma_iter t). v_end v \<le> hint"
  shows "find_gap t hint len limit = Some (Some hint)"
proof -
  have "unat (hint + len) = (unat hint + unat len) mod 2 ^ 64"
    by (simp add: unat_word_ariths)
  also have "\<dots> = unat hint + unat len - 2 ^ 64"
    using assms(1) unat_bound [of hint] unat_bound [of len]
    by (simp add: le_mod_geq)
  finally have "hint + len \<le> limit" using assms(2) by (simp add: word_le_nat_alt)
  moreover have "\<not> overlaps t hint (hint + len)"
    using assms(3) by (auto simp: overlaps_def list_ex_iff not_less)
  ultimately show ?thesis
    by (simp add: find_gap_def find_gap_loop.simps [of t hint len limit])
qed

theorem find_gap_wraps_witness:
  "find_gap one_area 0xFFFFFFFFFFFFF000 0x2000 USER_MMAP_LIMIT = Some (Some 0xFFFFFFFFFFFFF000)"
  by (rule find_gap_wraps) (simp_all add: one_area_iter vma_new_def USER_MMAP_LIMIT_def)

end
