(* ===== verification/Errno.thy ===== *)
theory Errno
  imports Bytes
begin

text \<open>
  Error codes and system call numbers, \<^verbatim>\<open>src/kernel/src/syscall/errno.rs\<close> and
  \<^verbatim>\<open>src/kernel/src/syscall/nr.rs\<close>. \<open>Errno\<close> wraps an \<open>i64\<close>; the codes are small positive
  integers, kept as \<open>int\<close>, and \<open>as_neg\<close> is the value returned in \<open>rax\<close>.
\<close>

type_synonym Errno = int
type_synonym SysResult = "(Errno, int) result"

abbreviation (input) EPERM :: Errno where "EPERM \<equiv> 1"
abbreviation (input) ENOENT :: Errno where "ENOENT \<equiv> 2"
abbreviation (input) ESRCH :: Errno where "ESRCH \<equiv> 3"
abbreviation (input) EIO :: Errno where "EIO \<equiv> 5"
abbreviation (input) EBADF :: Errno where "EBADF \<equiv> 9"
abbreviation (input) EAGAIN :: Errno where "EAGAIN \<equiv> 11"
abbreviation (input) ENOMEM :: Errno where "ENOMEM \<equiv> 12"
abbreviation (input) EFAULT :: Errno where "EFAULT \<equiv> 14"
abbreviation (input) EBUSY :: Errno where "EBUSY \<equiv> 16"
abbreviation (input) EEXIST :: Errno where "EEXIST \<equiv> 17"
abbreviation (input) EINVAL :: Errno where "EINVAL \<equiv> 22"
abbreviation (input) EMFILE :: Errno where "EMFILE \<equiv> 24"
abbreviation (input) EPIPE :: Errno where "EPIPE \<equiv> 32"
abbreviation (input) ENOSYS :: Errno where "ENOSYS \<equiv> 38"
abbreviation (input) ENOEXEC :: Errno where "ENOEXEC \<equiv> 8"
abbreviation (input) ENOSPC :: Errno where "ENOSPC \<equiv> 28"
abbreviation (input) EACCES :: Errno where "EACCES \<equiv> 13"


definition as_neg :: "Errno \<Rightarrow> int" where
  "as_neg e = - e"

subsection \<open>System call numbers\<close>

abbreviation (input) SYS_READ :: u64 where "SYS_READ \<equiv> 0"
abbreviation (input) SYS_WRITE :: u64 where "SYS_WRITE \<equiv> 1"
abbreviation (input) SYS_RT_SIGRETURN :: u64 where "SYS_RT_SIGRETURN \<equiv> 15"
abbreviation (input) SYS_EXIT :: u64 where "SYS_EXIT \<equiv> 60"


end
