(* ===== verification/Vm.thy ===== *)
theory Vm
  imports Paging_Walk Vma Errno
begin

text \<open>
  Address spaces and the operations on them: \<^verbatim>\<open>src/kernel/src/mm/address_space.rs\<close>,
  \<^verbatim>\<open>src/kernel/src/mm/vm.rs\<close>, \<^verbatim>\<open>src/kernel/src/mm/fault.rs\<close>, \<^verbatim>\<open>src/kernel/src/mm/cow.rs\<close>,
  \<^verbatim>\<open>src/kernel/src/mm/aslr.rs\<close> and \<open>grow_heap\<close> of \<^verbatim>\<open>src/kernel/src/syscall/handlers/mm.rs\<close>. An operation
  takes the address space and the machine (physical memory and the frame allocator) and returns
  both. The lemmas show that a fault on an untouched page of a writable area maps a fresh zeroed
  page there and nothing else, and that copy-on-write never succeeds: the private copy is mapped
  with \<open>map_page\<close>, which refuses an address that is mapped.
\<close>

subsection \<open>Address spaces\<close>

record AddressSpace =
  as_id :: u64
  as_page_table :: u64
  as_vma :: VmaTree
  as_numa_node :: nat

record AslrEntropy =
  ae_kernel_slide :: u64
  ae_mmap_slide :: u64
  ae_stack_slide :: u64
  ae_heap_slide :: u64

abbreviation (input) KERNEL_HEAP_BASE :: u64 where "KERNEL_HEAP_BASE \<equiv> 0xFFFFC00000000000"
abbreviation (input) KERNEL_HEAP_SIZE :: u64 where "KERNEL_HEAP_SIZE \<equiv> 256 * 1024 * 1024"
abbreviation (input) RECURSIVE_INDEX :: nat where "RECURSIVE_INDEX \<equiv> 510"
abbreviation (input) MMAP_ALIGN :: u64 where "MMAP_ALIGN \<equiv> 2 * 1024 * 1024"
abbreviation (input) STACK_ALIGN :: u64 where "STACK_ALIGN \<equiv> 2 * 1024 * 1024"
abbreviation (input) HEAP_ALIGN :: u64 where "HEAP_ALIGN \<equiv> 1024 * 1024"
abbreviation (input) KERNEL_ALIGN :: u64 where "KERNEL_ALIGN \<equiv> 1024 * 1024"

text \<open>The time-stamp counter and \<open>CR3\<close> that the random number mixes are arguments; \<open>aslr_init\<close> reads
  the counter four times.\<close>

definition fallback_random :: "u64 \<Rightarrow> u64 \<Rightarrow> u64" where
  "fallback_random tsc cr3 = (tsc XOR cr3) XOR 0x5DEECE66D"

definition random_bounded :: "u64 \<Rightarrow> u64 \<Rightarrow> u64 \<Rightarrow> u64" where
  "random_bounded tsc cr3 bound = (if bound \<le> 1 then 0 else fallback_random tsc cr3 mod bound)"

definition random_page_offset :: "u64 \<Rightarrow> u64 \<Rightarrow> u64 \<Rightarrow> u64" where
  "random_page_offset tsc cr3 max_pages = random_bounded tsc cr3 max_pages * PAGE_SIZE"

definition aslr_init :: "u64 \<Rightarrow> u64 \<Rightarrow> u64 \<Rightarrow> u64 \<Rightarrow> u64 \<Rightarrow> AslrEntropy" where
  "aslr_init tsc1 tsc2 tsc3 tsc4 cr3 =
     \<lparr>ae_kernel_slide = random_bounded tsc1 cr3 256 * KERNEL_ALIGN,
      ae_mmap_slide = random_bounded tsc2 cr3 512 * MMAP_ALIGN,
      ae_stack_slide = random_bounded tsc3 cr3 256 * STACK_ALIGN,
      ae_heap_slide = random_bounded tsc4 cr3 128 * HEAP_ALIGN\<rparr>"

definition user_mmap_base :: "AslrEntropy \<Rightarrow> u64" where
  "user_mmap_base e = USER_MMAP_BASE + ae_mmap_slide e"

definition user_stack_top :: "AslrEntropy \<Rightarrow> u64" where
  "user_stack_top e = USER_STACK_TOP - ae_stack_slide e"

definition user_heap_base :: "AslrEntropy \<Rightarrow> u64" where
  "user_heap_base e = USER_HEAP_BASE + ae_heap_slide e"

definition kernel_heap_base :: "AslrEntropy \<Rightarrow> u64" where
  "kernel_heap_base e = KERNEL_HEAP_BASE + ae_kernel_slide e"

definition as_new_user :: "u64 \<Rightarrow> Machine \<Rightarrow> (AddressSpace option \<times> u64 \<times> Machine) run" where
  "as_new_user next_id mc = do {
     (r, mc) \<leftarrow> new_empty mc;
     Some (map_option (\<lambda>pt. \<lparr>as_id = next_id, as_page_table = pt, as_vma = vma_tree_new,
        as_numa_node = local_node\<rparr>) r, next_id + 1, mc) }"

text \<open>\<open>init_user_page_table\<close>, called on the new table, does nothing.\<close>

definition as_new_kernel :: "u64 \<Rightarrow> AddressSpace" where
  "as_new_kernel cr3 = \<lparr>as_id = 0, as_page_table = cr3 AND NOT 0xFFF, as_vma = vma_tree_new,
     as_numa_node = local_node\<rparr>"

definition as_init :: "AslrEntropy \<Rightarrow> u64 \<Rightarrow> AddressSpace run" where
  "as_init ent cr3 = (
     let space = as_new_kernel cr3 in do {
     (_, t) \<leftarrow> vma_insert (as_vma space) (vma_new (kernel_heap_base ent) KERNEL_HEAP_SIZE
                (PROT_READ OR PROT_WRITE) (MAP_ANONYMOUS OR MAP_PRIVATE) Heap);
     Some (space\<lparr>as_vma := t\<rparr>) })"

text \<open>The kernel's own table, set up by \<open>paging::init\<close>.\<close>

definition install_recursive_mapping :: "u64 \<Rightarrow> mem \<Rightarrow> mem" where
  "install_recursive_mapping cr3 m = (
     let cr3 = cr3 AND NOT 0xFFF; entry = cr3 + of_nat (8 * RECURSIVE_INDEX) in
     if rd64 m entry AND PF_PRESENT = 0 then wr64 m entry (cr3 OR PF_PRESENT OR PF_WRITABLE) else m)"

definition map_mmio_windows :: "u64 \<Rightarrow> u64 \<Rightarrow> Machine \<Rightarrow> Machine run" where
  "map_mmio_windows hhdm cr3 mc = (
     let table = cr3 AND NOT 0xFFF;
         flags = PF_PRESENT OR PF_WRITABLE OR PF_NO_EXECUTE OR PF_NO_CACHE in do {
     (_, mc) \<leftarrow> map_page table (hhdm + 0xFEC00000) 0xFEC00000 flags mc;
     (_, mc) \<leftarrow> map_page table (hhdm + 0xFEE00000) 0xFEE00000 flags mc;
     Some mc })"

subsection \<open>Mapping and unmapping areas\<close>

datatype VmError = InvalidArgs | VmNoMemory | VmNoSpace | VmNotFound | AccessDenied | Exists

fun map_demand_loop :: "u64 \<Rightarrow> Vma \<Rightarrow> u64 \<Rightarrow> nat list \<Rightarrow> Machine \<Rightarrow> ((VmError, unit) result \<times> Machine) run" where
  "map_demand_loop cr3 vma flags [] mc = Some (Inr (), mc)"
| "map_demand_loop cr3 vma flags (i # is) mc = do {
     (r, mc) \<leftarrow> map_page_demand cr3 (v_start vma + of_nat i * PAGE_SIZE) flags mc;
     (case r of Inl _ \<Rightarrow> Some (Inl VmNoMemory, mc) | Inr _ \<Rightarrow> map_demand_loop cr3 vma flags is mc) }"

definition map_vma_demand :: "u64 \<Rightarrow> Vma \<Rightarrow> Machine \<Rightarrow> ((VmError, unit) result \<times> Machine) run" where
  "map_vma_demand cr3 vma mc =
     map_demand_loop cr3 vma (flags_from_prot (v_prot vma) True OR PF_SOFTWARE_DEMAND)
       [0..<unat (page_count vma)] mc"

fun populate_loop :: "AddressSpace \<Rightarrow> Vma \<Rightarrow> nat list \<Rightarrow> Machine \<Rightarrow> ((VmError, unit) result \<times> Machine) run" where
  "populate_loop space vma [] mc = Some (Inr (), mc)"
| "populate_loop space vma (i # is) mc = do {
     (f, g) \<leftarrow> alloc_frame (as_numa_node space) (mc_frames mc);
     let mc = mc\<lparr>mc_frames := g\<rparr>;
     (case f of
        None \<Rightarrow> Some (Inl VmNoMemory, mc)
      | Some frame \<Rightarrow> do {
          (r, mc) \<leftarrow> map_page (as_page_table space) (v_start vma + of_nat i * PAGE_SIZE) (fd_phys frame)
                       (flags_from_prot (v_prot vma) True) mc;
          (case r of Inl _ \<Rightarrow> Some (Inl VmNoMemory, mc) | Inr _ \<Rightarrow> populate_loop space vma is mc) }) }"

definition populate_vma :: "AddressSpace \<Rightarrow> Vma \<Rightarrow> Machine \<Rightarrow> ((VmError, unit) result \<times> Machine) run" where
  "populate_vma space vma mc = populate_loop space vma [0..<unat (page_count vma)] mc"

fun unmap_loop :: "u64 \<Rightarrow> u64 \<Rightarrow> nat list \<Rightarrow> Machine \<Rightarrow> Machine run" where
  "unmap_loop cr3 start [] mc = Some mc"
| "unmap_loop cr3 start (i # is) mc = do {
     (_, mc) \<leftarrow> unmap_page cr3 (start + of_nat i * PAGE_SIZE) mc;
     unmap_loop cr3 start is mc }"

definition unmap_vma :: "u64 \<Rightarrow> Vma \<Rightarrow> Machine \<Rightarrow> Machine run" where
  "unmap_vma cr3 vma mc = unmap_loop cr3 (v_start vma) [0..<unat (page_count vma)] mc"

fun apply_prot_loop :: "u64 \<Rightarrow> u64 \<Rightarrow> u32 \<Rightarrow> nat list \<Rightarrow> Machine \<Rightarrow> Machine run" where
  "apply_prot_loop cr3 start prot [] mc = Some mc"
| "apply_prot_loop cr3 start prot (i # is) mc = do {
     let virt = start + of_nat i * PAGE_SIZE;
     r \<leftarrow> resolve cr3 virt mc;
     mc \<leftarrow> (case r of
        None \<Rightarrow> Some mc
      | Some (_, flags) \<Rightarrow> do {
          let flags = flags AND NOT (PF_WRITABLE OR PF_NO_EXECUTE OR PF_USER);
          let flags = flags OR flags_from_prot prot True;
          (_, mc) \<leftarrow> set_flags cr3 virt flags mc;
          Some mc });
     apply_prot_loop cr3 start prot is mc }"

definition apply_prot :: "u64 \<Rightarrow> u64 \<Rightarrow> u64 \<Rightarrow> u32 \<Rightarrow> Machine \<Rightarrow> Machine run" where
  "apply_prot cr3 start len prot mc = apply_prot_loop cr3 start prot [0..<unat (len div PAGE_SIZE)] mc"

definition mmap_kind :: "u32 \<Rightarrow> VmaKind" where
  "mmap_kind flags =
     (if contains flags MAP_STACK then Stack
      else if contains flags MAP_ANONYMOUS \<or> \<not> contains flags MAP_SHARED then Anonymous
      else Mmap)"

definition mmap_target :: "AslrEntropy \<Rightarrow> VmaTree \<Rightarrow> u64 \<Rightarrow> u64 \<Rightarrow> u32 \<Rightarrow> (VmError, u64) result run" where
  "mmap_target ent vmas addr len flags =
     (if contains flags MAP_FIXED then
        if contains flags MAP_FIXED_NOREPLACE \<and> vma_find vmas addr \<noteq> None then Some (Inl Exists)
        else Some (Inr addr)
      else do {
        let hint = (if addr = 0 then user_mmap_base ent else addr);
        r \<leftarrow> find_gap vmas hint len USER_MMAP_LIMIT;
        Some (case r of None \<Rightarrow> Inl VmNoSpace | Some t \<Rightarrow> Inr t) })"

definition mmap ::
  "AslrEntropy \<Rightarrow> AddressSpace \<Rightarrow> u64 \<Rightarrow> u64 \<Rightarrow> u32 \<Rightarrow> u32 \<Rightarrow> Machine \<Rightarrow>
   ((VmError, u64) result \<times> AddressSpace \<times> Machine) run" where
  "mmap ent space addr len0 prot flags mc =
     (if len0 = 0 then Some (Inl InvalidArgs, space, mc)
      else do {
        let len = align_up len0 PAGE_SIZE;
        tr \<leftarrow> mmap_target ent (as_vma space) addr len flags;
        (case tr of
           Inl e \<Rightarrow> Some (Inl e, space, mc)
         | Inr target \<Rightarrow>
             if \<not> is_user_address target \<or> target + len > USER_MMAP_LIMIT
             then Some (Inl AccessDenied, space, mc)
             else do {
               let vma = vma_new target len prot flags (mmap_kind flags);
               (r, t) \<leftarrow> vma_insert (as_vma space) vma;
               let space = space\<lparr>as_vma := t\<rparr>;
               (case r of
                  Inl NotFound \<Rightarrow> Some (Inl VmNotFound, space, mc)
                | Inl _ \<Rightarrow> Some (Inl VmNoSpace, space, mc)
                | Inr _ \<Rightarrow> do {
                    (r, mc) \<leftarrow> map_vma_demand (as_page_table space) vma mc;
                    (case r of
                       Inl e \<Rightarrow> Some (Inl e, space, mc)
                     | Inr _ \<Rightarrow>
                         if contains flags MAP_POPULATE then do {
                           (r, mc) \<leftarrow> populate_vma space vma mc;
                           Some (case r of Inl e \<Rightarrow> Inl e | Inr _ \<Rightarrow> Inr target, space, mc) }
                         else Some (Inr target, space, mc)) }) }) })"

definition munmap :: "AddressSpace \<Rightarrow> u64 \<Rightarrow> u64 \<Rightarrow> Machine \<Rightarrow> ((VmError, unit) result \<times> AddressSpace \<times> Machine) run" where
  "munmap space addr len mc =
     (if len = 0 then Some (Inl InvalidArgs, space, mc)
      else do {
        (r, t) \<leftarrow> vma_remove (as_vma space) addr (align_up len PAGE_SIZE);
        let space = space\<lparr>as_vma := t\<rparr>;
        (case r of
           Inl _ \<Rightarrow> Some (Inl VmNotFound, space, mc)
         | Inr vma \<Rightarrow> do {
             mc \<leftarrow> unmap_vma (as_page_table space) vma mc;
             Some (Inr (), space, mc) }) })"

definition mprotect_prot :: "u32 \<Rightarrow> u32" where
  "mprotect_prot prot =
     (if contains prot 1 then PROT_READ else 0) OR (if contains prot 2 then PROT_WRITE else 0) OR
     (if contains prot 4 then PROT_EXEC else 0)"

definition mprotect :: "AddressSpace \<Rightarrow> u64 \<Rightarrow> u64 \<Rightarrow> u32 \<Rightarrow> Machine \<Rightarrow> ((VmError, unit) result \<times> AddressSpace \<times> Machine) run" where
  "mprotect space addr len prot mc =
     (if len = 0 then Some (Inl InvalidArgs, space, mc)
      else do {
        let len = align_up len PAGE_SIZE;
        let prot_flags = mprotect_prot prot;
        (case update_prot (as_vma space) addr len prot_flags of
           (Inl _, t) \<Rightarrow> Some (Inl VmNotFound, space\<lparr>as_vma := t\<rparr>, mc)
         | (Inr _, t) \<Rightarrow> do {
             mc \<leftarrow> apply_prot (as_page_table space) addr len prot_flags mc;
             Some (Inr (), space\<lparr>as_vma := t\<rparr>, mc) }) })"

definition map_anonymous :: "AslrEntropy \<Rightarrow> AddressSpace \<Rightarrow> u64 \<Rightarrow> u64 \<Rightarrow> u32 \<Rightarrow> Machine \<Rightarrow> ((unit, unit) result \<times> AddressSpace \<times> Machine) run" where
  "map_anonymous ent space start len prot mc = do {
     (r, space, mc) \<leftarrow> mmap ent space start (align_up len PAGE_SIZE) prot (MAP_ANONYMOUS OR MAP_PRIVATE) mc;
     Some (case r of Inl _ \<Rightarrow> Inl () | Inr _ \<Rightarrow> Inr (), space, mc) }"

subsection \<open>Copy on write\<close>

definition copy_page :: "mem \<Rightarrow> u64 \<Rightarrow> u64 \<Rightarrow> mem" where
  "copy_page m src dst = mem_write m dst (mem_read m src 4096)"

definition is_cow :: "u64 \<Rightarrow> bool" where
  "is_cow flags \<longleftrightarrow> contains flags PF_COW"

definition cow_demand_flags :: "Vma \<Rightarrow> u64" where
  "cow_demand_flags vma = (
     let flags = flags_from_prot (v_prot vma) True OR PF_SOFTWARE_DEMAND in
     if contains (v_prot vma) PROT_WRITE then (flags AND NOT PF_WRITABLE) OR PF_COW else flags)"

fun duplicate_loop :: "u64 \<Rightarrow> u64 \<Rightarrow> Vma \<Rightarrow> nat list \<Rightarrow> Machine \<Rightarrow> (unit option \<times> Machine) run" where
  "duplicate_loop parent child vma [] mc = Some (Some (), mc)"
| "duplicate_loop parent child vma (i # is) mc = do {
     let virt = v_start vma + of_nat i * PAGE_SIZE;
     fl \<leftarrow> get_flags parent virt mc;
     (case fl of
        None \<Rightarrow> Some (None, mc)
      | Some flags \<Rightarrow>
          if contains flags PF_SOFTWARE_DEMAND then do {
            (r, mc) \<leftarrow> map_page_demand child virt (cow_demand_flags vma) mc;
            (case r of Inl _ \<Rightarrow> Some (None, mc) | Inr _ \<Rightarrow> duplicate_loop parent child vma is mc) }
          else do {
            rs \<leftarrow> resolve parent virt mc;
            (case rs of
               None \<Rightarrow> Some (None, mc)
             | Some (phys, _) \<Rightarrow> do {
                 let cow_flags = (flags AND NOT PF_WRITABLE) OR PF_COW;
                 (r, mc) \<leftarrow> set_flags parent virt cow_flags mc;
                 (case r of
                    Inl _ \<Rightarrow> Some (None, mc)
                  | Inr _ \<Rightarrow> do {
                      (r, mc) \<leftarrow> map_page child virt phys cow_flags mc;
                      (case r of Inl _ \<Rightarrow> Some (None, mc) | Inr _ \<Rightarrow> duplicate_loop parent child vma is mc) }) }) }) }"

definition duplicate_vma :: "u64 \<Rightarrow> u64 \<Rightarrow> Vma \<Rightarrow> Machine \<Rightarrow> (unit option \<times> Machine) run" where
  "duplicate_vma parent child vma mc = duplicate_loop parent child vma [0..<unat (page_count vma)] mc"

definition break_cow :: "u64 \<Rightarrow> u64 \<Rightarrow> u64 \<Rightarrow> Machine \<Rightarrow> (unit option \<times> Machine) run" where
  "break_cow table virt flags mc = do {
     rs \<leftarrow> resolve table virt mc;
     (case rs of
        None \<Rightarrow> Some (None, mc)
      | Some (phys, _) \<Rightarrow> do {
          (f, g) \<leftarrow> alloc_frame local_node (mc_frames mc);
          let mc = mc\<lparr>mc_frames := g\<rparr>;
          (case f of
             None \<Rightarrow> Some (None, mc)
           | Some frame \<Rightarrow> do {
               let mc = mc\<lparr>mc_ram := copy_page (mc_ram mc) phys (fd_phys frame)\<rparr>;
               let new_flags = (flags AND NOT PF_COW) OR (PF_WRITABLE OR PF_DIRTY);
               (r, mc) \<leftarrow> map_page table virt (fd_phys frame) new_flags mc;
               Some (case r of Inl _ \<Rightarrow> None | Inr _ \<Rightarrow> Some (), mc) }) }) }"

fun fork_loop :: "AddressSpace \<Rightarrow> AddressSpace \<Rightarrow> Vma list \<Rightarrow> Machine \<Rightarrow> (AddressSpace option \<times> Machine) run" where
  "fork_loop parent child [] mc = Some (Some child, mc)"
| "fork_loop parent child (vma # vmas) mc = do {
     (r, t) \<leftarrow> vma_insert (as_vma child) vma;
     (case r of
        Inl _ \<Rightarrow> Some (None, mc)
      | Inr _ \<Rightarrow> do {
          let child = child\<lparr>as_vma := t\<rparr>;
          (r, mc) \<leftarrow> duplicate_vma (as_page_table parent) (as_page_table child) vma mc;
          (case r of None \<Rightarrow> Some (None, mc) | Some _ \<Rightarrow> fork_loop parent child vmas mc) }) }"

definition fork_from :: "u64 \<Rightarrow> AddressSpace \<Rightarrow> Machine \<Rightarrow> (AddressSpace option \<times> u64 \<times> Machine) run" where
  "fork_from next_id parent mc = do {
     (r, next_id, mc) \<leftarrow> as_new_user next_id mc;
     (case r of
        None \<Rightarrow> Some (None, next_id, mc)
      | Some child \<Rightarrow> do {
          (r, mc) \<leftarrow> fork_loop parent (child\<lparr>as_numa_node := as_numa_node parent\<rparr>) (vma_iter (as_vma parent)) mc;
          Some (r, next_id, mc) }) }"

subsection \<open>Page faults\<close>

record PageFaultInfo =
  pf_address :: u64
  pf_error_code :: u64
  pf_write :: bool
  pf_user :: bool
  pf_instruction :: bool
  pf_present :: bool

datatype PageFaultOutcome = Handled | CowBroken | DemandPaged | ProtectionViolation | BadAddress

definition decode_error :: "u64 \<Rightarrow> u64 \<Rightarrow> PageFaultInfo" where
  "decode_error cr2 code = \<lparr>pf_address = cr2, pf_error_code = code, pf_write = (code AND 2 \<noteq> 0),
     pf_user = (code AND 4 \<noteq> 0), pf_instruction = (code AND 16 \<noteq> 0), pf_present = (code AND 1 \<noteq> 0)\<rparr>"

definition demand_page :: "AddressSpace \<Rightarrow> u64 \<Rightarrow> u32 \<Rightarrow> Machine \<Rightarrow> (PageFaultOutcome \<times> Machine) run" where
  "demand_page space virt prot mc = do {
     (f, g) \<leftarrow> alloc_frame (as_numa_node space) (mc_frames mc);
     let mc = mc\<lparr>mc_frames := g\<rparr>;
     (case f of
        None \<Rightarrow> Some (ProtectionViolation, mc)
      | Some frame \<Rightarrow> do {
          let mc = mc\<lparr>mc_ram := zero_page (mc_ram mc) (fd_phys frame)\<rparr>;
          let flags = flags_from_prot prot True;
          (r, mc) \<leftarrow> map_page (as_page_table space) virt (fd_phys frame) flags mc;
          (case r of
             Inl _ \<Rightarrow> do {
               (_, g) \<leftarrow> free_frame frame (mc_frames mc);
               Some (ProtectionViolation, mc\<lparr>mc_frames := g\<rparr>) }
           | Inr _ \<Rightarrow> Some (DemandPaged, mc)) }) }"

definition resolve_fault :: "AddressSpace \<Rightarrow> u64 \<Rightarrow> bool \<Rightarrow> bool \<Rightarrow> Machine \<Rightarrow> (PageFaultOutcome \<times> Machine) run" where
  "resolve_fault space addr wr user mc = (
     let virt = addr AND NOT (PAGE_SIZE - 1); table = as_page_table space in
     case vma_find (as_vma space) virt of
       None \<Rightarrow> Some (BadAddress, mc)
     | Some vma \<Rightarrow>
         if user \<and> \<not> contains (v_prot vma) PROT_USER then Some (ProtectionViolation, mc)
         else do {
           fl \<leftarrow> get_flags table virt mc;
           if wr \<and> \<not> contains (v_prot vma) PROT_WRITE \<and> \<not> is_cow (case fl of None \<Rightarrow> 0 | Some f \<Rightarrow> f)
           then Some (ProtectionViolation, mc)
           else case fl of
             None \<Rightarrow> demand_page space virt (v_prot vma) mc
           | Some flags \<Rightarrow>
               if contains flags PF_COW \<and> wr then do {
                 (r, mc) \<leftarrow> break_cow table virt flags mc;
                 Some (case r of Some _ \<Rightarrow> CowBroken | None \<Rightarrow> ProtectionViolation, mc) }
               else if contains flags PF_SOFTWARE_DEMAND \<or> \<not> contains flags PF_PRESENT
                 then demand_page space virt (v_prot vma) mc
               else Some (Handled, mc) })"

definition handle_page_fault :: "AddressSpace \<Rightarrow> u64 \<Rightarrow> bool \<Rightarrow> bool \<Rightarrow> Machine \<Rightarrow> (bool \<times> Machine) run" where
  "handle_page_fault space addr wr user mc = do {
     (r, mc) \<leftarrow> resolve_fault space addr wr user mc;
     Some (r = Handled \<or> r = CowBroken \<or> r = DemandPaged, mc) }"

subsection \<open>The heap\<close>

partial_function (option) grow_heap_loop ::
  "AddressSpace \<Rightarrow> u64 \<Rightarrow> u64 \<Rightarrow> Machine \<Rightarrow> ((unit, unit) result \<times> Machine) run" where
  "grow_heap_loop space page stop mc =
     (if page \<le> stop then do {
        rs \<leftarrow> resolve (as_page_table space) page mc;
        (case rs of
           Some _ \<Rightarrow> grow_heap_loop space (page + PAGE_SIZE) stop mc
         | None \<Rightarrow> do {
             (f, g) \<leftarrow> alloc_frame (as_numa_node space) (mc_frames mc);
             let mc = mc\<lparr>mc_frames := g\<rparr>;
             (case f of
                None \<Rightarrow> Some (Inl (), mc)
              | Some frame \<Rightarrow> do {
                  let mc = mc\<lparr>mc_ram := zero_page (mc_ram mc) (fd_phys frame)\<rparr>;
                  (r, mc) \<leftarrow> map_page (as_page_table space) page (fd_phys frame)
                               (PF_PRESENT OR PF_USER OR PF_WRITABLE OR PF_NO_EXECUTE) mc;
                  (case r of Inl _ \<Rightarrow> Some (Inl (), mc)
                   | Inr _ \<Rightarrow> grow_heap_loop space (page + PAGE_SIZE) stop mc) }) }) }
      else Some (Inr (), mc))"

definition grow_heap :: "AddressSpace \<Rightarrow> u64 \<Rightarrow> u64 \<Rightarrow> Machine \<Rightarrow> ((unit, unit) result \<times> AddressSpace \<times> Machine) run" where
  "grow_heap space old_brk new_brk mc = do {
     let page = align_up old_brk PAGE_SIZE;
     let page = (if page = old_brk then page + PAGE_SIZE else page);
     (r, mc) \<leftarrow> grow_heap_loop space page (align_up new_brk PAGE_SIZE) mc;
     (case r of
        Inl _ \<Rightarrow> Some (Inl (), space, mc)
      | Inr _ \<Rightarrow>
          (case vma_find (as_vma space) USER_HEAP_BASE of
             None \<Rightarrow> Some (Inr (), space, mc)
           | Some vma \<Rightarrow>
               if v_kind vma = Heap \<and> new_brk > v_end vma then do {
                 (_, t) \<leftarrow> vma_remove (as_vma space) USER_HEAP_BASE (vma_length vma);
                 (_, t) \<leftarrow> vma_insert t (vma_new USER_HEAP_BASE
                     (align_up (new_brk - USER_HEAP_BASE) PAGE_SIZE)
                     (PROT_USER OR PROT_READ OR PROT_WRITE) (MAP_PRIVATE OR MAP_ANONYMOUS) Heap);
                 Some (Inr (), space\<lparr>as_vma := t\<rparr>, mc) }
               else Some (Inr (), space, mc))) }"

fun vm_err :: "VmError \<Rightarrow> Errno" where
  "vm_err InvalidArgs = EINVAL"
| "vm_err VmNoMemory = ENOMEM"
| "vm_err VmNoSpace = ENOMEM"
| "vm_err VmNotFound = EINVAL"
| "vm_err AccessDenied = EFAULT"
| "vm_err Exists = EEXIST"


subsection \<open>A fresh frame\<close>

text \<open>Filling a frame that was just taken from the allocator disturbs no table.\<close>

lemma cell_fill:
  assumes "is_page x" "is_page y" "x \<noteq> y" "i < PT_ENTRIES" "length bs = 4096"
  shows "cell (mem_write m x bs) y i = cell m y i"
proof -
  have i: "i < 512" using assms(4) by (simp add: PT_ENTRIES_def)
  have "unat y + 8 * i + 8 \<le> unat x \<or> unat x + 4096 \<le> unat y + 8 * i"
    using page_apart [OF assms(1-3)] i by auto
  then have "mem_read (mem_write m x bs) (y + of_nat (8 * i)) 8 = mem_read m (y + of_nat (8 * i)) 8"
    using assms i by (intro mem_read_write_far) (simp_all only: cell_addr, auto simp: is_page_def)
  then show ?thesis by (simp only: cell_def rd64_def)
qed

lemma fresh_frame:
  assumes "vm_ok cr3 mc" and "alloc_frame node (mc_frames mc) = Some (Some d, g)" and "length bs = 4096"
  defines "mc' \<equiv> mc\<lparr>mc_frames := g, mc_ram := mem_write (mc_ram mc) (fd_phys d) bs\<rparr>"
  shows "vm_ok cr3 mc'" "pte (mc_ram mc') cr3 v = pte (mc_ram mc) cr3 v" "is_page (fd_phys d)"
    "fd_phys d \<in> frames_avail (mc_frames mc)" "frames_avail g = frames_avail (mc_frames mc) - {fd_phys d}"
    "data_page cr3 mc' (fd_phys d)"
    "data_page cr3 mc x \<Longrightarrow> agree (mc_ram mc) (mc_ram mc') {x} \<and> data_page cr3 mc' x"
proof -
  from assms(1) obtain S where S: "frames_ready (mc_frames mc)" "pt_tree (mc_ram mc) 3 cr3 S"
    "S \<inter> frames_avail (mc_frames mc) = {}" by (auto simp: vm_ok_def)
  from alloc_frame_cases [OF S(1), of node] assms(2) have g: "frames_ready g"
    and d: "fd_phys d \<in> frames_avail (mc_frames mc)" and g': "frames_avail g = frames_avail (mc_frames mc) - {fd_phys d}"
    by auto
  show p: "is_page (fd_phys d)" by (rule fs.avail_page [OF S(1) d])
  have "fd_phys d \<notin> S" using d S(3) by blast
  then have ag: "agree (mc_ram mc) (mc_ram mc') S"
    using pt_tree_pages [OF S(2)] p assms(3) unfolding agree_def mc'_def by (auto intro!: cell_fill)
  have tree: "pt_tree (mc_ram mc') 3 cr3 S" by (rule pt_tree_frame [OF S(2) ag])
  show "data_page cr3 mc' (fd_phys d)"
  proof -
    have "fd_phys d \<notin> S'" if "pt_tree (mc_ram mc') 3 cr3 S'" for S'
      using pt_tree_unique [OF tree that] \<open>fd_phys d \<notin> S\<close> by blast
    then show ?thesis using p g' unfolding data_page_def by (simp add: mc'_def)
  qed
  show "agree (mc_ram mc) (mc_ram mc') {x} \<and> data_page cr3 mc' x" if x: "data_page cr3 mc x"
  proof
    have "fd_phys d \<noteq> x" "is_page x" using x d by (auto simp: data_page_def)
    then show "agree (mc_ram mc) (mc_ram mc') {x}"
      using p assms(3) unfolding agree_def mc'_def by (auto intro!: cell_fill)
    have "x \<notin> T" if "pt_tree (mc_ram mc') 3 cr3 T" for T
      using pt_tree_unique [OF tree that] x S(2) by (auto simp: data_page_def)
    then show "data_page cr3 mc' x" using x g' by (auto simp: data_page_def mc'_def)
  qed
  note tree
  moreover have "S \<inter> frames_avail g = {}" using S(3) g' by blast
  ultimately show "vm_ok cr3 mc'" using g by (auto simp: vm_ok_def mc'_def)
  show "pte (mc_ram mc') cr3 v = pte (mc_ram mc) cr3 v"
    unfolding pte_def by (rule leaf_frame [OF S(2) ag]) (rule walk_path_ok)+
  show "fd_phys d \<in> frames_avail (mc_frames mc)" "frames_avail g = frames_avail (mc_frames mc) - {fd_phys d}"
    by (fact d, fact g')
qed


lemmas zero_frame = fresh_frame [where bs = "replicate 4096 0", OF _ _ length_replicate, folded zero_page_def]

lemma prot_flags:
  "valid_flags (flags_from_prot prot user)" "flags_from_prot prot user AND PF_PRESENT \<noteq> 0"
  by (auto simp: flags_from_prot_def valid_flags_def Let_def page_flag_defs PAGE_FLAGS_ALL_def)

lemma alloc_frame_some:
  assumes "vm_ok cr3 mc" and "0 < card (frames_avail (mc_frames mc))"
  obtains d g where "alloc_frame node (mc_frames mc) = Some (Some d, g)"
proof -
  have "frames_ready (mc_frames mc)" using assms(1) by (simp add: vm_ok_def)
  from alloc_frame_cases [OF this, of node] obtain r g where
    r: "alloc_frame node (mc_frames mc) = Some (r, g)" "r = None \<Longrightarrow> frames_avail (mc_frames mc) = {}"
    by (auto split: option.splits)
  then show thesis using assms(2) that by (cases r) auto
qed

lemma map_page_succeeds:
  assumes "vm_ok cr3 mc" and "3 \<le> card (frames_avail (mc_frames mc))"
    and "pte (mc_ram mc) cr3 virt AND PF_PRESENT = 0"
  obtains mc' where "map_page cr3 virt phys flags mc = Some (Inr (), mc')" "vm_ok cr3 mc'"
    "frames_avail (mc_frames mc') \<subseteq> frames_avail (mc_frames mc)"
    "\<And>v. pte (mc_ram mc') cr3 v =
       (if page_indices v = page_indices virt then phys OR flags else pte (mc_ram mc) cr3 v)"
    "\<And>x. data_page cr3 mc x \<Longrightarrow> agree (mc_ram mc) (mc_ram mc') {x}"
proof -
  from map_page_pte [OF assms(1), of virt phys flags] obtain r mc' where
    m: "map_page cr3 virt phys flags mc = Some (r, mc')" "vm_ok cr3 mc'"
      "frames_avail (mc_frames mc') \<subseteq> frames_avail (mc_frames mc)"
    and r: "case r of
       Inr _ \<Rightarrow> pte (mc_ram mc) cr3 virt AND PF_PRESENT = 0 \<and>
         (\<forall>v. pte (mc_ram mc') cr3 v =
            (if page_indices v = page_indices virt then phys OR flags else pte (mc_ram mc) cr3 v)) \<and>
         (\<forall>x. data_page cr3 mc x \<longrightarrow> agree (mc_ram mc) (mc_ram mc') {x} \<and> data_page cr3 mc' x)
     | Inl e \<Rightarrow> (\<forall>v. pte (mc_ram mc') cr3 v = pte (mc_ram mc) cr3 v) \<and>
         (e = NoMemory \<and> card (frames_avail (mc_frames mc)) < 3 \<or>
          e = AlreadyMapped \<and> pte (mc_ram mc) cr3 virt AND PF_PRESENT \<noteq> 0)"
    by blast
  show thesis
  proof (cases r)
    case (Inl e)
    with r assms(2,3) show thesis by auto
  next
    case (Inr u)
    with m r that [of mc'] show thesis by auto
  qed
qed

lemma demand_page_maps:
  assumes ok: "vm_ok (as_page_table space) mc"
    and absent: "resolve (as_page_table space) virt mc = Some None"
    and mem: "4 \<le> card (frames_avail (mc_frames mc))"
  shows "\<exists>phys mc'. demand_page space virt prot mc = Some (DemandPaged, mc') \<and>
    vm_ok (as_page_table space) mc' \<and>
    phys \<in> frames_avail (mc_frames mc) \<and> phys \<notin> frames_avail (mc_frames mc') \<and>
    resolve (as_page_table space) virt mc' = Some (Some (phys, flags_from_prot prot True)) \<and>
    (\<forall>i < PT_ENTRIES. cell (mc_ram mc') phys i = 0) \<and>
    (\<forall>v. page_indices v \<noteq> page_indices virt \<longrightarrow>
       resolve (as_page_table space) v mc' = resolve (as_page_table space) v mc)"
proof -
  let ?t = "as_page_table space" and ?f = "flags_from_prot prot True"
  have "0 < card (frames_avail (mc_frames mc))" using mem by simp
  then obtain d g where al: "alloc_frame (as_numa_node space) (mc_frames mc) = Some (Some d, g)"
    by (rule alloc_frame_some [OF ok])
  define mc1 where "mc1 = mc\<lparr>mc_frames := g, mc_ram := zero_page (mc_ram mc) (fd_phys d)\<rparr>"
  note fr = zero_frame [OF ok al, folded mc1_def]
  have "finite (frames_avail (mc_frames mc))" using ok by (simp add: vm_ok_def fs.avail_finite)
  then have "3 \<le> card (frames_avail (mc_frames mc1))" using fr(4,5) mem by (simp add: mc1_def)
  moreover have "pte (mc_ram mc1) ?t virt AND PF_PRESENT = 0"
    using absent fr(2) by (simp add: resolve_pte Let_def split: if_splits)
  ultimately obtain mc' where m: "map_page ?t virt (fd_phys d) ?f mc1 = Some (Inr (), mc')" "vm_ok ?t mc'"
    and sub: "frames_avail (mc_frames mc') \<subseteq> frames_avail (mc_frames mc1)"
    and pt: "\<And>v. pte (mc_ram mc') ?t v =
      (if page_indices v = page_indices virt then fd_phys d OR ?f else pte (mc_ram mc1) ?t v)"
    and keep: "\<And>x. data_page ?t mc1 x \<Longrightarrow> agree (mc_ram mc1) (mc_ram mc') {x}"
    using map_page_succeeds [OF fr(1), of virt "fd_phys d" ?f] by blast
  have "demand_page space virt prot mc = Some (DemandPaged, mc')"
    using al m by (simp add: demand_page_def mc1_def)
  moreover have "cell (mc_ram mc') (fd_phys d) i = 0" if "i < PT_ENTRIES" for i
  proof -
    have "cell (mc_ram mc') (fd_phys d) i = cell (mc_ram mc1) (fd_phys d) i"
      using keep [OF fr(6)] that by (simp add: agree_def)
    also have "\<dots> = 0" using cell_zero_entry [OF fr(3,3) that] by (simp add: mc1_def)
    finally show ?thesis .
  qed
  moreover have "fd_phys d \<notin> frames_avail (mc_frames mc')" using sub fr(5) by (auto simp: mc1_def)
  ultimately show ?thesis
    using m(2) fr(4) pt fr(2) entry_fields [OF fr(3) prot_flags(1)] prot_flags(2)
    by (intro exI [of _ "fd_phys d"] exI [of _ mc']) (auto simp: resolve_pte Let_def)
qed


lemma map_page_refused:
  assumes "vm_ok cr3 mc" and "pte (mc_ram mc) cr3 virt AND PF_PRESENT \<noteq> 0"
  obtains e mc' where "map_page cr3 virt phys flags mc = Some (Inl e, mc')"
    "\<And>v. pte (mc_ram mc') cr3 v = pte (mc_ram mc) cr3 v"
proof -
  from map_page_pte [OF assms(1), of virt phys flags] obtain r mc' where
    m: "map_page cr3 virt phys flags mc = Some (r, mc')"
    and r: "case r of Inr _ \<Rightarrow> pte (mc_ram mc) cr3 virt AND PF_PRESENT = 0
      | Inl e \<Rightarrow> \<forall>v. pte (mc_ram mc') cr3 v = pte (mc_ram mc) cr3 v"
    by (auto simp: sum.case_eq_if split: if_splits)
  then show thesis using assms(2) that by (cases r) auto
qed

lemma break_cow_fails:
  assumes ok: "vm_ok cr3 mc"
  shows "\<exists>mc'. break_cow cr3 virt flags mc = Some (None, mc') \<and> (\<forall>v. resolve cr3 v mc' = resolve cr3 v mc)"
proof (cases "pte (mc_ram mc) cr3 virt AND PF_PRESENT = 0")
  case True
  then show ?thesis by (simp add: break_cow_def resolve_pte Let_def)
next
  case present: False
  let ?phys = "pte (mc_ram mc) cr3 virt AND PTE_ADDR"
  have r: "resolve cr3 virt mc = Some (Some (?phys, pte (mc_ram mc) cr3 virt AND PAGE_FLAGS_ALL))"
    using present by (simp add: resolve_pte Let_def)
  have "frames_ready (mc_frames mc)" using ok by (simp add: vm_ok_def)
  then obtain f g where al: "alloc_frame local_node (mc_frames mc) = Some (f, g)"
    using fs.alloc_returns by blast
  show ?thesis
  proof (cases f)
    case None
    then show ?thesis using r al by (simp add: break_cow_def resolve_pte)
  next
    case (Some d)
    define mc1 where "mc1 = mc\<lparr>mc_frames := g, mc_ram := copy_page (mc_ram mc) ?phys (fd_phys d)\<rparr>"
    have c: "length (mem_read (mc_ram mc) ?phys 4096) = 4096" by simp
    note fr = fresh_frame [OF ok al [unfolded Some] c, folded copy_page_def mc1_def]
    let ?f = "(flags AND NOT PF_COW) OR (PF_WRITABLE OR PF_DIRTY)"
    have "pte (mc_ram mc1) cr3 virt AND PF_PRESENT \<noteq> 0" using present fr(2) [of virt] by simp
    then obtain e mc' where m: "map_page cr3 virt (fd_phys d) ?f mc1 = Some (Inl e, mc')"
      and same: "\<And>v. pte (mc_ram mc') cr3 v = pte (mc_ram mc1) cr3 v"
      by (rule map_page_refused [OF fr(1), where phys = "fd_phys d" and flags = ?f]) blast
    have "break_cow cr3 virt flags mc = Some (None, mc')"
      using r al m Some by (simp add: break_cow_def mc1_def)
    moreover have "resolve cr3 v mc' = resolve cr3 v mc" for v using same fr(2) by (simp add: resolve_pte)
    ultimately show ?thesis by blast
  qed
qed

lemma update_prot_rep:
  assumes "vt_rep t vs" and "update_prot t start len prot = (Inr (), t')"
  obtains i where "i < length vs" "v_start (vs ! i) = start" "v_end (vs ! i) = start + len"
    "vt_rep t' (vs[i := (vs ! i)\<lparr>v_prot := prot\<rparr>])"
proof -
  have tk: "take (vt_len t) (vt_entries t) = map Some vs" using assms(1) by (simp add: vt_rep_def)
  obtain i where i: "position (same_range start (start + len)) (map Some vs) = Some i"
    and t': "t' = t\<lparr>vt_entries := (vt_entries t)[i := map_option (v_prot_update (\<lambda>_. prot)) (vt_entries t ! i)]\<rparr>"
    using assms(2) by (auto simp: update_prot_def tk split: option.splits)
  then have l: "i < length vs" "same_range start (start + len) (Some (vs ! i))"
    by (auto simp: position_Some)
  then have "vt_entries t ! i = Some (vs ! i)" using assms(1) by (simp add: vt_rep_def nth_append)
  then have "vt_entries t' = map Some (vs[i := (vs ! i)\<lparr>v_prot := prot\<rparr>]) @ replicate (MAX_VMAS - length vs) None"
    using assms(1) l(1) t' by (simp add: vt_rep_def list_update_append map_update)
  then have "vt_rep t' (vs[i := (vs ! i)\<lparr>v_prot := prot\<rparr>])" using assms(1) t' by (simp add: vt_rep_def)
  with l show thesis by (intro that [of i]) (simp_all add: same_range_def)
qed

lemma areas_ok_prot:
  assumes "areas_ok vs" and "i < length vs"
  shows "areas_ok (vs[i := (vs ! i)\<lparr>v_prot := prot\<rparr>])"
proof -
  let ?vs = "vs[i := (vs ! i)\<lparr>v_prot := prot\<rparr>]"
  have se: "v_start (?vs ! j) = v_start (vs ! j)" "v_end (?vs ! j) = v_end (vs ! j)" if "j < length vs" for j
    using that by (cases "j = i"; simp)+
  have "map v_start ?vs = map v_start vs" by (rule nth_equalityI) (simp_all add: se)
  then show ?thesis using assms(1) unfolding areas_ok_def by (simp add: apart_def se)
qed

subsection \<open>Properties\<close>

text \<open>
  C18: Demand paging always makes progress: while four frames are free, a fault on an address of an
  area that permits the access, at a page that is neither present nor copy-on-write, is resolved.
  The page then resolves to a frame that was free and no longer is, with the flags of the area's
  protection, the frame reads as zeros, every other page resolves as before, and the tables stay
  well formed.
\<close>

theorem demand_fault_resolved:
  assumes "vm_ok (as_page_table space) mc"
    and "vma_find (as_vma space) (addr AND NOT (PAGE_SIZE - 1)) = Some vma"
    and "user \<longrightarrow> contains (v_prot vma) PROT_USER" and "wr \<longrightarrow> contains (v_prot vma) PROT_WRITE"
    and "resolve (as_page_table space) (addr AND NOT (PAGE_SIZE - 1)) mc = Some None"
    and "\<forall>f. get_flags (as_page_table space) (addr AND NOT (PAGE_SIZE - 1)) mc = Some (Some f) \<longrightarrow> \<not> is_cow f"
    and "4 \<le> card (frames_avail (mc_frames mc))"
  shows "\<exists>phys mc'. resolve_fault space addr wr user mc = Some (DemandPaged, mc') \<and>
    vm_ok (as_page_table space) mc' \<and>
    phys \<in> frames_avail (mc_frames mc) \<and> phys \<notin> frames_avail (mc_frames mc') \<and>
    resolve (as_page_table space) (addr AND NOT (PAGE_SIZE - 1)) mc' =
      Some (Some (phys, flags_from_prot (v_prot vma) True)) \<and>
    (\<forall>i < PT_ENTRIES. cell (mc_ram mc') phys i = 0) \<and>
    (\<forall>v. page_indices v \<noteq> page_indices (addr AND NOT (PAGE_SIZE - 1)) \<longrightarrow>
       resolve (as_page_table space) v mc' = resolve (as_page_table space) v mc)"
proof -
  let ?v = "addr AND NOT (PAGE_SIZE - 1)" and ?t = "as_page_table space"
  have absent: "pte (mc_ram mc) ?t ?v AND PF_PRESENT = 0"
    using assms(5) by (simp add: resolve_pte Let_def split: if_splits)
  then have "\<not> contains (pte (mc_ram mc) ?t ?v AND PAGE_FLAGS_ALL) PF_PRESENT"
    by (simp add: contains_def page_flag_defs PAGE_FLAGS_ALL_def and.assoc)
  then have "resolve_fault space addr wr user mc = demand_page space ?v (v_prot vma) mc"
    using assms(2-4,6) by (auto simp: resolve_fault_def get_flags_pte Let_def is_cow_def)
  with demand_page_maps [OF assms(1,5,7), of "v_prot vma"] show ?thesis by simp
qed

text \<open>A space over the tables of \<open>fresh_machine\<close>, with one read-only area.\<close>

definition small_space :: AddressSpace where
  "small_space = \<lparr>as_id = 1, as_page_table = 0x1000, as_vma = one_area, as_numa_node = 0\<rparr>"

lemma small_space_find:
  "vma_find (as_vma small_space) (0x1500 AND NOT (PAGE_SIZE - 1)) =
     Some (vma_new 0x1000 0x2000 PROT_READ MAP_PRIVATE Anonymous)"
  by (simp add: small_space_def vma_find_def one_area_iter vma_contains_def vma_new_def PAGE_SIZE_def)

theorem demand_fault_resolved_witness:
  "\<exists>phys mc'. resolve_fault small_space 0x1500 False False fresh_machine = Some (DemandPaged, mc') \<and>
     resolve 0x1000 0x1000 mc' = Some (Some (phys, flags_from_prot PROT_READ True))"
proof -
  have t: "as_page_table small_space = 0x1000" by (simp add: small_space_def)
  have "vm_ok (as_page_table small_space) fresh_machine" unfolding t by (rule fresh_machine_ok)
  moreover have "resolve (as_page_table small_space) (0x1500 AND NOT (PAGE_SIZE - 1)) fresh_machine = Some None"
    unfolding t by (simp add: resolve_pte fresh_machine_pte)
  moreover have "\<forall>f. get_flags (as_page_table small_space) (0x1500 AND NOT (PAGE_SIZE - 1)) fresh_machine = Some (Some f) \<longrightarrow>
      \<not> is_cow f"
    unfolding t by (simp add: get_flags_pte fresh_machine_pte)
  ultimately obtain phys mc' where
    "resolve_fault small_space 0x1500 False False fresh_machine = Some (DemandPaged, mc')"
    "resolve (as_page_table small_space) (0x1500 AND NOT (PAGE_SIZE - 1)) mc' =
      Some (Some (phys, flags_from_prot (v_prot (vma_new 0x1000 0x2000 PROT_READ MAP_PRIVATE Anonymous)) True))"
    using demand_fault_resolved [of small_space fresh_machine "0x1500" _ False False, OF _ small_space_find]
      fresh_machine_avail by blast
  then show ?thesis by (auto simp: small_space_def vma_new_def PAGE_SIZE_def)
qed

text \<open>
  C23: Copy-on-write pages are never duplicated: a write fault on a page whose entry has the
  copy-on-write flag is reported as a protection violation and changes no translation, whatever
  the protection of its area, even with free memory. \<open>break_cow\<close> maps the private copy with
  \<open>map_page\<close>, which refuses an address that is mapped.
\<close>

theorem cow_write_fault_fails:
  assumes "vm_ok (as_page_table space) mc"
    and "vma_find (as_vma space) (addr AND NOT (PAGE_SIZE - 1)) = Some vma"
    and "get_flags (as_page_table space) (addr AND NOT (PAGE_SIZE - 1)) mc = Some (Some flags)"
    and "is_cow flags"
  shows "\<exists>mc'. resolve_fault space addr True user mc = Some (ProtectionViolation, mc') \<and>
    (\<forall>v. resolve (as_page_table space) v mc' = resolve (as_page_table space) v mc)"
proof -
  let ?v = "addr AND NOT (PAGE_SIZE - 1)" and ?t = "as_page_table space"
  from break_cow_fails [OF assms(1), of ?v flags] obtain mc' where
    b: "break_cow ?t ?v flags mc = Some (None, mc')" "\<forall>v. resolve ?t v mc' = resolve ?t v mc" by blast
  show ?thesis
  proof (cases "user \<and> \<not> contains (v_prot vma) PROT_USER")
    case True
    then show ?thesis using assms(2) by (simp add: resolve_fault_def Let_def)
  next
    case False
    then show ?thesis using assms(2-4) b by (auto simp: resolve_fault_def Let_def is_cow_def)
  qed
qed


theorem cow_write_fault_fails_witness:
  "\<exists>mc mc'. vm_ok 0x1000 mc \<and> get_flags 0x1000 0x1000 mc = Some (Some PF_COW) \<and>
     resolve_fault small_space 0x1500 True False mc = Some (ProtectionViolation, mc')"
proof -
  have t: "as_page_table small_space = 0x1000" and a: "0x1500 AND NOT (PAGE_SIZE - 1) = 0x1000"
    by (simp_all add: small_space_def PAGE_SIZE_def)
  obtain r mc1 where w: "walk_mut 0x1000 0x1000 True fresh_machine = Some (r, mc1)"
    and r: "\<exists>entry. r = Inr entry" and c: "case r of Inl e \<Rightarrow> True
     | Inr entry \<Rightarrow> \<forall>val. vm_ok 0x1000 (mc1\<lparr>mc_ram := wr64 (mc_ram mc1) entry val\<rparr>) \<and>
         pte (wr64 (mc_ram mc1) entry val) 0x1000 0x1000 = val"
    using walk_mut_create [OF fresh_machine_ok, of "0x1000"] fresh_machine_avail
    by (force simp: sum.case_eq_if)
  from r obtain entry where r: "r = Inr entry" by blast
  define mc where "mc = mc1\<lparr>mc_ram := wr64 (mc_ram mc1) entry PF_COW\<rparr>"
  have ok: "vm_ok 0x1000 mc" and p: "pte (mc_ram mc) 0x1000 0x1000 = PF_COW"
    using c r by (simp_all add: mc_def)
  then have f: "get_flags 0x1000 0x1000 mc = Some (Some PF_COW)"
    by (simp add: get_flags_pte Let_def page_flag_defs PAGE_FLAGS_ALL_def)
  then show ?thesis
    using cow_write_fault_fails [of small_space mc "0x1500" _ PF_COW False, OF _ small_space_find] ok f
    unfolding t a by (auto simp: is_cow_def contains_def)
qed

text \<open>
  C24: \<open>mprotect\<close> takes the area away from user code: after it succeeds, every fault of user code on
  a page of the range is a protection violation, whatever protection was asked for, since the
  protection stored in the area never has the user flag.
\<close>

theorem mprotect_drops_user:
  assumes "vt_ok (as_vma space)"
    and "mprotect space addr len prot mc = Some (Inr (), space', mc')"
    and "addr \<le> x AND NOT (PAGE_SIZE - 1)" and "x AND NOT (PAGE_SIZE - 1) < addr + align_up len PAGE_SIZE"
  shows "resolve_fault space' x wr True mc'' = Some (ProtectionViolation, mc'')"
proof -
  let ?x = "x AND NOT (PAGE_SIZE - 1)"
  obtain vs where vs: "vt_rep (as_vma space) vs" "areas_ok vs" using assms(1) by (auto simp: vt_ok_def)
  obtain t' where u: "update_prot (as_vma space) addr (align_up len PAGE_SIZE) (mprotect_prot prot) = (Inr (), t')"
    and t': "as_vma space' = t'"
    using assms(2) by (auto simp: mprotect_def Let_def bind_eq_Some_conv split: if_splits sum.splits prod.splits)
  from u obtain i where i: "i < length vs" "v_start (vs ! i) = addr" "v_end (vs ! i) = addr + align_up len PAGE_SIZE"
    and rep: "vt_rep t' (vs[i := (vs ! i)\<lparr>v_prot := mprotect_prot prot\<rparr>])"
    by (rule update_prot_rep [OF vs(1)])
  let ?v = "(vs ! i)\<lparr>v_prot := mprotect_prot prot\<rparr>"
  have "vt_ok t'" using rep areas_ok_prot [OF vs(2) i(1)] by (auto simp: vt_ok_def)
  moreover have "?v \<in> set (vma_iter t')" using i(1) by (simp add: vma_iter_rep [OF rep] set_update_memI)
  moreover have "vma_contains ?v ?x" using i assms(3,4) by (simp add: vma_contains_def)
  ultimately have "vma_find (as_vma space') ?x = Some ?v" using t' vma_find_correct by blast
  moreover have "\<not> contains (v_prot ?v) PROT_USER"
    by (simp add: mprotect_prot_def contains_def)
  ultimately show ?thesis by (simp add: resolve_fault_def Let_def)
qed


theorem mprotect_drops_user_witness:
  "\<exists>space'. mprotect small_space 0x1000 0x2000 3 fresh_machine = Some (Inr (), space', fresh_machine) \<and>
     resolve_fault space' 0x2345 False True fresh_machine = Some (ProtectionViolation, fresh_machine)"
proof -
  have l: "align_up 0x2000 PAGE_SIZE = 0x2000" by (simp add: align_up_def PAGE_SIZE_def)
  have n: "[0..<unat ((0x2000 :: u64) div PAGE_SIZE)] = [0, 1]" by (simp add: PAGE_SIZE_def upt_rec)
  have a: "apply_prot 0x1000 0x1000 0x2000 p fresh_machine = Some fresh_machine" for p
    unfolding apply_prot_def n by (simp add: resolve_pte fresh_machine_pte)
  have "position (same_range 0x1000 0x3000) (take (vt_len one_area) (vt_entries one_area)) = Some 0"
    by (simp add: one_area_def same_range_def vma_new_def)
  then obtain t' where u: "update_prot one_area 0x1000 0x2000 (mprotect_prot 3) = (Inr (), t')"
    by (simp add: update_prot_def)
  have m: "mprotect small_space 0x1000 0x2000 3 fresh_machine =
      Some (Inr (), small_space\<lparr>as_vma := t'\<rparr>, fresh_machine)"
    using u a by (simp add: mprotect_def l Let_def small_space_def)
  have "vt_ok (as_vma small_space)" by (simp add: small_space_def one_area_ok)
  from mprotect_drops_user [OF this m, of "0x2345" False fresh_machine, unfolded l] m show ?thesis
    by (simp add: PAGE_SIZE_def)
qed

end
