(* ===== verification/Vfs_Types.thy ===== *)
theory Vfs_Types
  imports Errno
begin

text \<open>
  The data of the virtual file system that other components store:
  \<^verbatim>\<open>src/kernel/src/fs/vfs/inode.rs\<close>, \<^verbatim>\<open>src/kernel/src/fs/vfs/file.rs\<close> and the open flags of
  \<^verbatim>\<open>src/kernel/src/fs/fd.rs\<close>.
\<close>

record InodeId =
  ino_mount :: u32
  ino_no :: u64

abbreviation (input) INODE_INVALID :: InodeId where "INODE_INVALID \<equiv> \<lparr>ino_mount = -1, ino_no = 0\<rparr>"

definition inode_is_valid :: "InodeId \<Rightarrow> bool" where
  "inode_is_valid i \<longleftrightarrow> ino_mount i \<noteq> -1"

datatype FileType = Regular | Directory | Symlink | CharDev | BlockDev | Fifo | SocketFile

abbreviation (input) OWNER_READ :: u16 where "OWNER_READ \<equiv> 0x100"
abbreviation (input) OWNER_WRITE :: u16 where "OWNER_WRITE \<equiv> 0x080"
abbreviation (input) OWNER_EXEC :: u16 where "OWNER_EXEC \<equiv> 0x040"
abbreviation (input) GROUP_READ :: u16 where "GROUP_READ \<equiv> 0x020"
abbreviation (input) GROUP_WRITE :: u16 where "GROUP_WRITE \<equiv> 0x010"
abbreviation (input) GROUP_EXEC :: u16 where "GROUP_EXEC \<equiv> 0x008"
abbreviation (input) OTHER_READ :: u16 where "OTHER_READ \<equiv> 0x004"
abbreviation (input) OTHER_WRITE :: u16 where "OTHER_WRITE \<equiv> 0x002"
abbreviation (input) OTHER_EXEC :: u16 where "OTHER_EXEC \<equiv> 0x001"


definition default_file :: u16 where
  "default_file = OWNER_READ OR OWNER_WRITE OR GROUP_READ OR OTHER_READ"

definition default_dir :: u16 where
  "default_dir = OWNER_READ OR OWNER_WRITE OR OWNER_EXEC OR GROUP_READ OR GROUP_EXEC OR
     OTHER_READ OR OTHER_EXEC"

record InodeAttr =
  at_ino :: u64
  at_mode :: u16
  at_file_type :: FileType
  at_size :: u64
  at_nlink :: u32
  at_generation :: u64
  at_rdev :: u32

abbreviation (input) O_RDONLY :: u32 where "O_RDONLY \<equiv> 0"
abbreviation (input) O_WRONLY :: u32 where "O_WRONLY \<equiv> 1"
abbreviation (input) O_RDWR :: u32 where "O_RDWR \<equiv> 2"
abbreviation (input) O_CREAT :: u32 where "O_CREAT \<equiv> 0x40"
abbreviation (input) O_TRUNC :: u32 where "O_TRUNC \<equiv> 0x200"
abbreviation (input) O_APPEND :: u32 where "O_APPEND \<equiv> 0x400"
abbreviation (input) O_NOFOLLOW :: u32 where "O_NOFOLLOW \<equiv> 0x100"


record OpenFile =
  of_inode :: InodeId
  of_offset :: u64
  of_flags :: u32
  of_generation :: u64

datatype FileMode = Read | Write | ReadWrite

definition file_mode_from :: "u32 \<Rightarrow> FileMode" where
  "file_mode_from flags =
     (if contains flags O_RDWR then ReadWrite
      else if contains flags O_WRONLY then Write
      else Read)"

lemma default_modes: "default_file = 0x1A4" "default_dir = 0x1ED"
  by (simp_all add: default_file_def default_dir_def)

end
