(* ===== verification/Fd.thy ===== *)
theory Fd
  imports Vfs_Types
begin

text \<open>
  The descriptor table of a process, \<^verbatim>\<open>src/kernel/src/fs/fd.rs\<close>: 256 optional entries and a
  flag byte per descriptor. The lemmas show that allocation takes the lowest free descriptor
  and fails only on a full table, what \<open>close\<close>, \<open>dup2\<close> and \<open>execve\<close> do to every descriptor,
  and that a descriptor number that is used again inherits the flag byte of its previous use.
\<close>

definition MAX_FDS :: nat where "MAX_FDS = 256"
definition FD_CLOEXEC :: u8 where "FD_CLOEXEC = 1"

datatype FdEntry =
    ConsoleIn
  | ConsoleOut
  | ConsoleErr
  | PipeRead u32
  | PipeWrite u32
  | Vfs OpenFile
  | Socket u32
  | UnixSocket u32
  | Anon

record FdTable =
  entries :: "FdEntry option list"
  fd_flags :: "u8 list"
  next_fd :: u32

definition fd_new :: FdTable where
  "fd_new = \<lparr>entries = replicate MAX_FDS None, fd_flags = replicate MAX_FDS 0, next_fd = 3\<rparr>"

definition init_stdio :: "FdTable \<Rightarrow> FdTable run" where
  "init_stdio t = do {
     es \<leftarrow> set_idx (entries t) 0 (Some ConsoleIn);
     es \<leftarrow> set_idx es 1 (Some ConsoleOut);
     es \<leftarrow> set_idx es 2 (Some ConsoleErr);
     Some (t\<lparr>entries := es\<rparr>) }"

fun fd_alloc_loop :: "FdTable \<Rightarrow> FdEntry \<Rightarrow> nat list \<Rightarrow> ((unit, u32) result \<times> FdTable) run" where
  "fd_alloc_loop t entry [] = Some (Inl (), t)"
| "fd_alloc_loop t entry (fd # fds) = do {
     e \<leftarrow> idx (entries t) fd;
     if e = None then do {
       es \<leftarrow> set_idx (entries t) fd (Some entry);
       Some (Inr (of_nat fd), t\<lparr>entries := es\<rparr>) }
     else fd_alloc_loop t entry fds }"

definition fd_alloc :: "FdTable \<Rightarrow> FdEntry \<Rightarrow> ((unit, u32) result \<times> FdTable) run" where
  "fd_alloc t entry = fd_alloc_loop t entry [0..<MAX_FDS]"

definition fd_get :: "FdTable \<Rightarrow> u32 \<Rightarrow> FdEntry option" where
  "fd_get t fd = (case idx (entries t) (unat fd) of None \<Rightarrow> None | Some e \<Rightarrow> e)"

text \<open>The mutable reference that \<open>get_vfs_mut\<close> returns is the file it points to, with the
  table after an assignment through it.\<close>

definition get_vfs_mut :: "FdTable \<Rightarrow> u32 \<Rightarrow> (OpenFile \<times> (OpenFile \<Rightarrow> FdTable)) option" where
  "get_vfs_mut t fd =
     (case idx (entries t) (unat fd) of
        Some (Some (Vfs f)) \<Rightarrow>
          Some (f, \<lambda>f'. t\<lparr>entries := (entries t)[unat fd := Some (Vfs f')]\<rparr>)
      | _ \<Rightarrow> None)"

definition fd_dup :: "FdTable \<Rightarrow> u32 \<Rightarrow> (unit, FdEntry) result" where
  "fd_dup t fd = (case fd_get t fd of None \<Rightarrow> Inl () | Some e \<Rightarrow> Inr e)"

definition fd_close :: "FdTable \<Rightarrow> u32 \<Rightarrow> (unit, unit) result \<times> FdTable" where
  "fd_close t fd =
     (if fd < 3 then (Inl (), t)
      else case idx (entries t) (unat fd) of
        Some (Some e) \<Rightarrow> (Inr (), t\<lparr>entries := (entries t)[unat fd := None]\<rparr>)
      | _ \<Rightarrow> (Inl (), t))"

definition fd_dup2 :: "FdTable \<Rightarrow> u32 \<Rightarrow> u32 \<Rightarrow> ((unit, u32) result \<times> FdTable) run" where
  "fd_dup2 t oldfd newfd =
     (case fd_dup t oldfd of
        Inl e \<Rightarrow> Some (Inl e, t)
      | Inr entry \<Rightarrow>
          if unat newfd \<ge> MAX_FDS then Some (Inl (), t)
          else do {
            es \<leftarrow> set_idx (entries t) (unat newfd) (Some entry);
            fl \<leftarrow> idx (fd_flags t) (unat oldfd);
            fs \<leftarrow> set_idx (fd_flags t) (unat newfd) fl;
            Some (Inr newfd, t\<lparr>entries := es, fd_flags := fs\<rparr>) })"

fun close_on_exec_loop :: "FdTable \<Rightarrow> nat list \<Rightarrow> FdTable run" where
  "close_on_exec_loop t [] = Some t"
| "close_on_exec_loop t (fd # fds) = do {
     fl \<leftarrow> idx (fd_flags t) fd;
     t \<leftarrow> (if fl AND FD_CLOEXEC \<noteq> 0 then do {
             es \<leftarrow> set_idx (entries t) fd None;
             fs \<leftarrow> set_idx (fd_flags t) fd 0;
             Some (t\<lparr>entries := es, fd_flags := fs\<rparr>) }
           else Some t);
     close_on_exec_loop t fds }"

definition close_on_exec :: "FdTable \<Rightarrow> FdTable run" where
  "close_on_exec t = close_on_exec_loop t [3..<MAX_FDS]"

definition get_fd_flags :: "FdTable \<Rightarrow> u32 \<Rightarrow> u8" where
  "get_fd_flags t fd = (case idx (fd_flags t) (unat fd) of None \<Rightarrow> 0 | Some fl \<Rightarrow> fl)"

definition set_fd_flags :: "FdTable \<Rightarrow> u32 \<Rightarrow> u8 \<Rightarrow> ((unit, unit) result \<times> FdTable) run" where
  "set_fd_flags t fd flags =
     (if unat fd \<ge> MAX_FDS then Some (Inl (), t)
      else do {
        e \<leftarrow> idx (entries t) (unat fd);
        if e = None then Some (Inl (), t)
        else do {
          fs \<leftarrow> set_idx (fd_flags t) (unat fd) flags;
          Some (Inr (), t\<lparr>fd_flags := fs\<rparr>) } })"

definition open_flags :: "FdTable \<Rightarrow> u32 \<Rightarrow> u32" where
  "open_flags t fd =
     (case fd_get t fd of
        Some ConsoleIn \<Rightarrow> O_RDONLY
      | Some ConsoleOut \<Rightarrow> O_WRONLY
      | Some ConsoleErr \<Rightarrow> O_WRONLY
      | _ \<Rightarrow> O_RDWR)"

subsection \<open>The invariant and the operations\<close>

definition fd_wf :: "FdTable \<Rightarrow> bool" where
  "fd_wf t \<longleftrightarrow> length (entries t) = MAX_FDS \<and> length (fd_flags t) = MAX_FDS"

lemma fd_wfD: "fd_wf t \<Longrightarrow> length (entries t) = MAX_FDS" "fd_wf t \<Longrightarrow> length (fd_flags t) = MAX_FDS"
  by (simp_all add: fd_wf_def)

lemma fd_new_wf [simp]: "fd_wf fd_new"
  by (simp add: fd_wf_def fd_new_def)

lemma unat_of_nat_fd: "i < MAX_FDS \<Longrightarrow> unat (of_nat i :: u32) = i"
  by (simp add: MAX_FDS_def unat_of_nat)

lemma fd_alloc_loop_eq:
  "b \<le> length (entries t) \<Longrightarrow> fd_alloc_loop t entry [a..<b] =
    (case position (\<lambda>i. entries t ! i = None) [a..<b] of
       None \<Rightarrow> Some (Inl (), t)
     | Some k \<Rightarrow> Some (Inr (of_nat (a + k)), t\<lparr>entries := (entries t)[a + k := Some entry]\<rparr>))"
proof (induction "b - a" arbitrary: a)
  case 0
  then show ?case by simp
next
  case (Suc n)
  then have ab: "a < b" by simp
  moreover have "fd_alloc_loop t entry [Suc a..<b] =
    (case position (\<lambda>i. entries t ! i = None) [Suc a..<b] of
       None \<Rightarrow> Some (Inl (), t)
     | Some k \<Rightarrow> Some (Inr (of_nat (Suc a + k)), t\<lparr>entries := (entries t)[Suc a + k := Some entry]\<rparr>))"
    using Suc by simp
  ultimately show ?case
    using Suc.prems by (simp add: upt_conv_Cons split: option.split)
qed

lemma position_upt: "position (\<lambda>i. P (xs ! i)) [0..<length xs] = position P xs"
  by (rule position_cong) simp_all

lemma fd_alloc_eq:
  assumes "fd_wf t"
  shows "fd_alloc t entry = Some (case position (\<lambda>e. e = None) (entries t) of
       None \<Rightarrow> (Inl (), t)
     | Some k \<Rightarrow> (Inr (of_nat k), t\<lparr>entries := (entries t)[k := Some entry]\<rparr>))"
  using fd_alloc_loop_eq [of MAX_FDS t entry 0] position_upt [of "\<lambda>e. e = None" "entries t"]
  by (simp add: fd_alloc_def fd_wfD [OF assms] split: option.split)

definition close_fd :: "FdTable \<Rightarrow> nat \<Rightarrow> FdEntry option \<times> u8" where
  "close_fd t i = (if 3 \<le> i \<and> fd_flags t ! i AND FD_CLOEXEC \<noteq> 0 then (None, 0)
                   else (entries t ! i, fd_flags t ! i))"

lemma close_on_exec_loop_correct:
  "fd_wf t \<Longrightarrow> b \<le> MAX_FDS \<Longrightarrow> 3 \<le> a \<Longrightarrow> \<exists>t'. close_on_exec_loop t [a..<b] = Some t' \<and> fd_wf t' \<and>
     next_fd t' = next_fd t \<and>
     (\<forall>i < MAX_FDS. (entries t' ! i, fd_flags t' ! i) =
        (if a \<le> i \<and> i < b then close_fd t i else (entries t ! i, fd_flags t ! i)))"
proof (induction "b - a" arbitrary: a t)
  case 0
  then show ?case by auto
next
  case (Suc n)
  then have ab: "a < b" by simp
  define u where "u = (if fd_flags t ! a AND FD_CLOEXEC \<noteq> 0
    then t\<lparr>entries := (entries t)[a := None], fd_flags := (fd_flags t)[a := 0]\<rparr> else t)"
  have wf: "fd_wf u" "next_fd u = next_fd t"
    using Suc.prems(1) by (simp_all add: u_def fd_wf_def)
  have step: "close_on_exec_loop t [a..<b] = close_on_exec_loop u [Suc a..<b]"
    using ab Suc.prems by (simp add: upt_conv_Cons u_def fd_wfD)
  obtain t' where t': "close_on_exec_loop u [Suc a..<b] = Some t'" "fd_wf t'" "next_fd t' = next_fd u"
    and at: "\<forall>i < MAX_FDS. (entries t' ! i, fd_flags t' ! i) =
        (if Suc a \<le> i \<and> i < b then close_fd u i else (entries u ! i, fd_flags u ! i))"
  proof -
    have "n = b - Suc a" using Suc.hyps(2) by simp
    from Suc.hyps(1) [OF this wf(1) Suc.prems(2)] Suc.prems(3) that show ?thesis by auto
  qed
  have other: "entries u ! i = entries t ! i" "fd_flags u ! i = fd_flags t ! i" if "i \<noteq> a" for i
    using that by (simp_all add: u_def)
  have self: "(entries u ! a, fd_flags u ! a) = close_fd t a"
    using ab Suc.prems by (simp add: u_def close_fd_def fd_wfD)
  have "(entries t' ! i, fd_flags t' ! i) =
      (if a \<le> i \<and> i < b then close_fd t i else (entries t ! i, fd_flags t ! i))"
    if "i < MAX_FDS" for i
    using at [rule_format, OF that] self ab other [of i]
    by (cases "i = a") (auto simp: close_fd_def)
  with t' wf step show ?case by auto
qed

subsection \<open>Properties\<close>

text \<open>
  C32: Allocation of a descriptor on a well-formed table: it fails and changes nothing exactly
  when all 256 descriptors are taken; otherwise it returns the lowest descriptor that was free,
  stores the entry there, leaves every other descriptor and every flag byte as it was, and keeps
  the table well formed.
\<close>

theorem fd_alloc_lowest:
  assumes "fd_wf t"
  shows "\<exists>r t'. fd_alloc t entry = Some (r, t') \<and> fd_wf t' \<and> fd_flags t' = fd_flags t \<and>
    (case r of
       Inl _ \<Rightarrow> used (entries t) = MAX_FDS \<and> t' = t
     | Inr fd \<Rightarrow> fd_get t fd = None \<and> unat fd < MAX_FDS \<and>
         (\<forall>g < fd. fd_get t g \<noteq> None) \<and> fd_get t' fd = Some entry \<and>
         (\<forall>g. g \<noteq> fd \<longrightarrow> fd_get t' g = fd_get t g))"
proof (cases "position (\<lambda>e. e = None) (entries t)")
  case None
  then show ?thesis
    using assms used_full [of "entries t"] by (simp add: fd_alloc_eq fd_wfD)
next
  case (Some k)
  then have k: "k < MAX_FDS" "entries t ! k = None" "\<forall>j<k. entries t ! j \<noteq> None"
    using assms by (auto simp: position_Some fd_wfD)
  let ?fd = "of_nat k :: u32"
  have u: "unat ?fd = k" by (rule unat_of_nat_fd) (rule k)
  have low: "fd_get t g \<noteq> None" if "g < ?fd" for g
    using that k u by (simp add: word_less_nat_alt fd_get_def fd_wfD [OF assms])
  have other: "fd_get (t\<lparr>entries := (entries t)[k := Some entry]\<rparr>) g = fd_get t g" if "g \<noteq> ?fd" for g
  proof -
    have "unat g \<noteq> k" using that by auto
    then show ?thesis by (simp add: fd_get_def idx_def)
  qed
  show ?thesis
    using assms Some k u low other
    by (auto simp: fd_alloc_eq fd_get_def fd_wf_def)
qed

theorem fd_alloc_lowest_witness:
  "fd_wf fd_new \<and> (\<exists>r t'. fd_alloc fd_new Anon = Some (r, t') \<and> fd_wf t' \<and>
    fd_flags t' = fd_flags fd_new \<and>
    (case r of
       Inl _ \<Rightarrow> used (entries fd_new) = MAX_FDS \<and> t' = fd_new
     | Inr fd \<Rightarrow> fd_get fd_new fd = None \<and> unat fd < MAX_FDS \<and>
         (\<forall>g < fd. fd_get fd_new g \<noteq> None) \<and> fd_get t' fd = Some Anon \<and>
         (\<forall>g. g \<noteq> fd \<longrightarrow> fd_get t' g = fd_get fd_new g)))"
  using fd_alloc_lowest [of fd_new Anon, OF fd_new_wf] by (rule conjI [OF fd_new_wf])




text \<open>
  C39: The flag byte survives \<open>close\<close>: when the lowest free descriptor after closing \<open>fd\<close> is
  \<open>fd\<close> itself, a descriptor allocated next gets the number \<open>fd\<close> together with the flags of the
  closed one. A file opened without close-on-exec is therefore closed by \<open>execve\<close> if the
  descriptor had been marked in its previous life.
\<close>

theorem fd_reuse_inherits_flags:
  assumes "fd_wf t" and "3 \<le> fd" and "fd_get t fd \<noteq> None" and "\<forall>g < fd. fd_get t g \<noteq> None"
    and "get_fd_flags t fd AND FD_CLOEXEC \<noteq> 0"
  shows "\<exists>t1 t2 t3. fd_close t fd = (Inr (), t1) \<and> fd_alloc t1 entry = Some (Inr fd, t2) \<and>
    get_fd_flags t2 fd = get_fd_flags t fd \<and>
    close_on_exec t2 = Some t3 \<and> fd_get t3 fd = None"
proof -
  let ?k = "unat fd"
  let ?t1 = "t\<lparr>entries := (entries t)[?k := None]\<rparr>"
  let ?t2 = "t\<lparr>entries := (entries t)[?k := Some entry]\<rparr>"
  note len = fd_wfD [OF assms(1)]
  have k: "?k < MAX_FDS" "entries t ! ?k \<noteq> None" "3 \<le> ?k"
    using assms(2,3) len by (auto simp: fd_get_def idx_def word_le_nat_alt split: if_splits)
  have low: "entries t ! j \<noteq> None" if "j < ?k" for j
    using assms(4) [rule_format, of "of_nat j"] that k(1) len
    by (simp add: fd_get_def word_less_nat_alt unat_of_nat_fd)
  have close: "fd_close t fd = (Inr (), ?t1)"
    using k len assms(2) by (auto simp: fd_close_def)
  have pos: "position (\<lambda>e. e = None) (entries ?t1) = Some ?k"
    using k low len by (simp add: position_Some)
  have wf1: "fd_wf ?t1" using len by (simp add: fd_wf_def)
  have alloc: "fd_alloc ?t1 entry = Some (Inr fd, ?t2)"
    using fd_alloc_eq [OF wf1, of entry, unfolded pos] by simp
  have wf2: "fd_wf ?t2" using len by (simp add: fd_wf_def)
  obtain t3 where t3: "close_on_exec ?t2 = Some t3" "fd_wf t3"
    and at: "\<forall>i < MAX_FDS. (entries t3 ! i, fd_flags t3 ! i) =
        (if 3 \<le> i \<and> i < MAX_FDS then close_fd ?t2 i else (entries ?t2 ! i, fd_flags ?t2 ! i))"
    using close_on_exec_loop_correct [OF wf2, of MAX_FDS 3] by (auto simp: close_on_exec_def)
  have "fd_get t3 fd = None"
    using at [rule_format, OF k(1)] k assms(5) len fd_wfD [OF t3(2)]
    by (simp add: close_fd_def get_fd_flags_def fd_get_def)
  with close alloc t3 show ?thesis by (auto simp: get_fd_flags_def)
qed

definition fd_stdio_example :: FdTable where
  "fd_stdio_example =
     fd_new\<lparr>entries := (replicate MAX_FDS None)[0 := Some ConsoleIn, 1 := Some ConsoleOut,
              2 := Some ConsoleErr, 3 := Some Anon],
            fd_flags := (replicate MAX_FDS 0)[3 := FD_CLOEXEC]\<rparr>"

theorem fd_reuse_inherits_flags_witness:
  "\<exists>t1 t2 t3. fd_close fd_stdio_example 3 = (Inr (), t1) \<and>
    fd_alloc t1 Anon = Some (Inr 3, t2) \<and>
    get_fd_flags t2 3 = get_fd_flags fd_stdio_example 3 \<and>
    close_on_exec t2 = Some t3 \<and> fd_get t3 3 = None"
proof (rule fd_reuse_inherits_flags)
  show "fd_wf fd_stdio_example" by (simp add: fd_stdio_example_def fd_wf_def)
  show "\<forall>g < 3. fd_get fd_stdio_example g \<noteq> None"
  proof (intro allI impI)
    fix g :: u32 assume "g < 3"
    then have "unat g = 0 \<or> unat g = 1 \<or> unat g = 2"
      by (auto simp: word_less_nat_alt)
    then show "fd_get fd_stdio_example g \<noteq> None"
      by (auto simp: fd_get_def fd_stdio_example_def idx_def MAX_FDS_def)
  qed
qed (simp_all add: fd_stdio_example_def fd_get_def get_fd_flags_def FD_CLOEXEC_def idx_def MAX_FDS_def)

end
