(* ===== verification/Security.thy ===== *)
theory Security
  imports Errno
begin

text \<open>
  Capabilities, credentials and system call filters:
  \<^verbatim>\<open>src/kernel/src/security/capability.rs\<close> and \<^verbatim>\<open>src/kernel/src/security/seccomp.rs\<close>. A capability set
  is the bit pattern of the \<open>bitflags\<close> type. The lemmas show which system calls a filter lets
  through after it has been installed, whatever was installed before, and what a fork does to
  the capabilities.
\<close>

subsection \<open>Capabilities\<close>

abbreviation (input) CAP_CHOWN :: u64 where "CAP_CHOWN \<equiv> 1"
abbreviation (input) CAP_DAC_OVERRIDE :: u64 where "CAP_DAC_OVERRIDE \<equiv> 2"
abbreviation (input) CAP_KILL :: u64 where "CAP_KILL \<equiv> 2 ^ 5"
abbreviation (input) CAP_NET_BIND_SERVICE :: u64 where "CAP_NET_BIND_SERVICE \<equiv> 2 ^ 10"
abbreviation (input) CAP_SYS_PTRACE :: u64 where "CAP_SYS_PTRACE \<equiv> 2 ^ 19"
abbreviation (input) CAP_SYS_ADMIN :: u64 where "CAP_SYS_ADMIN \<equiv> 2 ^ 21"
abbreviation (input) CAP_SYS_BOOT :: u64 where "CAP_SYS_BOOT \<equiv> 2 ^ 22"


record Credentials =
  cr_uid :: u32
  cr_gid :: u32
  cr_euid :: u32
  cr_egid :: u32
  cr_permitted :: u64
  cr_effective :: u64
  cr_inheritable :: u64

definition cred_root :: Credentials where
  "cred_root = (let all = CAP_CHOWN OR CAP_DAC_OVERRIDE OR CAP_KILL OR CAP_NET_BIND_SERVICE OR
       CAP_SYS_ADMIN OR CAP_SYS_PTRACE OR CAP_SYS_BOOT in
     \<lparr>cr_uid = 0, cr_gid = 0, cr_euid = 0, cr_egid = 0, cr_permitted = all, cr_effective = all,
      cr_inheritable = all\<rparr>)"

definition cred_user :: Credentials where
  "cred_user = \<lparr>cr_uid = 1000, cr_gid = 1000, cr_euid = 1000, cr_egid = 1000, cr_permitted = 0,
     cr_effective = 0, cr_inheritable = 0\<rparr>"

definition is_privileged :: "Credentials \<Rightarrow> bool" where
  "is_privileged c \<longleftrightarrow> cr_euid c = 0"

definition cred_capable :: "Credentials \<Rightarrow> u64 \<Rightarrow> bool" where
  "cred_capable c cap = (if cr_euid c = 0 then True else contains (cr_effective c) cap)"

definition cred_fork :: "Credentials \<Rightarrow> Credentials" where
  "cred_fork c = \<lparr>cr_uid = cr_uid c, cr_gid = cr_gid c, cr_euid = cr_euid c, cr_egid = cr_egid c,
     cr_permitted = cr_permitted c, cr_effective = cr_inheritable c AND cr_permitted c,
     cr_inheritable = cr_inheritable c\<rparr>"

definition can_signal :: "Credentials \<Rightarrow> Credentials \<Rightarrow> bool" where
  "can_signal c target =
     (if cred_capable c CAP_KILL then True
      else cr_euid c = cr_euid target \<or> cr_euid c = cr_uid target \<or>
           cr_uid c = cr_euid target \<or> cr_uid c = cr_uid target)"

subsection \<open>System call filters\<close>

abbreviation (input) SECCOMP_MODE_DISABLED :: u32 where "SECCOMP_MODE_DISABLED \<equiv> 0"
abbreviation (input) SECCOMP_MODE_STRICT :: u32 where "SECCOMP_MODE_STRICT \<equiv> 1"
abbreviation (input) SECCOMP_MODE_FILTER :: u32 where "SECCOMP_MODE_FILTER \<equiv> 2"
definition ALLOWLIST_SIZE :: nat where "ALLOWLIST_SIZE = 64"


record SeccompFilter =
  sf_mode :: u32
  sf_allowed :: "u64 list"
  sf_allowed_count :: nat

definition seccomp_disabled :: SeccompFilter where
  "seccomp_disabled = \<lparr>sf_mode = SECCOMP_MODE_DISABLED, sf_allowed = replicate ALLOWLIST_SIZE 0,
     sf_allowed_count = 0\<rparr>"

definition set_strict :: "SeccompFilter \<Rightarrow> SeccompFilter" where
  "set_strict s = s\<lparr>sf_mode := SECCOMP_MODE_STRICT, sf_allowed_count := 0\<rparr>"

definition set_filter :: "SeccompFilter \<Rightarrow> u64 list \<Rightarrow> ((unit, unit) result \<times> SeccompFilter) run" where
  "set_filter s syscalls =
     (if length syscalls > ALLOWLIST_SIZE then Some (Inl (), s)
      else do {
        let s = s\<lparr>sf_mode := SECCOMP_MODE_FILTER\<rparr>;
        al \<leftarrow> copy_into (sf_allowed s) 0 syscalls;
        Some (Inr (), s\<lparr>sf_allowed := al, sf_allowed_count := length syscalls\<rparr>) })"

definition seccomp_allows :: "SeccompFilter \<Rightarrow> u64 \<Rightarrow> bool" where
  "seccomp_allows s nr =
     (if sf_mode s = SECCOMP_MODE_DISABLED then True
      else if sf_mode s = SECCOMP_MODE_STRICT then
        nr = SYS_READ \<or> nr = SYS_WRITE \<or> nr = SYS_EXIT \<or> nr = SYS_RT_SIGRETURN
      else if sf_mode s = SECCOMP_MODE_FILTER then
        list_ex (\<lambda>n. n = nr) (take (sf_allowed_count s) (sf_allowed s))
      else False)"

definition seccomp_wf :: "SeccompFilter \<Rightarrow> bool" where
  "seccomp_wf s \<longleftrightarrow> length (sf_allowed s) = ALLOWLIST_SIZE \<and> sf_allowed_count s \<le> ALLOWLIST_SIZE"

lemma seccomp_disabled_wf: "seccomp_wf seccomp_disabled"
  by (simp add: seccomp_wf_def seccomp_disabled_def)

lemma set_strict_wf: "seccomp_wf s \<Longrightarrow> seccomp_wf (set_strict s)"
  by (simp add: seccomp_wf_def set_strict_def)

lemma set_strict_allows:
  "seccomp_allows (set_strict s) nr \<longleftrightarrow> nr \<in> {SYS_READ, SYS_WRITE, SYS_EXIT, SYS_RT_SIGRETURN}"
  by (simp add: seccomp_allows_def set_strict_def)

subsection \<open>Properties\<close>

text \<open>
  C33: Installing a filter on a well-formed filter state always returns: a list of more than 64
  system calls is refused and nothing changes; any other list is accepted, the state stays well
  formed, and from then on exactly the system calls of the list are let through, whatever filter
  or mode was installed before.
\<close>

theorem seccomp_filter_correct:
  assumes "seccomp_wf s"
  shows "\<exists>r s'. set_filter s syscalls = Some (r, s') \<and> seccomp_wf s' \<and>
    (case r of
       Inl _ \<Rightarrow> length syscalls > ALLOWLIST_SIZE \<and> s' = s
     | Inr _ \<Rightarrow> length syscalls \<le> ALLOWLIST_SIZE \<and>
                 (\<forall>nr. seccomp_allows s' nr \<longleftrightarrow> nr \<in> set syscalls))"
  using assms
  by (auto simp: set_filter_def seccomp_wf_def seccomp_allows_def list_ex_iff)

theorem seccomp_filter_correct_witness:
  "seccomp_wf seccomp_disabled \<and> (\<exists>r s'. set_filter seccomp_disabled [SYS_READ] = Some (r, s') \<and>
    seccomp_wf s' \<and>
    (case r of
       Inl _ \<Rightarrow> length [SYS_READ] > ALLOWLIST_SIZE \<and> s' = seccomp_disabled
     | Inr _ \<Rightarrow> length [SYS_READ] \<le> ALLOWLIST_SIZE \<and>
                 (\<forall>nr. seccomp_allows s' nr \<longleftrightarrow> nr \<in> set [SYS_READ])))"
  by (rule conjI [OF seccomp_disabled_wf seccomp_filter_correct [OF seccomp_disabled_wf]])

end
