(* ===== verification/Signal_Types.thy ===== *)
theory Signal_Types
  imports Errno
begin

text \<open>
  Signal sets, actions and the signal state of a process,
  \<^verbatim>\<open>src/kernel/src/signal/types.rs\<close>. A \<open>SigSet\<close> is its \<open>u64\<close> with bit \<open>sig\<close> for signal \<open>sig\<close>.
\<close>

definition NSIG :: nat where "NSIG = 64"
abbreviation (input) SIG_DFL :: u64 where "SIG_DFL \<equiv> 0"
abbreviation (input) SIG_IGN :: u64 where "SIG_IGN \<equiv> 1"

type_synonym SigSet = u64

definition sigset_empty :: SigSet where "sigset_empty = 0"

definition sig_add :: "SigSet \<Rightarrow> u32 \<Rightarrow> SigSet" where
  "sig_add s sig = (if sig > 0 \<and> sig < 64 then s OR push_bit (unat sig) 1 else s)"

definition sig_del :: "SigSet \<Rightarrow> u32 \<Rightarrow> SigSet" where
  "sig_del s sig = (if sig > 0 \<and> sig < 64 then s AND NOT (push_bit (unat sig) 1) else s)"

definition sig_contains :: "SigSet \<Rightarrow> u32 \<Rightarrow> bool" where
  "sig_contains s sig \<longleftrightarrow> sig > 0 \<and> sig < 64 \<and> s AND push_bit (unat sig) 1 \<noteq> 0"

definition sig_is_empty :: "SigSet \<Rightarrow> bool" where
  "sig_is_empty s \<longleftrightarrow> s = 0"

record SigAction =
  sa_handler :: u64
  sa_flags :: u64
  sa_restorer :: u64
  sa_mask :: SigSet

definition sigaction_default :: SigAction where
  "sigaction_default = \<lparr>sa_handler = SIG_DFL, sa_flags = 0, sa_restorer = 0, sa_mask = 0\<rparr>"

record SignalState =
  ss_pending :: SigSet
  ss_blocked :: SigSet
  ss_actions :: "SigAction list"
  ss_handling :: bool

definition signal_state_new :: SignalState where
  "signal_state_new = \<lparr>ss_pending = 0, ss_blocked = 0,
     ss_actions = replicate NSIG sigaction_default, ss_handling = False\<rparr>"

definition sig_deliver :: "SignalState \<Rightarrow> u32 \<Rightarrow> SignalState run" where
  "sig_deliver s sig =
     (if sig = 0 \<or> sig \<ge> of_nat NSIG then Some s
      else do {
        a \<leftarrow> idx (ss_actions s) (unat sig);
        if sa_handler a = SIG_IGN then Some s
        else Some (s\<lparr>ss_pending := sig_add (ss_pending s) sig\<rparr>) })"

fun take_pending_loop :: "SignalState \<Rightarrow> u32 list \<Rightarrow> u32 option \<times> SignalState" where
  "take_pending_loop s [] = (None, s)"
| "take_pending_loop s (sig # sigs) =
     (if sig_contains (ss_pending s) sig \<and> \<not> sig_contains (ss_blocked s) sig
      then (Some sig, s\<lparr>ss_pending := sig_del (ss_pending s) sig\<rparr>)
      else take_pending_loop s sigs)"

definition take_pending :: "SignalState \<Rightarrow> u32 option \<times> SignalState" where
  "take_pending s = take_pending_loop s (map of_nat [1..<NSIG])"

definition fork_state :: "SignalState \<Rightarrow> SignalState" where
  "fork_state s = \<lparr>ss_pending = 0, ss_blocked = ss_blocked s, ss_actions = ss_actions s,
     ss_handling = False\<rparr>"

subsection \<open>Signal sets as sets\<close>

lemma and_exp_iff: "w AND 2 ^ n \<noteq> 0 \<longleftrightarrow> bit w n" for w :: u64
proof
  assume "w AND 2 ^ n \<noteq> 0"
  then obtain i where "bit (w AND 2 ^ n) i" by (auto simp: bit_eq_iff)
  then show "bit w n" by (auto simp: bit_and_iff bit_exp_iff)
next
  assume w: "bit w n"
  then have "n < 64" using bit_imp_le_length [of w n] by simp
  with w have "bit (w AND 2 ^ n) n" by (simp add: bit_and_iff bit_exp_iff)
  then show "w AND 2 ^ n \<noteq> 0" by (metis bit_0_eq bot_apply bot_bool_def)
qed

lemma sig_contains_iff: "sig_contains s sig \<longleftrightarrow> 0 < sig \<and> sig < 64 \<and> bit s (unat sig)"
  by (simp add: sig_contains_def and_exp_iff)

lemma unat_sig: "sig < 64 \<Longrightarrow> unat sig < 64" for sig :: u32
  by (simp add: word_less_nat_alt)

lemma sig_contains_add:
  "sig_contains (sig_add s sig) g \<longleftrightarrow> (0 < sig \<and> sig < 64 \<and> g = sig) \<or> sig_contains s g"
  using unat_sig [of sig] unat_sig [of g]
  by (auto simp: sig_contains_iff sig_add_def bit_or_iff bit_exp_iff word_gt_0
      dest: unsigned_word_eqI)

lemma sig_contains_del: "sig_contains (sig_del s sig) g \<longleftrightarrow> g \<noteq> sig \<and> sig_contains s g"
  using unat_sig [of g]
  by (auto simp: sig_contains_iff sig_del_def bit_and_iff bit_not_iff bit_exp_iff
      dest: unsigned_word_eqI)

lemma take_pending_loop_eq:
  "take_pending_loop s sigs =
    (case position (\<lambda>g. sig_contains (ss_pending s) g \<and> \<not> sig_contains (ss_blocked s) g) sigs of
       None \<Rightarrow> (None, s)
     | Some k \<Rightarrow> (Some (sigs ! k), s\<lparr>ss_pending := sig_del (ss_pending s) (sigs ! k)\<rparr>))"
  by (induction sigs) (auto split: option.splits)

definition deliverable :: "SignalState \<Rightarrow> u32 \<Rightarrow> bool" where
  "deliverable s g \<longleftrightarrow> sig_contains (ss_pending s) g \<and> \<not> sig_contains (ss_blocked s) g"

lemma deliverable_range: "deliverable s g \<Longrightarrow> 0 < g \<and> g < 64"
  by (simp add: deliverable_def sig_contains_def)

definition sigs_list :: "u32 list" where
  "sigs_list = map of_nat [1..<NSIG]"

lemma sigs_list_nth: "k < 63 \<Longrightarrow> sigs_list ! k = of_nat (Suc k)"
  by (simp add: sigs_list_def NSIG_def del: of_nat_Suc upt_rec_numeral)

lemma length_sigs_list [simp]: "length sigs_list = 63"
  by (simp add: sigs_list_def NSIG_def del: upt_rec_numeral)

lemma sigs_list_index:
  assumes "0 < g" "g < 64"
  shows "sigs_list ! (unat g - 1) = g" "unat g - 1 < 63"
proof -
  have "0 < unat g" "unat g < 64" using assms by (auto simp: word_less_nat_alt word_gt_0 unat_eq_zero)
  then show "unat g - 1 < 63" "sigs_list ! (unat g - 1) = g"
    using sigs_list_nth [of "unat g - 1"] by (simp_all del: of_nat_Suc)
qed

lemma take_pending_eq:
  "take_pending s = (case position (deliverable s) sigs_list of
       None \<Rightarrow> (None, s)
     | Some k \<Rightarrow> (Some (sigs_list ! k), s\<lparr>ss_pending := sig_del (ss_pending s) (sigs_list ! k)\<rparr>))"
proof -
  have "(\<lambda>g. sig_contains (ss_pending s) g \<and> \<not> sig_contains (ss_blocked s) g) = deliverable s"
    by (rule ext) (simp add: deliverable_def)
  then show ?thesis by (simp only: take_pending_def take_pending_loop_eq sigs_list_def)
qed

subsection \<open>Properties\<close>

text \<open>
  C36: The next signal of a process: \<open>take_pending\<close> returns none exactly when no pending signal
  is unblocked, and then changes nothing; otherwise it returns the pending unblocked signal with
  the smallest number, removes exactly that signal from the pending set, and keeps the blocked
  set, the actions and the handling flag.
\<close>

theorem take_pending_correct:
  "case take_pending s of
     (None, s') \<Rightarrow> s' = s \<and> (\<forall>g. \<not> deliverable s g)
   | (Some sig, s') \<Rightarrow> deliverable s sig \<and> (\<forall>g < sig. \<not> deliverable s g) \<and>
       (\<forall>g. sig_contains (ss_pending s') g \<longleftrightarrow> g \<noteq> sig \<and> sig_contains (ss_pending s) g) \<and>
       s' = s\<lparr>ss_pending := ss_pending s'\<rparr>"
proof (cases "position (deliverable s) sigs_list")
  case None
  have "\<not> deliverable s g" for g
  proof
    assume g: "deliverable s g"
    from sigs_list_index [of g] deliverable_range [OF g] have "g \<in> set sigs_list"
      by (metis length_sigs_list nth_mem)
    with None g show False by (simp add: position_None)
  qed
  with None show ?thesis by (simp add: take_pending_eq)
next
  case (Some k)
  then have k: "k < 63" "deliverable s (sigs_list ! k)" "\<forall>j<k. \<not> deliverable s (sigs_list ! j)"
    by (simp_all add: position_Some)
  have "\<not> deliverable s g" if "g < sigs_list ! k" for g
  proof
    assume g: "deliverable s g"
    have "unat (sigs_list ! k) = Suc k"
      using k(1) by (simp add: sigs_list_nth unat_of_nat del: of_nat_Suc)
    with that have "unat g - 1 < k" using deliverable_range [OF g]
      by (auto simp: word_less_nat_alt)
    then show False using k(3) g sigs_list_index [of g] deliverable_range [OF g] by force
  qed
  with Some k(2) show ?thesis by (simp add: take_pending_eq sig_contains_del)
qed

theorem take_pending_correct_witness:
  "\<exists>sig s'. take_pending (signal_state_new\<lparr>ss_pending := 0x8200\<rparr>) = (Some sig, s') \<and> sig \<le> 9 \<and>
     sig_contains 0x8200 sig \<and> \<not> sig_contains (ss_pending s') sig"
proof -
  let ?s = "signal_state_new\<lparr>ss_pending := 0x8200\<rparr>"
  have d: "deliverable ?s 9" by (simp add: deliverable_def sig_contains_def signal_state_new_def)
  obtain r s' where rs: "take_pending ?s = (r, s')" by fastforce
  note c = take_pending_correct [of ?s, unfolded rs, simplified]
  show ?thesis
  proof (cases r)
    case None
    with c d show ?thesis by simp
  next
    case (Some sig)
    with c have sig: "deliverable ?s sig" "\<forall>g < sig. \<not> deliverable ?s g" "\<not> sig_contains (ss_pending s') sig"
      by simp_all
    then have "sig \<le> 9" using d not_le by blast
    with rs Some sig show ?thesis by (auto simp: deliverable_def)
  qed
qed

end
