(* ===== verification/Rb_Tree.thy ===== *)
theory Rb_Tree
  imports Prelude "HOL-Library.Tree"
begin

text \<open>
  The red-black tree of the run queue, \<^verbatim>\<open>src/kernel/src/sched/rbtree.rs\<close>: 1024 nodes in
  an array, linked by 16-bit indices with \<open>u16::MAX\<close> as the null link, and a free list that
  reuses the \<open>left\<close> link. Every array access of the source is a checked access here: an index
  out of range (in particular the null link) is a kernel panic, \<open>None\<close>. The loops of the
  source follow links, so they are \<^theory_text>\<open>partial_function (option)\<close>.
\<close>

subsection \<open>Nodes and trees\<close>

type_synonym rb_node_id = nat
type_synonym Tid = u32

definition RB_INVALID :: rb_node_id where
  "RB_INVALID = 65535"

definition is_valid :: "rb_node_id \<Rightarrow> bool" where
  "is_valid i \<longleftrightarrow> i \<noteq> RB_INVALID"

definition MAX_RB_NODES :: nat where
  "MAX_RB_NODES = 1024"

definition TID_INVALID :: Tid where
  "TID_INVALID = -1"

datatype Color = Red | Black

record rb_node =
  key :: u64
  tid :: Tid
  parent :: rb_node_id
  left :: rb_node_id
  right :: rb_node_id
  color :: Color
  in_use :: bool

record rb_tree =
  nodes :: "rb_node list"
  rb_root :: rb_node_id
  free_head :: rb_node_id

definition rb_node_empty :: rb_node where
  "rb_node_empty = \<lparr>key = 0, tid = TID_INVALID, parent = RB_INVALID, left = RB_INVALID,
     right = RB_INVALID, color = Black, in_use = False\<rparr>"

definition rb_new :: rb_tree where
  "rb_new = \<lparr>nodes = replicate MAX_RB_NODES rb_node_empty, rb_root = RB_INVALID,
     free_head = RB_INVALID\<rparr>"

text \<open>\<open>self.nodes[i]\<close>, and an assignment to fields of \<open>self.nodes[i]\<close>.\<close>

definition node :: "rb_tree \<Rightarrow> rb_node_id \<Rightarrow> rb_node run" where
  "node t i = idx (nodes t) i"

definition upd :: "rb_tree \<Rightarrow> rb_node_id \<Rightarrow> (rb_node \<Rightarrow> rb_node) \<Rightarrow> rb_tree run" where
  "upd t i f = do { n \<leftarrow> node t i; Some (t\<lparr>nodes := (nodes t)[i := f n]\<rparr>) }"

definition rb_init :: "rb_tree \<Rightarrow> rb_tree" where
  "rb_init t = t\<lparr>
     nodes := map (\<lambda>(i, n). n\<lparr>in_use := False,
        left := (if i + 1 < MAX_RB_NODES then i + 1 else RB_INVALID)\<rparr>)
        (zip [0..<MAX_RB_NODES] (nodes t)),
     free_head := 0, rb_root := RB_INVALID\<rparr>"

definition rb_is_empty :: "rb_tree \<Rightarrow> bool" where
  "rb_is_empty t \<longleftrightarrow> \<not> is_valid (rb_root t)"

definition rb_len :: "rb_tree \<Rightarrow> nat" where
  "rb_len t = length (filter in_use (nodes t))"

subsection \<open>The free list\<close>

definition alloc_node :: "rb_tree \<Rightarrow> (rb_node_id option \<times> rb_tree) run" where
  "alloc_node t =
     (if \<not> is_valid (free_head t) then Some (None, t)
      else do {
        let i = free_head t;
        n \<leftarrow> node t i;
        let next = left n;
        t \<leftarrow> upd t i (\<lambda>_. rb_node_empty\<lparr>in_use := True\<rparr>);
        Some (Some i, t\<lparr>free_head := next\<rparr>) })"

definition free_node :: "rb_tree \<Rightarrow> rb_node_id \<Rightarrow> rb_tree run" where
  "free_node t i = do {
     t \<leftarrow> upd t i (\<lambda>n. n\<lparr>in_use := False, left := free_head t\<rparr>);
     Some (t\<lparr>free_head := i\<rparr>) }"

subsection \<open>Rotations\<close>

definition rotate_left :: "rb_tree \<Rightarrow> rb_node_id \<Rightarrow> rb_tree run" where
  "rotate_left t x = do {
     nx \<leftarrow> node t x;
     let y = right nx;
     ny \<leftarrow> node t y;
     t \<leftarrow> upd t x (\<lambda>n. n\<lparr>right := left ny\<rparr>);
     ny \<leftarrow> node t y;
     t \<leftarrow> (if is_valid (left ny) then upd t (left ny) (\<lambda>n. n\<lparr>parent := x\<rparr>) else Some t);
     nx \<leftarrow> node t x;
     t \<leftarrow> upd t y (\<lambda>n. n\<lparr>parent := parent nx\<rparr>);
     nx \<leftarrow> node t x;
     let p = parent nx;
     t \<leftarrow> (if \<not> is_valid p then Some (t\<lparr>rb_root := y\<rparr>)
           else do {
             np \<leftarrow> node t p;
             if left np = x then upd t p (\<lambda>n. n\<lparr>left := y\<rparr>)
             else upd t p (\<lambda>n. n\<lparr>right := y\<rparr>) });
     t \<leftarrow> upd t y (\<lambda>n. n\<lparr>left := x\<rparr>);
     upd t x (\<lambda>n. n\<lparr>parent := y\<rparr>) }"

definition rotate_right :: "rb_tree \<Rightarrow> rb_node_id \<Rightarrow> rb_tree run" where
  "rotate_right t y = do {
     ny \<leftarrow> node t y;
     let x = left ny;
     nx \<leftarrow> node t x;
     t \<leftarrow> upd t y (\<lambda>n. n\<lparr>left := right nx\<rparr>);
     nx \<leftarrow> node t x;
     t \<leftarrow> (if is_valid (right nx) then upd t (right nx) (\<lambda>n. n\<lparr>parent := y\<rparr>) else Some t);
     ny \<leftarrow> node t y;
     t \<leftarrow> upd t x (\<lambda>n. n\<lparr>parent := parent ny\<rparr>);
     ny \<leftarrow> node t y;
     let p = parent ny;
     t \<leftarrow> (if \<not> is_valid p then Some (t\<lparr>rb_root := x\<rparr>)
           else do {
             np \<leftarrow> node t p;
             if right np = y then upd t p (\<lambda>n. n\<lparr>right := x\<rparr>)
             else upd t p (\<lambda>n. n\<lparr>left := x\<rparr>) });
     t \<leftarrow> upd t x (\<lambda>n. n\<lparr>right := y\<rparr>);
     upd t y (\<lambda>n. n\<lparr>parent := x\<rparr>) }"

subsection \<open>Insertion\<close>

definition set_color :: "rb_tree \<Rightarrow> rb_node_id \<Rightarrow> Color \<Rightarrow> rb_tree run" where
  "set_color t i c = upd t i (\<lambda>n. n\<lparr>color := c\<rparr>)"

text \<open>
  The two rotation cases of \<open>fix_insert\<close>: the inner rotation if the node is an inner grandchild,
  the assignment to the node's parent link, the rotation at the grandparent and the recolouring.
\<close>

definition fix_insert_rotate_left_case ::
    "rb_tree \<Rightarrow> rb_node_id \<Rightarrow> rb_node_id \<Rightarrow> rb_node_id \<Rightarrow> rb_tree run" where
  "fix_insert_rotate_left_case t node_id parent_id grandparent = do {
     np \<leftarrow> node t parent_id;
     (t, node_id) \<leftarrow> (if right np = node_id
        then do { t \<leftarrow> rotate_left t parent_id; Some (t, parent_id) } else Some (t, node_id));
     t \<leftarrow> upd t node_id (\<lambda>n. n\<lparr>parent := grandparent\<rparr>);
     t \<leftarrow> rotate_right t grandparent;
     ng \<leftarrow> node t grandparent;
     t \<leftarrow> set_color t (parent ng) Black;
     set_color t grandparent Red }"

definition fix_insert_rotate_right_case ::
    "rb_tree \<Rightarrow> rb_node_id \<Rightarrow> rb_node_id \<Rightarrow> rb_node_id \<Rightarrow> rb_tree run" where
  "fix_insert_rotate_right_case t node_id parent_id grandparent = do {
     np \<leftarrow> node t parent_id;
     (t, node_id) \<leftarrow> (if left np = node_id
        then do { t \<leftarrow> rotate_right t parent_id; Some (t, parent_id) } else Some (t, node_id));
     t \<leftarrow> upd t node_id (\<lambda>n. n\<lparr>parent := grandparent\<rparr>);
     t \<leftarrow> rotate_left t grandparent;
     ng \<leftarrow> node t grandparent;
     t \<leftarrow> set_color t (parent ng) Black;
     set_color t grandparent Red }"

partial_function (option) fix_insert_loop :: "rb_tree \<Rightarrow> rb_node_id \<Rightarrow> rb_tree run" where
  [code]: "fix_insert_loop t node_id =
     (if node_id = rb_root t then Some t
      else do {
        n \<leftarrow> node t node_id;
        let parent_id = parent n;
        (if \<not> is_valid parent_id then Some t
         else do {
           np \<leftarrow> node t parent_id;
           (if color np \<noteq> Red then Some t
            else (let grandparent = parent np in
              if \<not> is_valid grandparent then Some t
              else do {
                ng \<leftarrow> node t grandparent;
                let parent_is_left = (left ng = parent_id);
                let uncle_id = (if parent_is_left then right ng else left ng);
                uncle_red \<leftarrow> (if is_valid uncle_id
                   then map_option (\<lambda>nu. color nu = Red) (node t uncle_id) else Some False);
                (if uncle_red then do {
                   t \<leftarrow> set_color t parent_id Black;
                   t \<leftarrow> set_color t uncle_id Black;
                   t \<leftarrow> set_color t grandparent Red;
                   fix_insert_loop t grandparent }
                 else if parent_is_left
                 then fix_insert_rotate_left_case t node_id parent_id grandparent
                 else fix_insert_rotate_right_case t node_id parent_id grandparent) })) }) })"

definition fix_insert :: "rb_tree \<Rightarrow> rb_node_id \<Rightarrow> rb_tree run" where
  "fix_insert t node_id = do {
     t \<leftarrow> fix_insert_loop t node_id;
     set_color t (rb_root t) Black }"

text \<open>The descent of \<open>insert_node\<close>: it links the new node and returns its parent.\<close>

partial_function (option) insert_descend ::
    "rb_tree \<Rightarrow> u64 \<Rightarrow> rb_node_id \<Rightarrow> rb_node_id \<Rightarrow> (rb_tree \<times> rb_node_id) run" where
  [code]: "insert_descend t k node_id current = do {
     cur \<leftarrow> node t current;
     (if k < key cur
      then if \<not> is_valid (left cur)
        then do { t \<leftarrow> upd t current (\<lambda>n. n\<lparr>left := node_id\<rparr>); Some (t, current) }
        else insert_descend t k node_id (left cur)
      else if \<not> is_valid (right cur)
        then do { t \<leftarrow> upd t current (\<lambda>n. n\<lparr>right := node_id\<rparr>); Some (t, current) }
        else insert_descend t k node_id (right cur)) }"

definition insert_node :: "rb_tree \<Rightarrow> rb_node_id \<Rightarrow> rb_tree run" where
  "insert_node t node_id =
     (if \<not> is_valid (rb_root t)
      then set_color (t\<lparr>rb_root := node_id\<rparr>) node_id Black
      else do {
        n \<leftarrow> node t node_id;
        (t, current) \<leftarrow> insert_descend t (key n) node_id (rb_root t);
        t \<leftarrow> upd t node_id (\<lambda>n. n\<lparr>parent := current\<rparr>);
        fix_insert t node_id })"

definition rb_insert :: "rb_tree \<Rightarrow> u64 \<Rightarrow> Tid \<Rightarrow> (rb_node_id option \<times> rb_tree) run" where
  "rb_insert t k td = do {
     (r, t) \<leftarrow> alloc_node t;
     (case r of
        None \<Rightarrow> Some (None, t)
      | Some node_id \<Rightarrow> do {
          t \<leftarrow> upd t node_id (\<lambda>n. n\<lparr>key := k, tid := td, color := Red, parent := RB_INVALID,
                                   left := RB_INVALID, right := RB_INVALID\<rparr>);
          t \<leftarrow> insert_node t node_id;
          Some (Some node_id, t) }) }"

subsection \<open>Minimum\<close>

partial_function (option) rb_leftmost :: "rb_tree \<Rightarrow> rb_node_id \<Rightarrow> rb_node_id run" where
  [code]: "rb_leftmost t current = do {
     n \<leftarrow> node t current;
     (if is_valid (left n) then rb_leftmost t (left n) else Some current) }"

definition rb_min :: "rb_tree \<Rightarrow> (rb_node_id \<times> Tid \<times> u64) option run" where
  "rb_min t =
     (if \<not> is_valid (rb_root t) then Some None
      else do {
        current \<leftarrow> rb_leftmost t (rb_root t);
        n \<leftarrow> node t current;
        Some (Some (current, tid n, key n)) })"

definition peek_min_key :: "rb_tree \<Rightarrow> u64 option run" where
  "peek_min_key t = map_option (map_option (\<lambda>(_, _, k). k)) (rb_min t)"

subsection \<open>Deletion\<close>

definition node_color :: "rb_tree \<Rightarrow> rb_node_id \<Rightarrow> Color run" where
  "node_color t i = (if is_valid i then map_option color (node t i) else Some Black)"

definition black_if_valid :: "rb_tree \<Rightarrow> rb_node_id \<Rightarrow> rb_tree run" where
  "black_if_valid t i = (if is_valid i then set_color t i Black else Some t)"

text \<open>
  One iteration of the loop of \<open>fix_delete\<close> for \<open>x\<close> a left child (the first branch of the
  source) and for \<open>x\<close> a right child. \<open>Inl t\<close> leaves the loop (\<open>break\<close>), \<open>Inr (t, x)\<close> goes on
  with \<open>x\<close>.
\<close>

definition fix_delete_left ::
    "rb_tree \<Rightarrow> rb_node_id \<Rightarrow> rb_node_id \<Rightarrow> (rb_tree + rb_tree \<times> rb_node_id) run" where
  "fix_delete_left t x p = do {
     np \<leftarrow> node t p;
     let w = right np;
     w_red \<leftarrow> (if is_valid w then map_option (\<lambda>n. color n = Red) (node t w) else Some False);
     (t, w) \<leftarrow> (if w_red then do {
          t \<leftarrow> set_color t w Black;
          t \<leftarrow> set_color t p Red;
          t \<leftarrow> rotate_left t p;
          np \<leftarrow> node t p;
          Some (t, right np) } else Some (t, w));
     (if \<not> is_valid w then Some (Inl t)
      else do {
        nw \<leftarrow> node t w;
        cl \<leftarrow> node_color t (left nw);
        cr \<leftarrow> node_color t (right nw);
        (if cl = Black \<and> cr = Black then do {
           t \<leftarrow> set_color t w Red;
           Some (Inr (t, p)) }
         else do {
           (t, w) \<leftarrow> (if cr = Black then do {
                t \<leftarrow> black_if_valid t (left nw);
                t \<leftarrow> set_color t w Red;
                t \<leftarrow> rotate_right t w;
                np \<leftarrow> node t p;
                Some (t, right np) } else Some (t, w));
           (if is_valid w then do {
              np \<leftarrow> node t p;
              t \<leftarrow> set_color t w (color np);
              t \<leftarrow> set_color t p Black;
              nw \<leftarrow> node t w;
              t \<leftarrow> black_if_valid t (right nw);
              t \<leftarrow> rotate_left t p;
              Some (Inr (t, rb_root t)) }
            else Some (Inr (t, x))) }) }) }"

definition fix_delete_right ::
    "rb_tree \<Rightarrow> rb_node_id \<Rightarrow> rb_node_id \<Rightarrow> (rb_tree + rb_tree \<times> rb_node_id) run" where
  "fix_delete_right t x p = do {
     np \<leftarrow> node t p;
     let w = left np;
     w_red \<leftarrow> (if is_valid w then map_option (\<lambda>n. color n = Red) (node t w) else Some False);
     (t, w) \<leftarrow> (if w_red then do {
          t \<leftarrow> set_color t w Black;
          t \<leftarrow> set_color t p Red;
          t \<leftarrow> rotate_right t p;
          np \<leftarrow> node t p;
          Some (t, left np) } else Some (t, w));
     (if \<not> is_valid w then Some (Inl t)
      else do {
        nw \<leftarrow> node t w;
        cr \<leftarrow> node_color t (right nw);
        cl \<leftarrow> node_color t (left nw);
        (if cr = Black \<and> cl = Black then do {
           t \<leftarrow> set_color t w Red;
           Some (Inr (t, p)) }
         else do {
           (t, w) \<leftarrow> (if cl = Black then do {
                t \<leftarrow> black_if_valid t (right nw);
                t \<leftarrow> set_color t w Red;
                t \<leftarrow> rotate_left t w;
                np \<leftarrow> node t p;
                Some (t, left np) } else Some (t, w));
           (if is_valid w then do {
              np \<leftarrow> node t p;
              t \<leftarrow> set_color t w (color np);
              t \<leftarrow> set_color t p Black;
              nw \<leftarrow> node t w;
              t \<leftarrow> black_if_valid t (left nw);
              t \<leftarrow> rotate_right t p;
              Some (Inr (t, rb_root t)) }
            else Some (Inr (t, x))) }) }) }"

partial_function (option) fix_delete_loop ::
    "rb_tree \<Rightarrow> rb_node_id \<Rightarrow> (rb_tree \<times> rb_node_id) run" where
  [code]: "fix_delete_loop t x =
     (if x = rb_root t then Some (t, x)
      else if \<not> is_valid x then Some (t, x)
      else do {
        nx \<leftarrow> node t x;
        (if color nx \<noteq> Black then Some (t, x)
         else (let p = parent nx in
           if \<not> is_valid p then Some (t, x)
           else do {
             np \<leftarrow> node t p;
             r \<leftarrow> (if left np = x then fix_delete_left t x p else fix_delete_right t x p);
             (case r of Inl t \<Rightarrow> Some (t, x) | Inr (t, x) \<Rightarrow> fix_delete_loop t x) })) })"

definition fix_delete :: "rb_tree \<Rightarrow> rb_node_id \<Rightarrow> rb_tree run" where
  "fix_delete t x = do {
     (t, x) \<leftarrow> fix_delete_loop t x;
     black_if_valid t x }"

definition transplant :: "rb_tree \<Rightarrow> rb_node_id \<Rightarrow> rb_node_id \<Rightarrow> rb_tree run" where
  "transplant t u_id v_id = do {
     u \<leftarrow> node t u_id;
     v_node \<leftarrow> node t v_id;
     t \<leftarrow> upd t v_id (\<lambda>_. u\<lparr>left := left v_node, right := right v_node, color := color v_node,
                            tid := tid v_node, key := key v_node\<rparr>);
     nv \<leftarrow> node t v_id;
     t \<leftarrow> (if is_valid (left nv) then upd t (left nv) (\<lambda>n. n\<lparr>parent := v_id\<rparr>) else Some t);
     nv \<leftarrow> node t v_id;
     t \<leftarrow> (if is_valid (right nv) then upd t (right nv) (\<lambda>n. n\<lparr>parent := v_id\<rparr>) else Some t);
     let p = parent u;
     t \<leftarrow> (if \<not> is_valid p then Some (t\<lparr>rb_root := v_id\<rparr>)
           else do {
             np \<leftarrow> node t p;
             if left np = u_id then upd t p (\<lambda>n. n\<lparr>left := v_id\<rparr>)
             else upd t p (\<lambda>n. n\<lparr>right := v_id\<rparr>) });
     upd t v_id (\<lambda>n. n\<lparr>parent := p\<rparr>) }"

text \<open>The middle of \<open>delete_node\<close>: \<open>x\<close> takes the place of \<open>y\<close> below the parent of \<open>y\<close>.\<close>

definition splice_out :: "rb_tree \<Rightarrow> rb_node_id \<Rightarrow> rb_node_id \<Rightarrow> rb_tree run" where
  "splice_out t y_id x_id = do {
     ny \<leftarrow> node t y_id;
     t \<leftarrow> (if is_valid x_id then upd t x_id (\<lambda>n. n\<lparr>parent := parent ny\<rparr>) else Some t);
     ny \<leftarrow> node t y_id;
     let y_parent = parent ny;
     (if \<not> is_valid y_parent then Some (t\<lparr>rb_root := x_id\<rparr>)
      else do {
        np \<leftarrow> node t y_parent;
        if left np = y_id then upd t y_parent (\<lambda>n. n\<lparr>left := x_id\<rparr>)
        else upd t y_parent (\<lambda>n. n\<lparr>right := x_id\<rparr>) }) }"

definition delete_node :: "rb_tree \<Rightarrow> rb_node_id \<Rightarrow> rb_tree run" where
  "delete_node t z_id = do {
     z \<leftarrow> node t z_id;
     y_id \<leftarrow> (if \<not> is_valid (left z) \<or> \<not> is_valid (right z) then Some z_id
              else rb_leftmost t (right z));
     ny \<leftarrow> node t y_id;
     let y_original_black = (color ny = Black);
     let x_id = (if \<not> is_valid (left ny) then right ny else left ny);
     t \<leftarrow> splice_out t y_id x_id;
     t \<leftarrow> (if y_id \<noteq> z_id then transplant t z_id y_id else Some t);
     (if y_original_black then fix_delete t x_id else Some t) }"

definition rb_remove :: "rb_tree \<Rightarrow> rb_node_id \<Rightarrow> (Tid option \<times> rb_tree) run" where
  "rb_remove t node_id =
     (if \<not> is_valid node_id then Some (None, t)
      else do {
        n \<leftarrow> node t node_id;
        (if \<not> in_use n then Some (None, t)
         else do {
           let td = tid n;
           t \<leftarrow> delete_node t node_id;
           t \<leftarrow> free_node t node_id;
           Some (Some td, t) }) })"

end
