(* ===== verification/Cfs.thy ===== *)
theory Cfs
  imports Prelude
begin

text \<open>
  The accounting of the Completely Fair Scheduler, \<^verbatim>\<open>src/kernel/src/sched/cfs.rs\<close>: the
  nice-to-weight table, the weighted run-time of a slice, and the placement of a thread that
  joins a run queue.
\<close>

subsection \<open>Definitions\<close>

definition NICE_0_LOAD :: u64 where
  "NICE_0_LOAD = 1024"

definition NICE_WEIGHT :: "u64 list" where
  "NICE_WEIGHT =
    [88761, 71755, 56483, 46273, 36291, 29154, 23254, 18705, 14949, 11916, 9548, 7620, 6100,
     4904, 3906, 3121, 2501, 1991, 1586, 1277, 1024, 820, 655, 526, 423, 335, 272, 215, 172,
     137, 110, 87, 70, 56, 45, 36, 29, 23, 18, 15]"

text \<open>\<open>nice\<close> is an \<open>i8\<close>, widened to \<open>i32\<close> before 20 is added, so the sum cannot wrap.\<close>

definition weight_for_nice :: "8 word \<Rightarrow> u64 run" where
  "weight_for_nice nice = idx NICE_WEIGHT (nat (max 0 (min 39 (sint nice + 20))))"

definition calc_delta_fair :: "u64 \<Rightarrow> u64 \<Rightarrow> u64" where
  "calc_delta_fair delta weight =
     (if weight = NICE_0_LOAD then delta
      else saturating_mul delta NICE_0_LOAD div max weight 1)"

definition update_vruntime :: "u64 \<Rightarrow> u64 \<Rightarrow> u64 \<Rightarrow> u64" where
  "update_vruntime vruntime delta_exec weight =
     saturating_add vruntime (calc_delta_fair delta_exec weight)"

definition place_entity :: "u64 \<Rightarrow> u64 \<Rightarrow> u64" where
  "place_entity min_vruntime vruntime =
     (if vruntime \<ge> min_vruntime then vruntime else min_vruntime)"

subsection \<open>Lemmas\<close>

lemma NICE_WEIGHT_length [simp]: "length NICE_WEIGHT = 40"
  by (simp add: NICE_WEIGHT_def)

lemma NICE_WEIGHT_decreasing: "sorted_wrt (\<lambda>a b. b < a) NICE_WEIGHT"
  by (simp add: NICE_WEIGHT_def)

lemma NICE_WEIGHT_nth_less: "i < j \<Longrightarrow> j < 40 \<Longrightarrow> NICE_WEIGHT ! j < NICE_WEIGHT ! i"
  using NICE_WEIGHT_decreasing by (simp add: sorted_wrt_iff_nth_less)

lemma place_entity_max [simp]: "place_entity m v = max v m"
  by (auto simp: place_entity_def max_def)

lemma unat_max_one: "unat (max w 1) = max (unat w) 1" for w :: u64
  by (simp add: max_def word_le_nat_alt)

text \<open>
  The weighted slice in unsigned values: exact while \<open>1024 * delta\<close> fits in 64 bits, and never
  more than the division of the saturated product.
\<close>

lemma unat_calc_delta_fair:
  assumes "unat delta * 1024 < 2 ^ 64"
  shows "unat (calc_delta_fair delta weight) = unat delta * 1024 div max (unat weight) 1"
proof (cases "weight = NICE_0_LOAD")
  case True
  then show ?thesis
    by (simp add: calc_delta_fair_def NICE_0_LOAD_def)
next
  case False
  have "unat (saturating_mul delta NICE_0_LOAD) = unat delta * 1024"
    using assms by (simp add: unat_saturating_mul NICE_0_LOAD_def min_def)
  with False show ?thesis
    by (simp add: calc_delta_fair_def unat_div unat_max_one)
qed

lemma unat_update_vruntime:
  assumes "unat delta * 1024 < 2 ^ 64"
  shows "unat (update_vruntime v delta w) =
           min (unat v + unat delta * 1024 div max (unat w) 1) (2 ^ 64 - 1)"
  using assms by (simp add: update_vruntime_def unat_saturating_add unat_calc_delta_fair)

lemma weight_for_nice_in_range:
  "-20 \<le> sint n \<Longrightarrow> sint n \<le> 19 \<Longrightarrow> weight_for_nice n = Some (NICE_WEIGHT ! nat (sint n + 20))"
  by (simp add: weight_for_nice_def)

text \<open>The same for every slice: the product saturates, except at the weight of nice 0.\<close>

lemma unat_update_vruntime_any:
  "unat (update_vruntime v delta w) = min (unat v + (if w = NICE_0_LOAD then unat delta
     else min (unat delta * 1024) (2 ^ 64 - 1) div max (unat w) 1)) (2 ^ 64 - 1)"
  by (simp add: update_vruntime_def calc_delta_fair_def unat_saturating_add unat_saturating_mul unat_div
      unat_max_one NICE_0_LOAD_def)

text \<open>
  C31: a thread's virtual run-time never goes backwards, and for every slice it advances by the
  saturated product of the slice and 1024 divided by the weight, or by the slice itself at the weight
  1024 of nice 0, until the 64-bit counter saturates. For a slice below \<open>2\<^sup>5\<^sup>4\<close> nanoseconds,
  where the product fits, it advances by exactly \<open>1024 * delta / weight\<close>, and a heavier thread never
  advances faster than a lighter one. For a slice of \<open>2\<^sup>5\<^sup>5\<close> nanoseconds and more this fails: the
  product saturates for weight 1023, while weight 1024 is charged the whole slice.
\<close>

theorem update_vruntime_fair:
  "v \<le> update_vruntime v delta w \<and>
   unat (update_vruntime v delta w) = min (unat v + (if w = NICE_0_LOAD then unat delta
     else min (unat delta * 1024) (2 ^ 64 - 1) div max (unat w) 1)) (2 ^ 64 - 1) \<and>
   (unat delta < 2 ^ 54 \<longrightarrow>
     unat (update_vruntime v delta w) = min (unat v + unat delta * 1024 div max (unat w) 1) (2 ^ 64 - 1) \<and>
     (w \<le> w' \<longrightarrow> update_vruntime v delta w' \<le> update_vruntime v delta w)) \<and>
   (2 ^ 55 \<le> unat delta \<longrightarrow> update_vruntime 0 delta 1023 < update_vruntime 0 delta 1024)"
proof (intro conjI impI)
  show "unat (update_vruntime v delta w) = min (unat v + (if w = NICE_0_LOAD then unat delta
     else min (unat delta * 1024) (2 ^ 64 - 1) div max (unat w) 1)) (2 ^ 64 - 1)"
    by (rule unat_update_vruntime_any)
  show "v \<le> update_vruntime v delta w"
    using unat_bound [of v] unfolding word_le_nat_alt unat_update_vruntime_any by simp
  assume d: "unat delta < 2 ^ 54"
  then have "unat delta * 1024 < 2 ^ 64" by simp
  note * = unat_update_vruntime [OF this]
  show "unat (update_vruntime v delta w) =
      min (unat v + unat delta * 1024 div max (unat w) 1) (2 ^ 64 - 1)"
    by (rule *)
  assume "w \<le> w'"
  then have "max (unat w) 1 \<le> max (unat w') 1"
    by (auto simp: word_le_nat_alt)
  then have "unat delta * 1024 div max (unat w') 1 \<le> unat delta * 1024 div max (unat w) 1"
    by (rule div_le_mono2 [rotated]) simp
  then show "update_vruntime v delta w' \<le> update_vruntime v delta w"
    unfolding word_le_nat_alt * by simp
next
  assume d: "2 ^ 55 \<le> unat delta"
  then have "unat (update_vruntime 0 delta 1023) = (2 ^ 64 - 1) div 1023"
    by (simp add: unat_update_vruntime_any NICE_0_LOAD_def)
  moreover have "unat (update_vruntime 0 delta 1024) = unat delta"
    using unat_bound [of delta] by (simp add: unat_update_vruntime_any NICE_0_LOAD_def)
  ultimately show "update_vruntime 0 delta 1023 < update_vruntime 0 delta 1024"
    using d unfolding word_less_nat_alt by simp
qed

theorem update_vruntime_fair_witness:
  "update_vruntime 5 1000000 2048 \<le> update_vruntime 5 1000000 1024 \<and>
   update_vruntime 5 1000000 2048 = 500005 \<and>
   update_vruntime 0 0x8000000000000000 1023 < update_vruntime 0 0x8000000000000000 1024"
proof -
  have "unat (1000000 :: u64) < 2 ^ 54" "(1024 :: u64) \<le> 2048" "2 ^ 55 \<le> unat (0x8000000000000000 :: u64)" by simp_all
  with update_vruntime_fair [of 5 1000000 1024 2048] update_vruntime_fair [of 5 1000000 2048 2048]
    update_vruntime_fair [of 0 "0x8000000000000000" 1 1]
  have "update_vruntime 5 1000000 2048 \<le> update_vruntime 5 1000000 1024"
    "unat (update_vruntime 5 1000000 2048) = 500005"
    "update_vruntime 0 0x8000000000000000 1023 < update_vruntime 0 0x8000000000000000 1024" by simp_all
  moreover have "unat (500005 :: u64) = 500005" by simp
  ultimately show ?thesis by (metis unsigned_word_eqI)
qed

text \<open>
  C37: the nice-to-weight map is total on every \<open>i8\<close>, is \<open>NICE_0_LOAD\<close> at nice 0, and is
  strictly decreasing on the POSIX range -20 to 19.
\<close>

theorem weight_for_nice_total_decreasing:
  "(\<exists>w. weight_for_nice n = Some w) \<and> weight_for_nice 0 = Some NICE_0_LOAD \<and>
   (-20 \<le> sint a \<longrightarrow> sint a < sint b \<longrightarrow> sint b \<le> 19 \<longrightarrow>
     (\<exists>wa wb. weight_for_nice a = Some wa \<and> weight_for_nice b = Some wb \<and> wb < wa))"
proof (intro conjI impI)
  show "\<exists>w. weight_for_nice n = Some w"
    by (simp add: weight_for_nice_def)
  show "weight_for_nice 0 = Some NICE_0_LOAD"
    by (simp add: weight_for_nice_def NICE_WEIGHT_def NICE_0_LOAD_def)
  assume "-20 \<le> sint a" "sint a < sint b" "sint b \<le> 19"
  then show "\<exists>wa wb. weight_for_nice a = Some wa \<and> weight_for_nice b = Some wb \<and> wb < wa"
    using NICE_WEIGHT_nth_less [of "nat (sint a + 20)" "nat (sint b + 20)"]
    by (simp add: weight_for_nice_in_range)
qed

theorem weight_for_nice_total_decreasing_witness:
  "-20 \<le> sint (-5 :: 8 word) \<and> sint (-5 :: 8 word) < sint (10 :: 8 word) \<and>
   (\<exists>wa wb. weight_for_nice (-5) = Some wa \<and> weight_for_nice 10 = Some wb \<and> wb < wa)"
  using weight_for_nice_total_decreasing [of 0 "-5" 10] by simp

end
