(* ===== verification/Proc.thy ===== *)
theory Proc
  imports Context Vm Fd Security Signal_Types Rb_Tree Cfs
begin

text \<open>
  Processes, threads and the tables that hold them: \<^verbatim>\<open>src/kernel/src/proc/id.rs\<close>,
  \<^verbatim>\<open>src/kernel/src/proc/thread.rs\<close>, \<^verbatim>\<open>src/kernel/src/proc/pcb.rs\<close>, \<^verbatim>\<open>src/kernel/src/proc/table.rs\<close>,
  \<^verbatim>\<open>src/kernel/src/proc/mod.rs\<close> and the queue of \<^verbatim>\<open>src/kernel/src/ipc/wait.rs\<close>.

  The static variables of these modules and of the scheduler are the fields of the record
  \<open>Kernel\<close>. A spin lock is an element of \<open>kn_held\<close> while the running code holds it; taking a lock
  that the running code already holds spins for ever, so it is a computation that does not return.
  The record is extensible: the modules that are built on the scheduler add their own statics.
\<close>

subsection \<open>Identifiers\<close>

type_synonym Pid = u32

abbreviation (input) PID_KERNEL :: Pid where "PID_KERNEL \<equiv> 0"
abbreviation (input) PID_INVALID :: Pid where "PID_INVALID \<equiv> -1"

definition tid_is_valid :: "Tid \<Rightarrow> bool" where
  "tid_is_valid td \<longleftrightarrow> td \<noteq> -1"

subsection \<open>Wait queues\<close>

definition WAIT_SLOTS :: nat where "WAIT_SLOTS = 32"

record WaitQueue =
  wq_threads :: "Tid list"
  wq_len :: nat

definition wq_new :: WaitQueue where
  "wq_new = \<lparr>wq_threads = replicate WAIT_SLOTS TID_INVALID, wq_len = 0\<rparr>"

definition wq_push :: "WaitQueue \<Rightarrow> Tid \<Rightarrow> (bool \<times> WaitQueue) run" where
  "wq_push q td =
     (if wq_len q \<ge> WAIT_SLOTS then Some (False, q)
      else do {
        ts \<leftarrow> set_idx (wq_threads q) (wq_len q) td;
        Some (True, q\<lparr>wq_threads := ts, wq_len := wq_len q + 1\<rparr>) })"

definition wq_pop :: "WaitQueue \<Rightarrow> (Tid option \<times> WaitQueue) run" where
  "wq_pop q =
     (if wq_len q = 0 then Some (None, q)
      else do {
        let q = q\<lparr>wq_len := wq_len q - 1\<rparr>;
        td \<leftarrow> idx (wq_threads q) (wq_len q);
        Some (Some td, q) })"

subsection \<open>Threads\<close>

abbreviation (input) THREAD_KERNEL_STACK_SIZE :: nat where "THREAD_KERNEL_STACK_SIZE \<equiv> 16384"

datatype ThreadState = Created | Runnable | Running | Sleeping | Blocked | Zombie | Dead

abbreviation (input) TF_KERNEL :: u32 where "TF_KERNEL \<equiv> 1"
abbreviation (input) TF_USER :: u32 where "TF_USER \<equiv> 2"
abbreviation (input) TF_IDLE :: u32 where "TF_IDLE \<equiv> 4"

record Thread =
  th_tid :: Tid
  th_pid :: Pid
  th_state :: ThreadState
  th_flags :: u32
  th_cpu :: u32
  th_nice :: u8
  th_weight :: u64
  th_vruntime :: u64
  th_exec_start :: u64
  th_sum_exec_runtime :: u64
  th_pi_boost :: u64
  th_context :: CpuContext
  th_extended :: "u8 list"
  th_kernel_stack :: "u8 list"
  th_kernel_stack_top :: u64
  th_rb_node :: rb_node_id
  th_on_rq :: bool
  th_blocking_mutex :: "u32 option"
  th_fs_base :: u64
  th_clear_child_tid :: u64

text \<open>\<open>stack\<close> is the address of the array \<open>kernel_stack\<close> of the value under construction.\<close>

definition thread_base :: "u64 \<Rightarrow> Tid \<Rightarrow> Pid \<Rightarrow> u32 \<Rightarrow> Thread run" where
  "thread_base stack td pd flags = do {
     w \<leftarrow> weight_for_nice 0;
     Some \<lparr>th_tid = td, th_pid = pd, th_state = Created, th_flags = flags, th_cpu = 0, th_nice = 0,
       th_weight = w, th_vruntime = 0, th_exec_start = 0, th_sum_exec_runtime = 0, th_pi_boost = 0,
       th_context = cpu_context_empty, th_extended = extended_zeroed,
       th_kernel_stack = replicate THREAD_KERNEL_STACK_SIZE 0,
       th_kernel_stack_top = stack + of_nat THREAD_KERNEL_STACK_SIZE, th_rb_node = RB_INVALID,
       th_on_rq = False, th_blocking_mutex = None, th_fs_base = 0, th_clear_child_tid = 0\<rparr> }"

definition thread_new_user :: "u64 \<Rightarrow> Tid \<Rightarrow> Pid \<Rightarrow> u64 \<Rightarrow> u64 \<Rightarrow> Thread run" where
  "thread_new_user stack td pd entry user_stack = do {
     t \<leftarrow> thread_base stack td pd TF_USER;
     Some (t\<lparr>th_context := init_user_thread user_stack entry\<rparr>) }"

definition thread_new_kernel :: "u64 \<Rightarrow> Tid \<Rightarrow> Pid \<Rightarrow> u64 \<Rightarrow> u32 \<Rightarrow> Thread run" where
  "thread_new_kernel stack td pd entry flags = do {
     t \<leftarrow> thread_base stack td pd (flags OR TF_KERNEL);
     Some (t\<lparr>th_context := init_kernel_thread (th_kernel_stack_top t) entry\<rparr>) }"

definition effective_vruntime :: "Thread \<Rightarrow> u64" where
  "effective_vruntime t = saturating_sub (th_vruntime t) (th_pi_boost t)"

definition is_idle :: "Thread \<Rightarrow> bool" where
  "is_idle t \<longleftrightarrow> contains (th_flags t) TF_IDLE"

definition is_kernel :: "Thread \<Rightarrow> bool" where
  "is_kernel t \<longleftrightarrow> contains (th_flags t) TF_KERNEL"

definition is_user :: "Thread \<Rightarrow> bool" where
  "is_user t \<longleftrightarrow> contains (th_flags t) TF_USER"

subsection \<open>Processes\<close>

abbreviation (input) MAX_THREADS_PER_PROCESS :: nat where "MAX_THREADS_PER_PROCESS \<equiv> 64"
abbreviation (input) MAX_CHILDREN :: nat where "MAX_CHILDREN \<equiv> 64"

datatype ProcessState = PCreated | PRunning | PSleeping | PZombie | PDead

abbreviation (input) PROC_KERNEL :: u32 where "PROC_KERNEL \<equiv> 1"

record Process =
  pr_pid :: Pid
  pr_parent :: Pid
  pr_state :: ProcessState
  pr_exit_code :: u32
  pr_nice :: u8
  pr_flags :: u32
  pr_address_space :: "AddressSpace option"
  pr_address_space_id :: u64
  pr_main_thread :: Tid
  pr_threads :: "Tid list"
  pr_thread_count :: nat
  pr_cpu_time_ns :: u64
  pr_brk :: u64
  pr_brk_limit :: u64
  pr_cwd :: "u8 list"
  pr_fds :: FdTable
  pr_cred :: Credentials
  pr_seccomp :: SeccompFilter
  pr_signals :: SignalState
  pr_children :: "Pid list"
  pr_child_count :: nat
  pr_child_wait :: WaitQueue

definition root_cwd :: "u8 list" where
  "root_cwd = (replicate 256 0)[0 := 0x2F]"

definition process_kernel :: Process where
  "process_kernel = \<lparr>pr_pid = PID_KERNEL, pr_parent = PID_KERNEL, pr_state = PRunning, pr_exit_code = 0,
     pr_nice = 0, pr_flags = PROC_KERNEL, pr_address_space = None, pr_address_space_id = 0,
     pr_main_thread = TID_INVALID, pr_threads = replicate MAX_THREADS_PER_PROCESS TID_INVALID,
     pr_thread_count = 0, pr_cpu_time_ns = 0, pr_brk = USER_HEAP_BASE,
     pr_brk_limit = USER_HEAP_BASE + 128 * 1024 * 1024, pr_cwd = root_cwd, pr_fds = fd_new,
     pr_cred = cred_root, pr_seccomp = seccomp_disabled, pr_signals = signal_state_new,
     pr_children = replicate MAX_CHILDREN PID_INVALID, pr_child_count = 0, pr_child_wait = wq_new\<rparr>"

definition process_new_user :: "Pid \<Rightarrow> Pid \<Rightarrow> AddressSpace \<Rightarrow> Process run" where
  "process_new_user pd ppid space = do {
     fds \<leftarrow> init_stdio fd_new;
     Some \<lparr>pr_pid = pd, pr_parent = ppid, pr_state = PCreated, pr_exit_code = 0,
       pr_nice = 0, pr_flags = 0, pr_address_space = Some space, pr_address_space_id = as_id space,
       pr_main_thread = TID_INVALID, pr_threads = replicate MAX_THREADS_PER_PROCESS TID_INVALID,
       pr_thread_count = 0, pr_cpu_time_ns = 0, pr_brk = USER_HEAP_BASE,
       pr_brk_limit = USER_HEAP_BASE + 128 * 1024 * 1024, pr_cwd = root_cwd, pr_fds = fds,
       pr_cred = cred_user, pr_seccomp = seccomp_disabled, pr_signals = signal_state_new,
       pr_children = replicate MAX_CHILDREN PID_INVALID, pr_child_count = 0, pr_child_wait = wq_new\<rparr> }"

definition add_thread :: "Process \<Rightarrow> Tid \<Rightarrow> (bool \<times> Process) run" where
  "add_thread p td =
     (if pr_thread_count p \<ge> MAX_THREADS_PER_PROCESS then Some (False, p)
      else do {
        ts \<leftarrow> set_idx (pr_threads p) (pr_thread_count p) td;
        let p = p\<lparr>pr_threads := ts, pr_thread_count := pr_thread_count p + 1\<rparr>;
        Some (True, if \<not> tid_is_valid (pr_main_thread p) then p\<lparr>pr_main_thread := td\<rparr> else p) })"

definition add_child :: "Process \<Rightarrow> Pid \<Rightarrow> (bool \<times> Process) run" where
  "add_child p child =
     (if pr_child_count p \<ge> MAX_CHILDREN then Some (False, p)
      else do {
        cs \<leftarrow> set_idx (pr_children p) (pr_child_count p) child;
        Some (True, p\<lparr>pr_children := cs, pr_child_count := pr_child_count p + 1\<rparr>) })"

subsection \<open>The statics of the kernel\<close>

record CfsRunQueue =
  rq_cpu :: u32
  rq_tree :: rb_tree
  rq_nr_running :: u32
  rq_min_vruntime :: u64
  rq_curr :: Tid
  rq_idle :: Tid

datatype lock = THREADS | PROCESSES | RUNQUEUES | PIPES | NEXT_PIPE | FIFOS | QUEUES

record Kernel =
  kn_threads :: "Thread option list"
  kn_processes :: "Process option list"
  kn_runqueues :: "CfsRunQueue list"
  kn_current_threads :: "Tid list"
  kn_next_pid :: u32
  kn_next_tid :: u32
  kn_preempt_count :: u32
  kn_need_resched :: bool
  kn_interrupts :: bool
  kn_cpu :: u32
  kn_cpu_count :: u32
  kn_kernel_space :: "AddressSpace option"
  kn_current_space :: "u64 option"
  kn_cr3 :: u64
  kn_fs_msr :: u64
  kn_rsp0 :: "u64 list"
  kn_kstack :: "u64 list"
  kn_held :: "lock set"

type_synonym ('a, 'z) kop = "'z Kernel_scheme \<Rightarrow> ('a \<times> 'z Kernel_scheme) run"

definition acquire :: "lock \<Rightarrow> 'z Kernel_scheme \<Rightarrow> 'z Kernel_scheme run" where
  "acquire l k = (if l \<in> kn_held k then None else Some (k\<lparr>kn_held := insert l (kn_held k)\<rparr>))"

definition release :: "lock \<Rightarrow> 'z Kernel_scheme \<Rightarrow> 'z Kernel_scheme" where
  "release l k = k\<lparr>kn_held := kn_held k - {l}\<rparr>"

definition alloc_pid :: "(Pid, 'z) kop" where
  "alloc_pid k = Some (kn_next_pid k, k\<lparr>kn_next_pid := kn_next_pid k + 1\<rparr>)"

definition alloc_tid :: "(Tid, 'z) kop" where
  "alloc_tid k = Some (kn_next_tid k, k\<lparr>kn_next_tid := kn_next_tid k + 1\<rparr>)"

subsection \<open>The tables\<close>

definition MAX_PROCESSES :: nat where "MAX_PROCESSES = 256"
definition MAX_THREADS :: nat where "MAX_THREADS = 1024"

definition table_init :: "(unit, 'z) kop" where
  "table_init k = do {
     k \<leftarrow> acquire PROCESSES k;
     ps \<leftarrow> set_idx (kn_processes k) 0 (Some process_kernel);
     Some ((), release PROCESSES (k\<lparr>kn_processes := ps\<rparr>)) }"

definition insert_process :: "Process \<Rightarrow> (Pid option, 'z) kop" where
  "insert_process p k = (
     let pd = unat (pr_pid p) in
     if pd \<ge> MAX_PROCESSES then Some (None, k)
     else do {
       k \<leftarrow> acquire PROCESSES k;
       slot \<leftarrow> idx (kn_processes k) pd;
       (if slot \<noteq> None then Some (None, release PROCESSES k)
        else do {
          ps \<leftarrow> set_idx (kn_processes k) pd (Some p);
          Some (Some (pr_pid p), release PROCESSES (k\<lparr>kn_processes := ps\<rparr>)) }) })"

definition insert_thread :: "Thread \<Rightarrow> (Tid option, 'z) kop" where
  "insert_thread t k = (
     let td = unat (th_tid t) in
     if td \<ge> MAX_THREADS then Some (None, k)
     else do {
       k \<leftarrow> acquire THREADS k;
       slot \<leftarrow> idx (kn_threads k) td;
       (if slot \<noteq> None then Some (None, release THREADS k)
        else do {
          ts \<leftarrow> set_idx (kn_threads k) td (Some t);
          Some (Some (th_tid t), release THREADS (k\<lparr>kn_threads := ts\<rparr>)) }) })"

definition emplace_thread :: "Tid \<Rightarrow> (Tid \<Rightarrow> Thread run) \<Rightarrow> (Tid option, 'z) kop" where
  "emplace_thread td build k = (
     let i = unat td in
     if i \<ge> MAX_THREADS then Some (None, k)
     else do {
       k \<leftarrow> acquire THREADS k;
       slot \<leftarrow> idx (kn_threads k) i;
       (if slot \<noteq> None then Some (None, release THREADS k)
        else do {
          t \<leftarrow> build td;
          ts \<leftarrow> set_idx (kn_threads k) i (Some t);
          Some (Some td, release THREADS (k\<lparr>kn_threads := ts\<rparr>)) }) })"

definition with_process :: "Pid \<Rightarrow> (Process \<Rightarrow> 'a) \<Rightarrow> ('a option, 'z) kop" where
  "with_process pd f k = (
     if unat pd \<ge> MAX_PROCESSES then Some (None, k)
     else do {
       k \<leftarrow> acquire PROCESSES k;
       slot \<leftarrow> idx (kn_processes k) (unat pd);
       Some (map_option f slot, release PROCESSES k) })"

text \<open>A closure that gets a mutable reference returns its result and the new value, and runs with
  the lock held.\<close>

definition with_process_mut :: "Pid \<Rightarrow> (Process \<Rightarrow> ('a \<times> Process, 'z) kop) \<Rightarrow> ('a option, 'z) kop" where
  "with_process_mut pd f k = (
     if unat pd \<ge> MAX_PROCESSES then Some (None, k)
     else do {
       k \<leftarrow> acquire PROCESSES k;
       slot \<leftarrow> idx (kn_processes k) (unat pd);
       (case slot of
          None \<Rightarrow> Some (None, release PROCESSES k)
        | Some p \<Rightarrow> do {
            ((a, p), k) \<leftarrow> f p k;
            ps \<leftarrow> set_idx (kn_processes k) (unat pd) (Some p);
            Some (Some a, release PROCESSES (k\<lparr>kn_processes := ps\<rparr>)) }) })"

definition with_thread :: "Tid \<Rightarrow> (Thread \<Rightarrow> 'a) \<Rightarrow> ('a option, 'z) kop" where
  "with_thread td f k = (
     if unat td \<ge> MAX_THREADS then Some (None, k)
     else do {
       k \<leftarrow> acquire THREADS k;
       slot \<leftarrow> idx (kn_threads k) (unat td);
       Some (map_option f slot, release THREADS k) })"

definition with_thread_mut :: "Tid \<Rightarrow> (Thread \<Rightarrow> ('a \<times> Thread, 'z) kop) \<Rightarrow> ('a option, 'z) kop" where
  "with_thread_mut td f k = (
     if unat td \<ge> MAX_THREADS then Some (None, k)
     else do {
       k \<leftarrow> acquire THREADS k;
       slot \<leftarrow> idx (kn_threads k) (unat td);
       (case slot of
          None \<Rightarrow> Some (None, release THREADS k)
        | Some t \<Rightarrow> do {
            ((a, t), k) \<leftarrow> f t k;
            ts \<leftarrow> set_idx (kn_threads k) (unat td) (Some t);
            Some (Some a, release THREADS (k\<lparr>kn_threads := ts\<rparr>)) }) })"

definition modify_thread :: "Tid \<Rightarrow> (Thread \<Rightarrow> Thread) \<Rightarrow> (unit option, 'z) kop" where
  "modify_thread td f = with_thread_mut td (\<lambda>t k. Some (((), f t), k))"

definition thread_count :: "(nat, 'z) kop" where
  "thread_count k = do { k \<leftarrow> acquire THREADS k; Some (used (kn_threads k), release THREADS k) }"

definition process_count :: "(nat, 'z) kop" where
  "process_count k = do { k \<leftarrow> acquire PROCESSES k; Some (used (kn_processes k), release PROCESSES k) }"

subsection \<open>The current thread and process\<close>

definition current_tid :: "'z Kernel_scheme \<Rightarrow> Tid run" where
  "current_tid k = idx (kn_current_threads k) (unat (kn_cpu k))"

definition set_current_tid :: "u32 \<Rightarrow> Tid \<Rightarrow> 'z Kernel_scheme \<Rightarrow> 'z Kernel_scheme run" where
  "set_current_tid cpu td k = do {
     ts \<leftarrow> set_idx (kn_current_threads k) (unat cpu) td;
     Some (k\<lparr>kn_current_threads := ts\<rparr>) }"

definition current_thread :: "(Thread \<Rightarrow> 'a) \<Rightarrow> ('a option, 'z) kop" where
  "current_thread f k = do { td \<leftarrow> current_tid k; with_thread td f k }"

definition current_thread_mut :: "(Thread \<Rightarrow> ('a \<times> Thread, 'z) kop) \<Rightarrow> ('a option, 'z) kop" where
  "current_thread_mut f k = do { td \<leftarrow> current_tid k; with_thread_mut td f k }"

definition current_process_mut :: "(Process \<Rightarrow> ('a \<times> Process, 'z) kop) \<Rightarrow> ('a option, 'z) kop" where
  "current_process_mut f k = do {
     td \<leftarrow> current_tid k;
     (r, k) \<leftarrow> with_thread td th_pid k;
     (case r of None \<Rightarrow> Some (None, k) | Some pd \<Rightarrow> with_process_mut pd f k) }"

definition capable :: "u64 \<Rightarrow> (bool, 'z) kop" where
  "capable cap k = do {
     (r, k) \<leftarrow> current_process_mut (\<lambda>p k. Some ((cred_capable (pr_cred p) cap, p), k)) k;
     Some (case r of None \<Rightarrow> False | Some b \<Rightarrow> b, k) }"

text \<open>A closure on the address space also works on the memory; \<open>f\<close> returns its result, the new
  address space and the new memory, and runs with the process table locked.\<close>

definition with_current_user_address_space ::
  "(AddressSpace \<Rightarrow> Machine \<Rightarrow> ('a \<times> AddressSpace \<times> Machine) run) \<Rightarrow> Machine \<Rightarrow> ('a option \<times> Machine, 'z) kop" where
  "with_current_user_address_space f mc k = do {
     td \<leftarrow> current_tid k;
     (r, k) \<leftarrow> with_thread td th_pid k;
     (case r of
        None \<Rightarrow> Some ((None, mc), k)
      | Some pd \<Rightarrow>
          if pd = PID_KERNEL then Some ((None, mc), k)
          else do {
            (r, k) \<leftarrow> with_process_mut pd (\<lambda>p k. case pr_address_space p of
                None \<Rightarrow> Some (((None, mc), p), k)
              | Some space \<Rightarrow> do {
                  (a, space, mc) \<leftarrow> f space mc;
                  Some (((Some a, mc), p\<lparr>pr_address_space := Some space\<rparr>), k) }) k;
            Some (case r of None \<Rightarrow> (None, mc) | Some x \<Rightarrow> x, k) }) }"

definition spawn_kernel_thread :: "u64 \<Rightarrow> u64 \<Rightarrow> u32 \<Rightarrow> (Tid option, 'z) kop" where
  "spawn_kernel_thread stack entry flags k = do {
     (td, k) \<leftarrow> alloc_tid k;
     (r, k) \<leftarrow> emplace_thread td (\<lambda>td. thread_new_kernel stack td PID_KERNEL entry flags) k;
     (case r of
        None \<Rightarrow> Some (None, k)
      | Some _ \<Rightarrow> do {
          (r, k) \<leftarrow> with_process_mut PID_KERNEL (\<lambda>p k. do { (_, p) \<leftarrow> add_thread p td; Some (((), p), k) }) k;
          Some (case r of None \<Rightarrow> None | Some _ \<Rightarrow> Some td, k) }) }"

definition preempt_disable :: "'z Kernel_scheme \<Rightarrow> 'z Kernel_scheme" where
  "preempt_disable k = k\<lparr>kn_preempt_count := kn_preempt_count k + 1\<rparr>"

definition preempt_enable :: "'z Kernel_scheme \<Rightarrow> 'z Kernel_scheme" where
  "preempt_enable k = k\<lparr>kn_preempt_count := kn_preempt_count k - 1\<rparr>"

definition preempt_enabled :: "'z Kernel_scheme \<Rightarrow> bool" where
  "preempt_enabled k \<longleftrightarrow> kn_preempt_count k = 0"

end
