(* ===== verification/Sched.thy ===== *)
theory Sched
  imports Proc
begin

text \<open>
  The scheduler: the run queues of \<^verbatim>\<open>src/kernel/src/sched/runqueue.rs\<close> and the entry points of
  \<^verbatim>\<open>src/kernel/src/sched/mod.rs\<close>, with the parts of \<^verbatim>\<open>src/kernel/src/sched/timer.rs\<close>,
  \<^verbatim>\<open>src/kernel/src/sched/idle.rs\<close> and \<^verbatim>\<open>src/kernel/src/ipc/wait.rs\<close> they use. The locks are
  explicit, so the nesting of the critical sections is part of the model.

  A switch of threads without an interrupt frame ends in assembly that the build generates: it
  stores the registers of the old thread and continues in the new one. \<open>switch_to\<close> returns True at
  that point, with the kernel as the new thread finds it; \<open>saved\<close> is the context that the assembly
  stores for the old thread.
\<close>

subsection \<open>Run queues\<close>

definition MAX_CPUS :: nat where "MAX_CPUS = 256"

definition rq_new :: "u32 \<Rightarrow> CfsRunQueue" where
  "rq_new cpu = \<lparr>rq_cpu = cpu, rq_tree = rb_new, rq_nr_running = 0, rq_min_vruntime = 0,
     rq_curr = TID_INVALID, rq_idle = TID_INVALID\<rparr>"

definition rq_init :: "CfsRunQueue \<Rightarrow> CfsRunQueue" where
  "rq_init rq = rq\<lparr>rq_tree := rb_init (rq_tree rq)\<rparr>"

definition or_invalid :: "rb_node_id option \<Rightarrow> rb_node_id" where
  "or_invalid r = (case r of None \<Rightarrow> RB_INVALID | Some n \<Rightarrow> n)"

definition rq_enqueue :: "CfsRunQueue \<Rightarrow> Tid \<Rightarrow> (CfsRunQueue, 'z) kop" where
  "rq_enqueue rq td k = do {
     (r, k) \<leftarrow> with_thread_mut td (\<lambda>t k. do {
         let t = t\<lparr>th_vruntime := place_entity (rq_min_vruntime rq) (effective_vruntime t)\<rparr>;
         (n, tree) \<leftarrow> rb_insert (rq_tree rq) (effective_vruntime t) td;
         Some ((tree, t\<lparr>th_rb_node := or_invalid n, th_on_rq := True, th_state := Runnable,
           th_cpu := rq_cpu rq\<rparr>), k) }) k;
     (case r of
        None \<Rightarrow> Some (rq, k)
      | Some tree \<Rightarrow> do {
          let rq = rq\<lparr>rq_tree := tree, rq_nr_running := rq_nr_running rq + 1\<rparr>;
          mk \<leftarrow> peek_min_key tree;
          Some (case mk of None \<Rightarrow> rq | Some m \<Rightarrow> rq\<lparr>rq_min_vruntime := m\<rparr>, k) }) }"

definition rq_dequeue :: "CfsRunQueue \<Rightarrow> Tid \<Rightarrow> (CfsRunQueue, 'z) kop" where
  "rq_dequeue rq td k = do {
     (r, k) \<leftarrow> with_thread_mut td (\<lambda>t k.
         if th_on_rq t \<and> is_valid (th_rb_node t) then do {
           (_, tree) \<leftarrow> rb_remove (rq_tree rq) (th_rb_node t);
           Some ((rq\<lparr>rq_tree := tree, rq_nr_running := saturating_sub (rq_nr_running rq) 1\<rparr>,
             t\<lparr>th_rb_node := RB_INVALID, th_on_rq := False\<rparr>), k) }
         else Some ((rq, t), k)) k;
     Some (case r of None \<Rightarrow> rq | Some rq \<Rightarrow> rq, k) }"

definition rq_pick_next :: "CfsRunQueue \<Rightarrow> (Tid \<times> CfsRunQueue, 'z) kop" where
  "rq_pick_next rq k = do {
     m \<leftarrow> rb_min (rq_tree rq);
     (case m of
        None \<Rightarrow> Some ((rq_idle rq, rq), k)
      | Some (_, td, ky) \<Rightarrow> do {
          (n, k) \<leftarrow> with_thread td th_rb_node k;
          (_, tree) \<leftarrow> rb_remove (rq_tree rq) (or_invalid n);
          (_, k) \<leftarrow> modify_thread td (\<lambda>t. t\<lparr>th_on_rq := False, th_rb_node := RB_INVALID, th_state := Running\<rparr>) k;
          Some ((td, rq\<lparr>rq_tree := tree, rq_nr_running := saturating_sub (rq_nr_running rq) 1,
            rq_min_vruntime := ky\<rparr>), k) }) }"

definition steal_from :: "CfsRunQueue \<Rightarrow> CfsRunQueue \<Rightarrow> (Tid option \<times> CfsRunQueue \<times> CfsRunQueue, 'z) kop" where
  "steal_from rq victim k =
     (if rq_cpu victim = rq_cpu rq \<or> rb_is_empty (rq_tree victim) then Some ((None, rq, victim), k)
      else do {
        m \<leftarrow> rb_min (rq_tree victim);
        (case m of
           None \<Rightarrow> Some ((None, rq, victim), k)
         | Some (_, td, ky) \<Rightarrow> do {
             (n, k) \<leftarrow> with_thread td th_rb_node k;
             (_, vtree) \<leftarrow> rb_remove (rq_tree victim) (or_invalid n);
             let victim = victim\<lparr>rq_tree := vtree, rq_nr_running := saturating_sub (rq_nr_running victim) 1\<rparr>;
             (r, k) \<leftarrow> with_thread_mut td (\<lambda>t k. do {
                 let t = t\<lparr>th_on_rq := False, th_rb_node := RB_INVALID, th_cpu := rq_cpu rq\<rparr>;
                 let t = t\<lparr>th_vruntime := place_entity (rq_min_vruntime rq) (effective_vruntime t)\<rparr>;
                 (n, tree) \<leftarrow> rb_insert (rq_tree rq) (effective_vruntime t) td;
                 Some ((tree, t\<lparr>th_rb_node := or_invalid n, th_on_rq := True\<rparr>), k) }) k;
             let rq = (case r of None \<Rightarrow> rq | Some tree \<Rightarrow> rq\<lparr>rq_tree := tree\<rparr>);
             mk \<leftarrow> peek_min_key (rq_tree rq);
             let rq = rq\<lparr>rq_nr_running := rq_nr_running rq + 1,
               rq_min_vruntime := (case mk of None \<Rightarrow> ky | Some m \<Rightarrow> m)\<rparr>;
             Some ((Some td, rq, victim), k) }) })"

definition init_cpu :: "u32 \<Rightarrow> Tid \<Rightarrow> (unit, 'z) kop" where
  "init_cpu cpu idle_tid k = do {
     k \<leftarrow> acquire RUNQUEUES k;
     qs \<leftarrow> set_idx (kn_runqueues k) (unat cpu) ((rq_init (rq_new cpu))\<lparr>rq_idle := idle_tid\<rparr>);
     Some ((), release RUNQUEUES (k\<lparr>kn_runqueues := qs\<rparr>)) }"

definition with_runqueue :: "u32 \<Rightarrow> (CfsRunQueue \<Rightarrow> ('a \<times> CfsRunQueue, 'z) kop) \<Rightarrow> ('a, 'z) kop" where
  "with_runqueue cpu f k = do {
     k \<leftarrow> acquire RUNQUEUES k;
     rq \<leftarrow> idx (kn_runqueues k) (unat cpu);
     ((a, rq), k) \<leftarrow> f rq k;
     qs \<leftarrow> set_idx (kn_runqueues k) (unat cpu) rq;
     Some (a, release RUNQUEUES (k\<lparr>kn_runqueues := qs\<rparr>)) }"

definition enqueue_thread :: "Tid \<Rightarrow> u32 \<Rightarrow> (unit, 'z) kop" where
  "enqueue_thread td cpu = with_runqueue cpu (\<lambda>rq k. do { (rq, k) \<leftarrow> rq_enqueue rq td k; Some (((), rq), k) })"

definition dequeue_thread :: "Tid \<Rightarrow> u32 \<Rightarrow> (unit, 'z) kop" where
  "dequeue_thread td cpu = with_runqueue cpu (\<lambda>rq k. do { (rq, k) \<leftarrow> rq_dequeue rq td k; Some (((), rq), k) })"

fun try_steal_loop :: "u32 \<Rightarrow> u32 list \<Rightarrow> (Tid option, 'z) kop" where
  "try_steal_loop cpu [] k = Some (None, k)"
| "try_steal_loop cpu (other # others) k =
     (if other = cpu then try_steal_loop cpu others k
      else do {
        k \<leftarrow> acquire RUNQUEUES k;
        victim \<leftarrow> idx (kn_runqueues k) (unat other);
        (if rq_nr_running victim \<le> 1 then try_steal_loop cpu others (release RUNQUEUES k)
         else do {
           rq \<leftarrow> idx (kn_runqueues k) (unat cpu);
           ((stolen, rq, victim), k) \<leftarrow> steal_from rq victim k;
           qs \<leftarrow> set_idx (kn_runqueues k) (unat cpu) rq;
           qs \<leftarrow> set_idx qs (unat other) victim;
           let k = release RUNQUEUES (k\<lparr>kn_runqueues := qs\<rparr>);
           (if stolen \<noteq> None then Some (stolen, k) else try_steal_loop cpu others k) }) })"

definition cpu_count :: "'z Kernel_scheme \<Rightarrow> u32" where
  "cpu_count k = max (kn_cpu_count k) 1"

definition try_steal :: "u32 \<Rightarrow> (Tid option, 'z) kop" where
  "try_steal cpu k = try_steal_loop cpu (map of_nat [0..<unat (cpu_count k)]) k"

definition pick_next_thread :: "u32 \<Rightarrow> (Tid, 'z) kop" where
  "pick_next_thread cpu = with_runqueue cpu (\<lambda>rq k.
     if rq_nr_running rq = 0 then do {
       (s, k) \<leftarrow> try_steal cpu k;
       (case s of Some td \<Rightarrow> Some ((td, rq), k) | None \<Rightarrow> rq_pick_next rq k) }
     else rq_pick_next rq k)"

definition update_current_runtime :: "u32 \<Rightarrow> u64 \<Rightarrow> (unit, 'z) kop" where
  "update_current_runtime cpu delta_ns = with_runqueue cpu (\<lambda>rq k.
     if \<not> tid_is_valid (rq_curr rq) then Some (((), rq), k)
     else do {
       (_, k) \<leftarrow> modify_thread (rq_curr rq) (\<lambda>t. t\<lparr>
           th_sum_exec_runtime := saturating_add (th_sum_exec_runtime t) delta_ns,
           th_vruntime := update_vruntime (th_vruntime t) delta_ns (th_weight t)\<rparr>) k;
       Some (((), rq), k) })"

definition rq_set_current :: "u32 \<Rightarrow> Tid \<Rightarrow> (unit, 'z) kop" where
  "rq_set_current cpu td = with_runqueue cpu (\<lambda>rq k. Some (((), rq\<lparr>rq_curr := td\<rparr>), k))"

definition current_on_cpu :: "u32 \<Rightarrow> (Tid, 'z) kop" where
  "current_on_cpu cpu = with_runqueue cpu (\<lambda>rq k. Some ((rq_curr rq, rq), k))"

definition runnable_count :: "u32 \<Rightarrow> (u32, 'z) kop" where
  "runnable_count cpu = with_runqueue cpu (\<lambda>rq k. Some ((rq_nr_running rq, rq), k))"

subsection \<open>Entry points\<close>

definition set_need_resched :: "'z Kernel_scheme \<Rightarrow> 'z Kernel_scheme" where
  "set_need_resched k = k\<lparr>kn_need_resched := True\<rparr>"

definition take_need_resched :: "'z Kernel_scheme \<Rightarrow> bool \<times> 'z Kernel_scheme" where
  "take_need_resched k = (kn_need_resched k, k\<lparr>kn_need_resched := False\<rparr>)"

definition disable_preemption :: "'z Kernel_scheme \<Rightarrow> 'z Kernel_scheme" where
  "disable_preemption k = (preempt_disable k)\<lparr>kn_interrupts := False\<rparr>"

definition enable_preemption :: "'z Kernel_scheme \<Rightarrow> 'z Kernel_scheme" where
  "enable_preemption k = preempt_enable (k\<lparr>kn_interrupts := True\<rparr>)"

definition activate :: "AddressSpace \<Rightarrow> 'z Kernel_scheme \<Rightarrow> 'z Kernel_scheme" where
  "activate space k = k\<lparr>kn_cr3 := as_page_table space, kn_current_space := Some (as_id space)\<rparr>"

definition set_rsp0 :: "u32 \<Rightarrow> u64 \<Rightarrow> 'z Kernel_scheme \<Rightarrow> 'z Kernel_scheme" where
  "set_rsp0 cpu rsp0 k = k\<lparr>kn_rsp0 := (kn_rsp0 k)[unat cpu := rsp0]\<rparr>"

definition set_kstack :: "u32 \<Rightarrow> u64 \<Rightarrow> 'z Kernel_scheme \<Rightarrow> 'z Kernel_scheme run" where
  "set_kstack cpu stack_top k = do {
     ks \<leftarrow> set_idx (kn_kstack k) (unat cpu) stack_top;
     Some (k\<lparr>kn_kstack := ks\<rparr>) }"

definition switch_space :: "Tid \<Rightarrow> (unit, 'z) kop" where
  "switch_space next_tid k = do {
     (r, k) \<leftarrow> with_thread next_tid th_pid k;
     let pd = (case r of None \<Rightarrow> PID_KERNEL | Some p \<Rightarrow> p);
     (if pd = PID_KERNEL then do {
        space \<leftarrow> kn_kernel_space k;
        Some ((), activate space k) }
      else do {
        (_, k) \<leftarrow> with_process_mut pd (\<lambda>p k.
            Some (((), p), case pr_address_space p of None \<Rightarrow> k | Some space \<Rightarrow> activate space k)) k;
        Some ((), k) }) }"

definition switch_stack_tls :: "u32 \<Rightarrow> Tid \<Rightarrow> (unit, 'z) kop" where
  "switch_stack_tls cpu next_tid k = do {
     (r, k) \<leftarrow> with_thread next_tid th_kernel_stack_top k;
     k \<leftarrow> (case r of None \<Rightarrow> Some k | Some rsp0 \<Rightarrow> set_kstack cpu rsp0 (set_rsp0 cpu rsp0 k));
     (r, k) \<leftarrow> with_thread next_tid th_fs_base k;
     (case r of
        None \<Rightarrow> Some ((), k)
      | Some fs_base \<Rightarrow> do {
          (u, k) \<leftarrow> with_thread next_tid is_user k;
          Some ((), if u = Some True then k\<lparr>kn_fs_msr := fs_base\<rparr> else k) }) }"

definition switch_to ::
  "CpuContext \<Rightarrow> u32 \<Rightarrow> Tid \<Rightarrow> Tid \<Rightarrow> InterruptFrame option \<Rightarrow> (bool \<times> InterruptFrame option, 'z) kop" where
  "switch_to saved cpu prev_tid next_tid frame k = do {
     k \<leftarrow> set_current_tid cpu next_tid k;
     (_, k) \<leftarrow> rq_set_current cpu next_tid k;
     (_, k) \<leftarrow> switch_space next_tid k;
     (_, k) \<leftarrow> switch_stack_tls cpu next_tid k;
     (_, k) \<leftarrow> modify_thread next_tid (\<lambda>t. t\<lparr>th_state := Running\<rparr>) k;
     (case frame of
        None \<Rightarrow> do {
          k \<leftarrow> acquire THREADS (k\<lparr>kn_interrupts := False\<rparr>);
          slot \<leftarrow> idx (kn_threads k) (unat prev_tid);
          prev_thread \<leftarrow> slot;
          slot \<leftarrow> idx (kn_threads k) (unat next_tid);
          next_thread \<leftarrow> slot;
          ts \<leftarrow> set_idx (kn_threads k) (unat prev_tid) (Some (prev_thread\<lparr>th_context := saved\<rparr>));
          Some ((True, None), k\<lparr>kn_threads := ts\<rparr>) }
      | Some f \<Rightarrow> do {
          (r, k) \<leftarrow> with_thread next_tid (\<lambda>t. snd (restore_thread_context (th_context t) (th_extended t) f)) k;
          Some ((False, Some (case r of None \<Rightarrow> f | Some f' \<Rightarrow> f')), k) }) }"

definition reschedule :: "CpuContext \<Rightarrow> (bool, 'z) kop" where
  "reschedule saved k =
     (if \<not> preempt_enabled k then Some (False, k)
      else do {
        let cpu = kn_cpu k;
        (next_tid, k) \<leftarrow> pick_next_thread cpu k;
        (if \<not> tid_is_valid next_tid then Some (False, k)
         else do {
           curr \<leftarrow> current_tid k;
           (if curr = next_tid then do { (_, k) \<leftarrow> enqueue_thread next_tid cpu k; Some (False, k) }
            else do {
              ((sw, _), k) \<leftarrow> switch_to saved cpu curr next_tid None k;
              Some (sw, k) }) }) })"

definition preempt :: "(u8 list \<Rightarrow> u8 list) \<Rightarrow> InterruptFrame \<Rightarrow> (InterruptFrame, 'z) kop" where
  "preempt xsave frame k = (
     let (resched, k) = take_need_resched k in
     if \<not> resched \<or> \<not> preempt_enabled k then Some (frame, k)
     else do {
       let cpu = kn_cpu k;
       curr \<leftarrow> current_tid k;
       (_, k) \<leftarrow> with_thread_mut curr (\<lambda>t k. do {
           let (c, e) = save_thread_context xsave (th_extended t) frame;
           let t = t\<lparr>th_context := c, th_extended := e\<rparr>;
           (if th_state t = Running \<and> \<not> is_idle t then do {
              (_, k) \<leftarrow> enqueue_thread curr cpu k;
              Some (((), t\<lparr>th_state := Runnable\<rparr>), k) }
            else Some (((), t), k)) }) k;
       (next_tid, k) \<leftarrow> pick_next_thread cpu k;
       (if \<not> tid_is_valid next_tid \<or> next_tid = curr then Some (frame, k)
        else do {
          ((_, f), k) \<leftarrow> switch_to (from_interrupt frame) cpu curr next_tid (Some frame) k;
          Some (case f of None \<Rightarrow> frame | Some f \<Rightarrow> f, k) }) })"

definition yield_cpu :: "CpuContext \<Rightarrow> (bool, 'z) kop" where
  "yield_cpu saved k = do {
     let k = set_need_resched (disable_preemption k);
     (sw, k) \<leftarrow> reschedule saved k;
     Some (if sw then (True, k) else (False, enable_preemption k)) }"

definition block_current :: "CpuContext \<Rightarrow> (bool, 'z) kop" where
  "block_current saved k = do {
     let cpu = kn_cpu k;
     curr \<leftarrow> current_tid k;
     (_, k) \<leftarrow> with_thread_mut curr (\<lambda>t k. do {
         let t = t\<lparr>th_state := Blocked\<rparr>;
         (_, k) \<leftarrow> dequeue_thread curr cpu k;
         Some (((), t), k) }) k;
     yield_cpu saved k }"

definition wake_thread :: "Tid \<Rightarrow> (unit, 'z) kop" where
  "wake_thread td k = do {
     (r, k) \<leftarrow> with_thread td th_cpu k;
     (case r of
        None \<Rightarrow> Some ((), k)
      | Some cpu \<Rightarrow> do {
          (_, k) \<leftarrow> enqueue_thread td cpu k;
          Some ((), set_need_resched k) }) }"

definition pi_boost :: "Tid \<Rightarrow> u64 \<Rightarrow> (unit, 'z) kop" where
  "pi_boost owner_tid boost k = do {
     (_, k) \<leftarrow> with_thread_mut owner_tid (\<lambda>t k. do {
         let t = t\<lparr>th_pi_boost := saturating_add (th_pi_boost t) boost\<rparr>;
         (if th_on_rq t then do {
            let cpu = th_cpu t;
            (_, k) \<leftarrow> dequeue_thread (th_tid t) cpu k;
            (_, k) \<leftarrow> enqueue_thread (th_tid t) cpu k;
            Some (((), t), k) }
          else Some (((), t), k)) }) k;
     Some ((), k) }"

definition pi_unboost :: "Tid \<Rightarrow> u64 \<Rightarrow> (unit, 'z) kop" where
  "pi_unboost owner_tid boost k = do {
     (_, k) \<leftarrow> modify_thread owner_tid (\<lambda>t. t\<lparr>th_pi_boost := saturating_sub (th_pi_boost t) boost\<rparr>) k;
     Some ((), k) }"

text \<open>\<open>entry\<close> is the address of the idle loop.\<close>

definition create_idle_thread :: "u64 \<Rightarrow> u64 \<Rightarrow> u32 \<Rightarrow> (Tid option, 'z) kop" where
  "create_idle_thread stack entry cpu k = do {
     (td, k) \<leftarrow> alloc_tid k;
     (r, k) \<leftarrow> emplace_thread td (\<lambda>td. do {
         t \<leftarrow> thread_new_kernel stack td PID_KERNEL entry (TF_KERNEL OR TF_IDLE);
         Some (t\<lparr>th_cpu := cpu, th_state := Runnable\<rparr>) }) k;
     (case r of
        None \<Rightarrow> Some (None, k)
      | Some _ \<Rightarrow> do { (_, k) \<leftarrow> init_cpu cpu td k; Some (Some td, k) }) }"

text \<open>The clock: the tick counter, or before the first tick the time-stamp counter \<open>tsc\<close>.\<close>

definition monotonic_ns :: "u64 \<Rightarrow> u64 \<Rightarrow> u64 \<Rightarrow> u64" where
  "monotonic_ns ticks tsc_hz tsc =
     (if ticks > 0 then ticks * 1000000 else saturating_mul tsc 1000000000 div max tsc_hz 1)"

definition calibrate_tsc :: "u64 \<Rightarrow> u64 \<Rightarrow> u64 \<Rightarrow> u64" where
  "calibrate_tsc tsc_hz t0 t1 = (
     let delta = saturating_sub t1 t0 in if delta > 0 then delta * 20 else tsc_hz)"

subsection \<open>Waking and blocking on a queue\<close>

definition wq_wake_one :: "WaitQueue \<Rightarrow> (WaitQueue, 'z) kop" where
  "wq_wake_one q k = do {
     (r, q) \<leftarrow> wq_pop q;
     (case r of None \<Rightarrow> Some (q, k) | Some td \<Rightarrow> do { (_, k) \<leftarrow> wake_thread td k; Some (q, k) }) }"

function wq_wake_all :: "WaitQueue \<Rightarrow> (WaitQueue, 'z) kop" where
  "wq_wake_all q k =
     (if wq_len q = 0 then Some (q, k)
      else do {
        td \<leftarrow> idx (wq_threads q) (wq_len q - 1);
        (_, k) \<leftarrow> wake_thread td k;
        wq_wake_all (q\<lparr>wq_len := wq_len q - 1\<rparr>) k })"
  by pat_completeness auto
termination
  by (relation "measure (\<lambda>(q, k). wq_len q)") auto

declare wq_wake_all.simps [simp del]

text \<open>A thread that was switched away from here would be resumed by \<open>switch_to\<close>, which cannot take
  the thread table again: the switch left it locked. So a switch is a call that does not return.\<close>

definition block_on :: "CpuContext \<Rightarrow> WaitQueue \<Rightarrow> (WaitQueue, 'z) kop" where
  "block_on saved q k = do {
     td \<leftarrow> current_tid k;
     (_, q) \<leftarrow> wq_push q td;
     (sw, k) \<leftarrow> block_current saved k;
     (if sw then None else Some (q, k)) }"

subsection \<open>Locks\<close>

lemma acquire_held [simp]: "l \<in> kn_held k \<Longrightarrow> acquire l k = None"
  by (simp add: acquire_def)

lemma acquire_free [simp]:
  "l \<notin> kn_held k \<Longrightarrow> acquire l k = Some (k\<lparr>kn_held := insert l (kn_held k)\<rparr>)"
  by (simp add: acquire_def)

lemma with_thread_mut_held [simp]:
  "THREADS \<in> kn_held k \<Longrightarrow> unat td < MAX_THREADS \<Longrightarrow> with_thread_mut td f k = None"
  by (simp add: with_thread_mut_def)

lemma with_thread_held [simp]:
  "THREADS \<in> kn_held k \<Longrightarrow> unat td < MAX_THREADS \<Longrightarrow> with_thread td f k = None"
  by (simp add: with_thread_def)

lemma rq_dequeue_held:
  "THREADS \<in> kn_held k \<Longrightarrow> unat td < MAX_THREADS \<Longrightarrow> rq_dequeue rq td k = None"
  by (simp add: rq_dequeue_def)

lemma rq_enqueue_held:
  "THREADS \<in> kn_held k \<Longrightarrow> unat td < MAX_THREADS \<Longrightarrow> rq_enqueue rq td k = None"
  by (simp add: rq_enqueue_def)

lemma dequeue_thread_held:
  "THREADS \<in> kn_held k \<Longrightarrow> unat td < MAX_THREADS \<Longrightarrow> dequeue_thread td cpu k = None"
  by (auto simp: dequeue_thread_def with_runqueue_def bind_eq_None_conv acquire_def rq_dequeue_held)

lemma enqueue_thread_held:
  "THREADS \<in> kn_held k \<Longrightarrow> unat td < MAX_THREADS \<Longrightarrow> enqueue_thread td cpu k = None"
  by (auto simp: enqueue_thread_def with_runqueue_def bind_eq_None_conv acquire_def rq_enqueue_held)

text \<open>A thread that exists cannot block.\<close>

lemma block_current_None:
  assumes "current_tid k = Some td" and "unat td < MAX_THREADS" and "length (kn_threads k) = MAX_THREADS"
    and "kn_threads k ! unat td = Some t"
  shows "block_current saved k = None"
  using assms
  by (cases "THREADS \<in> kn_held k")
    (simp_all add: block_current_def with_thread_mut_def dequeue_thread_held Let_def)

lemma block_on_None: "block_current saved k = None \<Longrightarrow> block_on saved q k = None"
  by (auto simp: block_on_def bind_eq_None_conv split: prod.splits)

subsection \<open>A kernel with one thread\<close>

text \<open>The kernel before any thread exists, with the run queue of the first CPU initialised.\<close>

definition boot_kernel :: Kernel where
  "boot_kernel = \<lparr>kn_threads = replicate MAX_THREADS None, kn_processes = replicate MAX_PROCESSES None,
     kn_runqueues = rq_init (rq_new 0) # replicate (MAX_CPUS - 1) (rq_new 0),
     kn_current_threads = replicate MAX_CPUS TID_INVALID, kn_next_pid = 1, kn_next_tid = 1,
     kn_preempt_count = 0, kn_need_resched = False, kn_interrupts = False, kn_cpu = 0, kn_cpu_count = 1,
     kn_kernel_space = None, kn_current_space = None, kn_cr3 = 0, kn_fs_msr = 0,
     kn_rsp0 = replicate MAX_CPUS 0, kn_kstack = replicate MAX_CPUS 0, kn_held = {}\<rparr>"

definition some_thread :: "Tid \<Rightarrow> Thread" where
  "some_thread td = \<lparr>th_tid = td, th_pid = 0, th_state = Running, th_flags = TF_KERNEL, th_cpu = 0,
     th_nice = 0, th_weight = 1024, th_vruntime = 0, th_exec_start = 0, th_sum_exec_runtime = 0,
     th_pi_boost = 0, th_context = cpu_context_empty, th_extended = [], th_kernel_stack = [],
     th_kernel_stack_top = 0, th_rb_node = RB_INVALID, th_on_rq = False, th_blocking_mutex = None,
     th_fs_base = 0, th_clear_child_tid = 0\<rparr>"

definition one_thread_kernel :: Kernel where
  "one_thread_kernel = boot_kernel\<lparr>kn_threads := (replicate MAX_THREADS None)[7 := Some (some_thread 7)],
     kn_current_threads := (replicate MAX_CPUS TID_INVALID)[0 := 7], kn_need_resched := True\<rparr>"

lemma one_thread_kernel_current:
  "current_tid one_thread_kernel = Some 7" "length (kn_threads one_thread_kernel) = MAX_THREADS"
  "kn_threads one_thread_kernel ! 7 = Some (some_thread 7)" "kn_held one_thread_kernel = {}"
  by (simp_all add: current_tid_def one_thread_kernel_def boot_kernel_def MAX_CPUS_def MAX_THREADS_def)

end
