(* ===== verification/Rb_Links.thy ===== *)
theory Rb_Links
  imports Rb_Tree "HOL-Library.Multiset"
begin

text \<open>
  The linked nodes of the run-queue tree as an abstract tree. \<open>shape\<close> relates the child links
  and colours of the array to a coloured tree of node indices, \<open>parents\<close> its parent links, and
  \<open>ctx\<close> and \<open>pctx\<close> say the same of a tree with a hole (a list of frames from the hole to the
  root). The rotations of the source are then rotations of the abstract tree, in any context.
\<close>

subsection \<open>Abstract trees and contexts\<close>

type_synonym ctree = "(rb_node_id \<times> Color) tree"

datatype frame =
    FL rb_node_id Color ctree \<comment> \<open>the hole is the left child; the right subtree\<close>
  | FR rb_node_id Color ctree \<comment> \<open>the hole is the right child; the left subtree\<close>

fun ids :: "ctree \<Rightarrow> rb_node_id list" where
  "ids Leaf = []"
| "ids (Node l (a, c) r) = ids l @ a # ids r"

fun cids :: "frame list \<Rightarrow> rb_node_id list" where
  "cids [] = []"
| "cids (FL a c s # \<pi>) = a # ids s @ cids \<pi>"
| "cids (FR a c s # \<pi>) = a # ids s @ cids \<pi>"

fun plug :: "frame list \<Rightarrow> ctree \<Rightarrow> ctree" where
  "plug [] t = t"
| "plug (FL a c s # \<pi>) t = plug \<pi> (Node t (a, c) s)"
| "plug (FR a c s # \<pi>) t = plug \<pi> (Node s (a, c) t)"

fun uplink :: "frame list \<Rightarrow> rb_node_id" where
  "uplink [] = RB_INVALID"
| "uplink (FL a c s # \<pi>) = a"
| "uplink (FR a c s # \<pi>) = a"

fun shape :: "rb_node list \<Rightarrow> rb_node_id \<Rightarrow> ctree \<Rightarrow> bool" where
  "shape ns i Leaf \<longleftrightarrow> i = RB_INVALID"
| "shape ns i (Node l (a, c) r) \<longleftrightarrow> i = a \<and> a < length ns \<and> color (ns ! a) = c \<and>
     shape ns (left (ns ! a)) l \<and> shape ns (right (ns ! a)) r"

fun parents :: "rb_node list \<Rightarrow> rb_node_id \<Rightarrow> ctree \<Rightarrow> bool" where
  "parents ns p Leaf \<longleftrightarrow> True"
| "parents ns p (Node l (a, c) r) \<longleftrightarrow> parent (ns ! a) = p \<and> parents ns a l \<and> parents ns a r"

fun ctx :: "rb_node list \<Rightarrow> rb_node_id \<Rightarrow> rb_node_id \<Rightarrow> frame list \<Rightarrow> bool" where
  "ctx ns rt i [] \<longleftrightarrow> rt = i"
| "ctx ns rt i (FL a c s # \<pi>) \<longleftrightarrow> a < length ns \<and> color (ns ! a) = c \<and> left (ns ! a) = i \<and>
     shape ns (right (ns ! a)) s \<and> ctx ns rt a \<pi>"
| "ctx ns rt i (FR a c s # \<pi>) \<longleftrightarrow> a < length ns \<and> color (ns ! a) = c \<and> right (ns ! a) = i \<and>
     shape ns (left (ns ! a)) s \<and> ctx ns rt a \<pi>"

fun pctx :: "rb_node list \<Rightarrow> frame list \<Rightarrow> bool" where
  "pctx ns [] \<longleftrightarrow> True"
| "pctx ns (FL a c s # \<pi>) \<longleftrightarrow> parent (ns ! a) = uplink \<pi> \<and> parents ns a s \<and> pctx ns \<pi>"
| "pctx ns (FR a c s # \<pi>) \<longleftrightarrow> parent (ns ! a) = uplink \<pi> \<and> parents ns a s \<and> pctx ns \<pi>"

subsection \<open>Plugging\<close>

lemma mset_ids_plug: "mset (ids (plug \<pi> t)) = mset (ids t) + mset (cids \<pi>)"
  by (induction \<pi> t rule: plug.induct) auto

lemma distinct_plug: "distinct (ids (plug \<pi> t)) \<longleftrightarrow> distinct (ids t @ cids \<pi>)"
  by (rule mset_eq_imp_distinct_iff) (simp add: mset_ids_plug)

lemma set_ids_plug: "set (ids (plug \<pi> t)) = set (ids t) \<union> set (cids \<pi>)"
  using arg_cong [OF mset_ids_plug, of set_mset] by simp

lemma shape_plug: "shape ns rt (plug \<pi> t) \<longleftrightarrow> (\<exists>i. ctx ns rt i \<pi> \<and> shape ns i t)"
  by (induction \<pi> t rule: plug.induct) auto

lemma parents_plug: "parents ns RB_INVALID (plug \<pi> t) \<longleftrightarrow> parents ns (uplink \<pi>) t \<and> pctx ns \<pi>"
  by (induction \<pi> t rule: plug.induct) auto

lemma ids_less: "shape ns i t \<Longrightarrow> a \<in> set (ids t) \<Longrightarrow> a < length ns"
  by (induction ns i t rule: shape.induct) auto

lemma cids_less: "ctx ns rt i \<pi> \<Longrightarrow> a \<in> set (cids \<pi>) \<Longrightarrow> a < length ns"
  by (induction ns rt i \<pi> rule: ctx.induct) (auto dest: ids_less)

lemma uplink_in: "\<pi> \<noteq> [] \<Longrightarrow> uplink \<pi> \<in> set (cids \<pi>)"
  by (cases \<pi> rule: uplink.cases) auto

subsection \<open>Frame rules\<close>

text \<open>An update outside a tree, or of a field the relation does not read, changes nothing.\<close>

lemma shape_cong:
  "length ns' = length ns \<Longrightarrow>
   (\<And>a. a \<in> set (ids t) \<Longrightarrow> left (ns' ! a) = left (ns ! a) \<and> right (ns' ! a) = right (ns ! a) \<and>
      color (ns' ! a) = color (ns ! a)) \<Longrightarrow>
   shape ns' i t = shape ns i t"
proof (induction ns i t rule: shape.induct)
  case (1 ns i)
  then show ?case by simp
next
  case (2 ns i l a c r)
  have "left (ns' ! a) = left (ns ! a)" "right (ns' ! a) = right (ns ! a)"
    "color (ns' ! a) = color (ns ! a)"
    using "2.prems"(2) by simp_all
  then show ?case using 2 by auto
qed

lemma shape_upd [simp]: "a \<notin> set (ids t) \<Longrightarrow> shape (ns[a := n]) i t = shape ns i t"
  by (rule shape_cong) (simp, metis nth_list_update_neq)

lemma parents_cong:
  "(\<And>a. a \<in> set (ids t) \<Longrightarrow> parent (ns' ! a) = parent (ns ! a)) \<Longrightarrow>
   parents ns' p t = parents ns p t"
  by (induction ns p t rule: parents.induct) auto

lemma parents_upd [simp]: "a \<notin> set (ids t) \<Longrightarrow> parents (ns[a := n]) p t = parents ns p t"
  by (rule parents_cong) (metis nth_list_update_neq)

lemma ctx_cong:
  "length ns' = length ns \<Longrightarrow>
   (\<And>a. a \<in> set (cids \<pi>) \<Longrightarrow> left (ns' ! a) = left (ns ! a) \<and> right (ns' ! a) = right (ns ! a) \<and>
      color (ns' ! a) = color (ns ! a)) \<Longrightarrow>
   ctx ns' rt i \<pi> = ctx ns rt i \<pi>"
proof (induction ns rt i \<pi> rule: ctx.induct)
  case (1 ns rt i)
  then show ?case by simp
next
  case (2 ns rt i a c s \<pi>)
  have "shape ns' j s = shape ns j s" for j
    by (rule shape_cong) (use "2.prems" in auto)
  then show ?case using 2 by auto
next
  case (3 ns rt i a c s \<pi>)
  have "shape ns' j s = shape ns j s" for j
    by (rule shape_cong) (use "3.prems" in auto)
  then show ?case using 3 by auto
qed

lemma ctx_upd [simp]: "a \<notin> set (cids \<pi>) \<Longrightarrow> ctx (ns[a := n]) rt i \<pi> = ctx ns rt i \<pi>"
  by (rule ctx_cong) (simp, metis nth_list_update_neq)

lemma pctx_cong:
  "(\<And>a. a \<in> set (cids \<pi>) \<Longrightarrow> parent (ns' ! a) = parent (ns ! a)) \<Longrightarrow>
   pctx ns' \<pi> = pctx ns \<pi>"
proof (induction ns \<pi> rule: pctx.induct)
  case (1 ns)
  then show ?case by simp
next
  case (2 ns a c s \<pi>)
  have "parents ns' a s = parents ns a s"
    by (rule parents_cong) (use "2.prems" in auto)
  then show ?case using 2 by auto
next
  case (3 ns a c s \<pi>)
  have "parents ns' a s = parents ns a s"
    by (rule parents_cong) (use "3.prems" in auto)
  then show ?case using 3 by auto
qed

lemma pctx_upd [simp]: "a \<notin> set (cids \<pi>) \<Longrightarrow> pctx (ns[a := n]) \<pi> = pctx ns \<pi>"
  by (rule pctx_cong) (metis nth_list_update_neq)

lemma neq_INVALID: "length ns = MAX_RB_NODES \<Longrightarrow> a < length ns \<Longrightarrow> a \<noteq> RB_INVALID"
  by (simp add: MAX_RB_NODES_def RB_INVALID_def)

lemma shape_root: "shape ns i t \<Longrightarrow> i = (case t of Leaf \<Rightarrow> RB_INVALID | Node _ (a, _) _ \<Rightarrow> a)"
  by (cases "(ns, i, t)" rule: shape.cases) auto

subsection \<open>Rotations\<close>

text \<open>What a repair of the tree never writes: keys, threads and the free nodes.\<close>

definition payload_kept :: "rb_tree \<Rightarrow> rb_tree \<Rightarrow> bool" where
  "payload_kept t t' \<longleftrightarrow> length (nodes t') = length (nodes t) \<and> free_head t' = free_head t \<and>
     (\<forall>i. key (nodes t' ! i) = key (nodes t ! i) \<and> tid (nodes t' ! i) = tid (nodes t ! i) \<and>
          in_use (nodes t' ! i) = in_use (nodes t ! i))"

lemma node_in [simp]: "i < length (nodes t) \<Longrightarrow> node t i = Some (nodes t ! i)"
  by (simp add: node_def)

lemma upd_in [simp]:
  "i < length (nodes t) \<Longrightarrow> upd t i f = Some (t\<lparr>nodes := (nodes t)[i := f (nodes t ! i)]\<rparr>)"
  by (simp add: upd_def)

lemma shape_neq: "shape ns i s \<Longrightarrow> x \<notin> set (ids s) \<Longrightarrow> x < 1024 \<Longrightarrow> i \<noteq> x"
  by (cases "(ns, i, s)" rule: shape.cases) (auto simp: RB_INVALID_def)

lemmas rotate_simps = is_valid_def Let_def payload_kept_def RB_INVALID_def MAX_RB_NODES_def
  nth_list_update

lemma rotate_left_links:
  assumes len: "length (nodes t) = MAX_RB_NODES"
    and c: "ctx (nodes t) (rb_root t) x \<pi>"
    and s: "shape (nodes t) x (Node a (x, cx) (Node b (y, cy) c))"
    and d: "distinct (ids (Node a (x, cx) (Node b (y, cy) c)) @ cids \<pi>)"
    and p: "parent (nodes t ! x) = uplink \<pi>"
  shows "\<exists>t'. rotate_left t x = Some t' \<and> payload_kept t t' \<and>
     ctx (nodes t') (rb_root t') y \<pi> \<and>
     shape (nodes t') y (Node (Node a (x, cx) b) (y, cy) c) \<and>
     (\<forall>i. parent (nodes t' ! i) = (if i = x then y else if i = y then uplink \<pi>
        else if b \<noteq> Leaf \<and> i = fst (value b) then x else parent (nodes t ! i)))"
  using assms
  by (cases b rule: ids.cases; cases \<pi> rule: uplink.cases)
    (simp_all add: rotate_left_def rotate_simps, (elim conjE, erule shape_neq, assumption, assumption)+)

lemma rotate_right_links:
  assumes len: "length (nodes t) = MAX_RB_NODES"
    and c: "ctx (nodes t) (rb_root t) y \<pi>"
    and s: "shape (nodes t) y (Node (Node a (x, cx) b) (y, cy) c)"
    and d: "distinct (ids (Node (Node a (x, cx) b) (y, cy) c) @ cids \<pi>)"
    and p: "parent (nodes t ! y) = uplink \<pi>"
  shows "\<exists>t'. rotate_right t y = Some t' \<and> payload_kept t t' \<and>
     ctx (nodes t') (rb_root t') x \<pi> \<and>
     shape (nodes t') x (Node a (x, cx) (Node b (y, cy) c)) \<and>
     (\<forall>i. parent (nodes t' ! i) = (if i = y then x else if i = x then uplink \<pi>
        else if b \<noteq> Leaf \<and> i = fst (value b) then y else parent (nodes t ! i)))"
  using assms
  by (cases b rule: ids.cases; cases \<pi> rule: uplink.cases)
    (simp_all add: rotate_right_def rotate_simps, (elim conjE, erule shape_neq, assumption, assumption)+)

text \<open>A rotation writes no other node.\<close>

lemma rotate_left_frame:
  assumes len: "length (nodes t) = MAX_RB_NODES"
    and c: "ctx (nodes t) (rb_root t) x \<pi>"
    and s: "shape (nodes t) x (Node a (x, cx) (Node b (y, cy) c))"
    and d: "distinct (ids (Node a (x, cx) (Node b (y, cy) c)) @ cids \<pi>)"
    and p: "parent (nodes t ! x) = uplink \<pi>"
    and i: "i \<noteq> x" "i \<noteq> y" "i \<noteq> left (nodes t ! y)" "i \<noteq> uplink \<pi>"
  shows "map_option (\<lambda>t'. nodes t' ! i) (rotate_left t x) = Some (nodes t ! i)"
proof -
  let ?b = "left (nodes t ! y)"
  have l: "x < 1024" "y < 1024" "length (nodes t) = 1024" "right (nodes t ! x) = y"
    using s len by (auto simp: MAX_RB_NODES_def)
  have b: "shape (nodes t) ?b b" using s by simp
  have "?b \<noteq> x" "?b \<noteq> y" using shape_neq [OF b] d l by auto
  moreover have "x \<noteq> y" using d by auto
  moreover have "?b = 65535 \<or> ?b < 1024"
    using b l by (cases b rule: ids.cases) (auto simp: RB_INVALID_def)
  moreover have "uplink \<pi> = 65535 \<or> uplink \<pi> < 1024" "uplink \<pi> \<noteq> x" "uplink \<pi> \<noteq> y"
    using c d l by (cases \<pi> rule: uplink.cases; auto simp: RB_INVALID_def)+
  ultimately show ?thesis
    using i l p unfolding rotate_left_def
    by (elim disjE) (simp_all add: is_valid_def Let_def RB_INVALID_def)
qed

lemma rotate_right_frame:
  assumes len: "length (nodes t) = MAX_RB_NODES"
    and c: "ctx (nodes t) (rb_root t) y \<pi>"
    and s: "shape (nodes t) y (Node (Node a (x, cx) b) (y, cy) c)"
    and d: "distinct (ids (Node (Node a (x, cx) b) (y, cy) c) @ cids \<pi>)"
    and p: "parent (nodes t ! y) = uplink \<pi>"
    and i: "i \<noteq> y" "i \<noteq> x" "i \<noteq> right (nodes t ! x)" "i \<noteq> uplink \<pi>"
  shows "map_option (\<lambda>t'. nodes t' ! i) (rotate_right t y) = Some (nodes t ! i)"
proof -
  let ?b = "right (nodes t ! x)"
  have l: "y < 1024" "x < 1024" "length (nodes t) = 1024" "left (nodes t ! y) = x"
    using s len by (auto simp: MAX_RB_NODES_def)
  have b: "shape (nodes t) ?b b" using s by simp
  have "?b \<noteq> y" "?b \<noteq> x" using shape_neq [OF b] d l by auto
  moreover have "x \<noteq> y" using d by auto
  moreover have "?b = 65535 \<or> ?b < 1024"
    using b l by (cases b rule: ids.cases) (auto simp: RB_INVALID_def)
  moreover have "uplink \<pi> = 65535 \<or> uplink \<pi> < 1024" "uplink \<pi> \<noteq> y" "uplink \<pi> \<noteq> x"
    using c d l by (cases \<pi> rule: uplink.cases; auto simp: RB_INVALID_def)+
  ultimately show ?thesis
    using i l p unfolding rotate_right_def
    by (elim disjE) (simp_all add: is_valid_def Let_def RB_INVALID_def)
qed

end
