(* ===== verification/Rb_Spec.thy ===== *)
theory Rb_Spec
  imports Rb_Links
begin

text \<open>
  The abstract side of the run-queue tree: red-black balance and key order on the trees of
  \<open>Rb_Links\<close>, the path an insertion takes, and the repair of \<open>fix_insert\<close> as a function on a
  subtree and its context. No array and no link occurs here.
\<close>

subsection \<open>Red-black balance\<close>

fun ccol :: "ctree \<Rightarrow> Color" where
  "ccol Leaf = Black"
| "ccol (Node l (a, c) r) = c"

fun bh :: "ctree \<Rightarrow> nat" where
  "bh Leaf = 0"
| "bh (Node l (a, c) r) = bh l + (if c = Black then 1 else 0)"

fun rbt :: "ctree \<Rightarrow> bool" where
  "rbt Leaf \<longleftrightarrow> True"
| "rbt (Node l (a, c) r) \<longleftrightarrow> rbt l \<and> rbt r \<and> bh l = bh r \<and>
     (c = Red \<longrightarrow> ccol l = Black \<and> ccol r = Black)"

definition rbtree :: "ctree \<Rightarrow> bool" where
  "rbtree t \<longleftrightarrow> rbt t \<and> ccol t = Black"

fun paint :: "Color \<Rightarrow> ctree \<Rightarrow> ctree" where
  "paint c Leaf = Leaf"
| "paint c (Node l (a, c') r) = Node l (a, c) r"

lemma ids_paint [simp]: "ids (paint c t) = ids t"
  by (cases t rule: ids.cases) auto

lemma ccol_paint [simp]: "ccol (paint Black t) = Black"
  by (cases t rule: ids.cases) auto

lemma rbt_paint_Black: "rbt t \<Longrightarrow> rbt (paint Black t)"
  by (cases t rule: ids.cases) auto

lemma bh_paint_Black: "bh (paint Black t) = bh t + (if ccol t = Red then 1 else 0)"
  by (cases t rule: ids.cases) (auto, metis Color.exhaust)

text \<open>
  The colour above a hole; the root's missing parent counts as red, so that a black root is the
  same condition as a red node's black child. \<open>cok \<pi> n\<close>: a tree of black height \<open>n\<close> fits.
\<close>

fun pcol :: "frame list \<Rightarrow> Color" where
  "pcol [] = Red"
| "pcol (FL a c s # \<pi>) = c"
| "pcol (FR a c s # \<pi>) = c"

fun cok :: "frame list \<Rightarrow> nat \<Rightarrow> bool" where
  "cok [] n \<longleftrightarrow> True"
| "cok (FL a c s # \<pi>) n \<longleftrightarrow> rbt s \<and> bh s = n \<and> (c = Red \<longrightarrow> ccol s = Black \<and> pcol \<pi> = Black) \<and>
     cok \<pi> (n + (if c = Black then 1 else 0))"
| "cok (FR a c s # \<pi>) n \<longleftrightarrow> rbt s \<and> bh s = n \<and> (c = Red \<longrightarrow> ccol s = Black \<and> pcol \<pi> = Black) \<and>
     cok \<pi> (n + (if c = Black then 1 else 0))"

lemma rbtree_plug:
  "rbtree (plug \<pi> t) \<longleftrightarrow> rbt t \<and> (pcol \<pi> = Red \<longrightarrow> ccol t = Black) \<and> cok \<pi> (bh t)"
proof (induction \<pi> t rule: plug.induct)
  case (1 t)
  then show ?case by (auto simp: rbtree_def)
next
  case (2 a c s \<pi> t)
  then show ?case by (cases c; cases "pcol \<pi>") auto
next
  case (3 a c s \<pi> t)
  then show ?case by (cases c; cases "pcol \<pi>") auto
qed

subsection \<open>The path of an insertion\<close>

fun ins_path :: "(rb_node_id \<Rightarrow> u64) \<Rightarrow> u64 \<Rightarrow> ctree \<Rightarrow> frame list \<Rightarrow> frame list" where
  "ins_path K k Leaf \<pi> = \<pi>"
| "ins_path K k (Node l (a, c) r) \<pi> =
     (if k < K a then ins_path K k l (FL a c r # \<pi>) else ins_path K k r (FR a c l # \<pi>))"

lemma plug_ins_path: "plug (ins_path K k t \<pi>) Leaf = plug \<pi> t"
  by (induction K k t \<pi> rule: ins_path.induct) auto

fun cpre :: "frame list \<Rightarrow> rb_node_id list" where
  "cpre [] = []"
| "cpre (FL a c s # \<pi>) = cpre \<pi>"
| "cpre (FR a c s # \<pi>) = cpre \<pi> @ ids s @ [a]"

fun cpost :: "frame list \<Rightarrow> rb_node_id list" where
  "cpost [] = []"
| "cpost (FL a c s # \<pi>) = a # ids s @ cpost \<pi>"
| "cpost (FR a c s # \<pi>) = cpost \<pi>"

lemma ids_plug: "ids (plug \<pi> t) = cpre \<pi> @ ids t @ cpost \<pi>"
  by (induction \<pi> t rule: plug.induct) auto

text \<open>In a tree sorted by key the path ends after the keys \<open>\<le> k\<close>: equal keys keep their order.\<close>

lemma sorted_keys_split:
  fixes K :: "rb_node_id \<Rightarrow> u64"
  assumes "sorted (map K (xs @ a # ys))"
  shows "k < K a \<Longrightarrow> [b\<leftarrow>ys. K b \<le> k] = []" "k < K a \<Longrightarrow> [b\<leftarrow>ys. k < K b] = ys"
    "\<not> k < K a \<Longrightarrow> [b\<leftarrow>xs. k < K b] = []" "\<not> k < K a \<Longrightarrow> [b\<leftarrow>xs. K b \<le> k] = xs"
  using assms by (force simp: sorted_append filter_empty_conv filter_id_conv)+

lemma ins_path_inorder:
  "sorted (map K (ids t)) \<Longrightarrow>
   cpre (ins_path K k t \<pi>) = cpre \<pi> @ [b\<leftarrow>ids t. K b \<le> k] \<and>
   cpost (ins_path K k t \<pi>) = [b\<leftarrow>ids t. k < K b] @ cpost \<pi>"
proof (induction K k t \<pi> rule: ins_path.induct)
  case (1 K k \<pi>)
  then show ?case by simp
next
  case (2 K k l a c r \<pi>)
  have s: "sorted (map K (ids l @ a # ids r))" using "2.prems" by simp
  then have "sorted (map K (ids l))" "sorted (map K (ids r))"
    by (auto simp: sorted_append)
  with 2 sorted_keys_split [OF s, of k] show ?case by auto
qed

subsection \<open>The repair of an insertion\<close>

text \<open>
  \<open>fixup \<pi> t\<close>: the tree after the loop of \<open>fix_insert\<close>, for the red node at the root of \<open>t\<close> in the
  context \<open>\<pi>\<close>. \<open>rotates \<pi>\<close>: the loop ends with a rotation.
\<close>

fun sibling :: "frame \<Rightarrow> ctree" where
  "sibling (FL a c s) = s"
| "sibling (FR a c s) = s"

fun blacken :: "frame \<Rightarrow> frame" where
  "blacken (FL a c s) = FL a Black s"
| "blacken (FR a c s) = FR a Black s"

fun recolored :: "frame \<Rightarrow> frame \<Rightarrow> ctree \<Rightarrow> ctree" where
  "recolored f (FL g cg u) t = Node (plug [blacken f] t) (g, Red) (paint Black u)"
| "recolored f (FR g cg u) t = Node (paint Black u) (g, Red) (plug [blacken f] t)"

fun rotated :: "frame \<Rightarrow> frame \<Rightarrow> ctree \<Rightarrow> ctree" where
  "rotated (FL p cp s) (FL g cg u) t = Node t (p, Black) (Node s (g, Red) u)"
| "rotated (FR p cp s) (FR g cg u) t = Node (Node u (g, Red) s) (p, Black) t"
| "rotated (FR p cp s) (FL g cg u) (Node a (z, cz) b) =
     Node (Node s (p, cp) a) (z, Black) (Node b (g, Red) u)"
| "rotated (FL p cp s) (FR g cg u) (Node a (z, cz) b) =
     Node (Node u (g, Red) a) (z, Black) (Node b (p, cp) s)"
| "rotated f f' Leaf = plug [f, f'] Leaf"

fun fixup :: "frame list \<Rightarrow> ctree \<Rightarrow> ctree" where
  "fixup [] t = t"
| "fixup [f] t = plug [f] t"
| "fixup (f # f' # \<pi>) t =
     (if pcol [f] = Black then plug (f # f' # \<pi>) t
      else if ccol (sibling f') = Red then fixup \<pi> (recolored f f' t)
      else plug \<pi> (rotated f f' t))"

fun rotates :: "frame list \<Rightarrow> bool" where
  "rotates (f # f' # \<pi>) \<longleftrightarrow> pcol [f] = Red \<and> (ccol (sibling f') = Red \<longrightarrow> rotates \<pi>)"
| "rotates _ \<longleftrightarrow> False"

lemma plug_two: "plug (f # \<pi>) t = plug \<pi> (plug [f] t)"
  by (cases f) auto

lemma ids_recolored: "ids (recolored f f' t) = ids (plug [f, f'] t)"
  by (cases f; cases f') auto

lemma ids_rotated: "ids (rotated f f' t) = ids (plug [f, f'] t)"
  by (cases "(f, f', t)" rule: rotated.cases) auto

lemma ids_fixup: "ids (fixup \<pi> t) = ids (plug \<pi> t)"
proof (induction \<pi> t rule: fixup.induct)
  case (3 f f' \<pi> t)
  have "ids (plug (f # f' # \<pi>) t) = ids (plug \<pi> (plug [f, f'] t))"
    by (metis plug_two plug.simps(1))
  with 3 show ?case by (auto simp: ids_plug ids_recolored ids_rotated)
qed auto

text \<open>The repair, and the final blackening of the root, restore the red-black balance.\<close>

lemma rbtree_paint_plug:
  assumes "rbt t" and "cok \<pi> (bh t)" and "\<pi> \<noteq> [] \<Longrightarrow> pcol \<pi> = Red \<Longrightarrow> ccol t = Black"
  shows "rbtree (paint Black (plug \<pi> t))"
proof (cases "\<pi> = []")
  case True
  with assms(1) show ?thesis by (simp add: rbtree_def rbt_paint_Black)
next
  case False
  then have "rbtree (plug \<pi> t)" using assms by (simp add: rbtree_plug)
  then show ?thesis by (simp add: rbtree_def rbt_paint_Black)
qed

lemma cok_Red_root: "cok [f] n \<Longrightarrow> pcol [f] = Black"
  by (cases f; cases "pcol [f]") auto

lemma recolored_ok:
  assumes "rbt t" "ccol t = Red" "cok (f # f' # \<pi>) (bh t)" "pcol [f] = Red" "ccol (sibling f') = Red"
  shows "rbt (recolored f f' t)" "ccol (recolored f f' t) = Red" "cok \<pi> (bh (recolored f f' t))"
  using assms by (cases f; cases f'; force simp: bh_paint_Black rbt_paint_Black)+

lemma rotated_ok:
  assumes "rbt t" "ccol t = Red" "cok (f # f' # \<pi>) (bh t)" "pcol [f] = Red"
    "ccol (sibling f') = Black"
  shows "rbt (rotated f f' t)" "ccol (rotated f f' t) = Black" "cok \<pi> (bh (rotated f f' t))"
  using assms by (cases "(f, f', t)" rule: rotated.cases; force)+

lemma rbtree_fixup:
  assumes "rbt t" "ccol t = Red" "cok \<pi> (bh t)"
  shows "rbtree (paint Black (fixup \<pi> t))"
  using assms
proof (induction \<pi> t rule: fixup.induct)
  case (3 f f' \<pi> t)
  show ?case
  proof (cases "pcol [f]")
    case Red
    then show ?thesis
      using "3.IH" recolored_ok [OF "3.prems" Red] rotated_ok [OF "3.prems" Red]
      by (cases "ccol (sibling f')") (simp_all add: rbtree_paint_plug)
  next
    case Black
    then have "pcol (f # f' # \<pi>) = Black" by (cases f) auto
    with "3.prems" have "rbtree (paint Black (plug (f # f' # \<pi>) t))"
      by (intro rbtree_paint_plug) simp_all
    with Black show ?thesis by simp
  qed
next
  case (1 t)
  then show ?case by (simp add: rbtree_def rbt_paint_Black)
next
  case (2 f t)
  then have "pcol [f] = Black" by (blast dest: cok_Red_root)
  with 2 have "rbtree (paint Black (plug [f] t))"
    by (intro rbtree_paint_plug) simp_all
  then show ?case by simp
qed

end
