(* ===== verification/Rb_Round.thy ===== *)
theory Rb_Round
  imports Rb_Spec
begin

text \<open>
  One round of the loop of \<open>fix_insert\<close> on a linked tree: which branch is taken, what the
  recolouring and each of the four rotation cases make of the abstract tree, and which parent
  link the rotation cases leave wrong.
\<close>

subsection \<open>Trees in context\<close>

definition linked :: "rb_tree \<Rightarrow> frame list \<Rightarrow> rb_node_id \<Rightarrow> ctree \<Rightarrow> bool" where
  "linked t \<pi> i T \<longleftrightarrow> length (nodes t) = MAX_RB_NODES \<and> distinct (ids T @ cids \<pi>) \<and>
     ctx (nodes t) (rb_root t) i \<pi> \<and> shape (nodes t) i T \<and>
     (\<forall>j \<in> set (ids T) \<union> set (cids \<pi>). in_use (nodes t ! j))"

definition same_payload :: "rb_tree \<Rightarrow> rb_tree \<Rightarrow> bool" where
  "same_payload t t' \<longleftrightarrow> payload_kept t t' \<and>
     (\<forall>i < length (nodes t). \<not> in_use (nodes t ! i) \<longrightarrow> nodes t' ! i = nodes t ! i)"

lemma linkedD:
  assumes "linked t \<pi> i T"
  shows "length (nodes t) = MAX_RB_NODES" "distinct (ids T @ cids \<pi>)"
    "ctx (nodes t) (rb_root t) i \<pi>" "shape (nodes t) i T"
    "\<forall>j \<in> set (ids T) \<union> set (cids \<pi>). in_use (nodes t ! j)"
  using assms by (simp_all add: linked_def)

lemma linked_FL: "linked t (FL a c s # \<pi>) i T \<Longrightarrow> linked t \<pi> a (Node T (a, c) s)"
  by (auto simp: linked_def)

lemma linked_FR: "linked t (FR a c s # \<pi>) i T \<Longrightarrow> linked t \<pi> a (Node s (a, c) T)"
  by (auto simp: linked_def)

lemma linked_plug: "linked t \<pi> i T \<Longrightarrow> linked t [] (rb_root t) (plug \<pi> T)"
  by (auto simp: linked_def distinct_plug shape_plug set_ids_plug)

lemma same_payload_trans: "same_payload t u \<Longrightarrow> same_payload u v \<Longrightarrow> same_payload t v"
  by (simp add: same_payload_def payload_kept_def)

lemma ctx_root: "ctx ns rt i \<pi> \<Longrightarrow> \<pi> \<noteq> [] \<Longrightarrow> rt \<in> set (cids \<pi>)"
proof (induction ns rt i \<pi> rule: ctx.induct)
  case (2 ns rt i a c s \<pi>)
  then show ?case by (cases "\<pi> = []") auto
next
  case (3 ns rt i a c s \<pi>)
  then show ?case by (cases "\<pi> = []") auto
qed simp

lemma linked_not_root:
  "linked t \<pi> z (Node a (z, c) b) \<Longrightarrow> \<pi> \<noteq> [] \<Longrightarrow> z \<noteq> rb_root t"
  by (auto simp: linked_def dest: ctx_root)

subsection \<open>The rotation at the grandparent\<close>

lemma rotate_right_linked:
  assumes l: "linked t \<pi> y (Node (Node a (x, cx) b) (y, cy) c)"
    and p: "parent (nodes t ! y) = uplink \<pi>"
  obtains t' where "rotate_right t y = Some t'" "same_payload t t'"
    "linked t' \<pi> x (Node a (x, cx) (Node b (y, cy) c))"
    "\<forall>i. parent (nodes t' ! i) = (if i = y then x else if i = x then uplink \<pi>
        else if b \<noteq> Leaf \<and> i = fst (value b) then y else parent (nodes t ! i))"
proof -
  note ld = linkedD [OF l]
  from rotate_right_links [OF ld(1,3,4,2) p] obtain t' where
    t': "rotate_right t y = Some t'" "payload_kept t t'" "ctx (nodes t') (rb_root t') x \<pi>"
      "shape (nodes t') x (Node a (x, cx) (Node b (y, cy) c))"
      "\<forall>i. parent (nodes t' ! i) = (if i = y then x else if i = x then uplink \<pi>
        else if b \<noteq> Leaf \<and> i = fst (value b) then y else parent (nodes t ! i))"
    by blast
  have "distinct (ids (Node a (x, cx) (Node b (y, cy) c)) @ cids \<pi>)" using ld(2) by simp
  then have l': "linked t' \<pi> x (Node a (x, cx) (Node b (y, cy) c))"
    using t'(2-4) ld(1,5) by (auto simp: linked_def payload_kept_def)
  have "nodes t' ! i = nodes t ! i" if i: "\<not> in_use (nodes t ! i)" and ne: "i < 1024" for i
  proof -
    have "\<pi> \<noteq> [] \<Longrightarrow> i \<noteq> uplink \<pi>" using ld(5) i uplink_in [of \<pi>] by blast
    moreover have "\<pi> = [] \<Longrightarrow> i \<noteq> uplink \<pi>" using ne by (simp add: RB_INVALID_def)
    moreover have "i \<noteq> right (nodes t ! x)"
      using shape_neq [of "nodes t" "right (nodes t ! x)" b i] ld(4,5) i ne by auto
    moreover have "i \<noteq> x" "i \<noteq> y" using ld(5) i by auto
    ultimately show ?thesis
      using rotate_right_frame [OF ld(1,3,4,2) p, of i] t'(1) by (cases "\<pi> = []") auto
  qed
  then have "same_payload t t'" using t'(2) ld(1) by (simp add: same_payload_def MAX_RB_NODES_def)
  from t'(1) this l' t'(5) show ?thesis by (rule that)
qed

lemma rotate_left_linked:
  assumes l: "linked t \<pi> x (Node a (x, cx) (Node b (y, cy) c))"
    and p: "parent (nodes t ! x) = uplink \<pi>"
  obtains t' where "rotate_left t x = Some t'" "same_payload t t'"
    "linked t' \<pi> y (Node (Node a (x, cx) b) (y, cy) c)"
    "\<forall>i. parent (nodes t' ! i) = (if i = x then y else if i = y then uplink \<pi>
        else if b \<noteq> Leaf \<and> i = fst (value b) then x else parent (nodes t ! i))"
proof -
  note ld = linkedD [OF l]
  from rotate_left_links [OF ld(1,3,4,2) p] obtain t' where
    t': "rotate_left t x = Some t'" "payload_kept t t'" "ctx (nodes t') (rb_root t') y \<pi>"
      "shape (nodes t') y (Node (Node a (x, cx) b) (y, cy) c)"
      "\<forall>i. parent (nodes t' ! i) = (if i = x then y else if i = y then uplink \<pi>
        else if b \<noteq> Leaf \<and> i = fst (value b) then x else parent (nodes t ! i))"
    by blast
  have "distinct (ids (Node (Node a (x, cx) b) (y, cy) c) @ cids \<pi>)" using ld(2) by simp
  then have l': "linked t' \<pi> y (Node (Node a (x, cx) b) (y, cy) c)"
    using t'(2-4) ld(1,5) by (auto simp: linked_def payload_kept_def)
  have "nodes t' ! i = nodes t ! i" if i: "\<not> in_use (nodes t ! i)" and ne: "i < 1024" for i
  proof -
    have "\<pi> \<noteq> [] \<Longrightarrow> i \<noteq> uplink \<pi>" using ld(5) i uplink_in [of \<pi>] by blast
    moreover have "\<pi> = [] \<Longrightarrow> i \<noteq> uplink \<pi>" using ne by (simp add: RB_INVALID_def)
    moreover have "i \<noteq> left (nodes t ! y)"
      using shape_neq [of "nodes t" "left (nodes t ! y)" b i] ld(4,5) i ne by auto
    moreover have "i \<noteq> x" "i \<noteq> y" using ld(5) i by auto
    ultimately show ?thesis
      using rotate_left_frame [OF ld(1,3,4,2) p, of i] t'(1) by (cases "\<pi> = []") auto
  qed
  then have "same_payload t t'" using t'(2) ld(1) by (simp add: same_payload_def MAX_RB_NODES_def)
  from t'(1) this l' t'(5) show ?thesis by (rule that)
qed

lemma rotate_right_recolor:
  assumes l: "linked t \<pi> g (Node (Node a (x, cx) b) (g, cg) c)"
    and p: "parent (nodes t ! g) = uplink \<pi>"
  obtains t' where "do { t \<leftarrow> rotate_right t g; ng \<leftarrow> node t g; t \<leftarrow> set_color t (parent ng) Black;
       set_color t g Red } = Some t'" "same_payload t t'"
     "linked t' \<pi> x (Node a (x, Black) (Node b (g, Red) c))"
     "\<forall>i. parent (nodes t' ! i) = (if i = g then x else if i = x then uplink \<pi>
        else if b \<noteq> Leaf \<and> i = fst (value b) then g else parent (nodes t ! i))"
proof -
  from l p obtain u where u: "rotate_right t g = Some u" "same_payload t u"
    "linked u \<pi> x (Node a (x, cx) (Node b (g, cg) c))"
    "\<forall>i. parent (nodes u ! i) = (if i = g then x else if i = x then uplink \<pi>
        else if b \<noteq> Leaf \<and> i = fst (value b) then g else parent (nodes t ! i))"
    by (rule rotate_right_linked)
  let ?ns = "(nodes u)[x := (nodes u ! x)\<lparr>color := Black\<rparr>]"
  show ?thesis
    by (rule that [of "u\<lparr>nodes := ?ns[g := (?ns ! g)\<lparr>color := Red\<rparr>]\<rparr>"])
      (use u in \<open>simp_all add: set_color_def same_payload_def payload_kept_def linked_def nth_list_update\<close>,
        auto)
qed

lemma rotate_left_recolor:
  assumes l: "linked t \<pi> g (Node a (g, cg) (Node b (x, cx) c))"
    and p: "parent (nodes t ! g) = uplink \<pi>"
  obtains t' where "do { t \<leftarrow> rotate_left t g; ng \<leftarrow> node t g; t \<leftarrow> set_color t (parent ng) Black;
       set_color t g Red } = Some t'" "same_payload t t'"
     "linked t' \<pi> x (Node (Node a (g, Red) b) (x, Black) c)"
     "\<forall>i. parent (nodes t' ! i) = (if i = g then x else if i = x then uplink \<pi>
        else if b \<noteq> Leaf \<and> i = fst (value b) then g else parent (nodes t ! i))"
proof -
  from l p obtain u where u: "rotate_left t g = Some u" "same_payload t u"
    "linked u \<pi> x (Node (Node a (g, cg) b) (x, cx) c)"
    "\<forall>i. parent (nodes u ! i) = (if i = g then x else if i = x then uplink \<pi>
        else if b \<noteq> Leaf \<and> i = fst (value b) then g else parent (nodes t ! i))"
    by (rule rotate_left_linked)
  let ?ns = "(nodes u)[x := (nodes u ! x)\<lparr>color := Black\<rparr>]"
  show ?thesis
    by (rule that [of "u\<lparr>nodes := ?ns[g := (?ns ! g)\<lparr>color := Red\<rparr>]\<rparr>"])
      (use u in \<open>simp_all add: set_color_def same_payload_def payload_kept_def linked_def nth_list_update\<close>,
        auto)
qed

lemma upd_parent:
  assumes l: "linked t \<pi> i T" and "n \<in> set (ids T)"
  obtains t' where "upd t n (\<lambda>n. n\<lparr>parent := q\<rparr>) = Some t'" "same_payload t t'" "linked t' \<pi> i T"
    "\<forall>j. parent (nodes t' ! j) = (if j = n then q else parent (nodes t ! j))"
proof -
  have n: "n < length (nodes t)" using assms by (auto simp: linked_def dest: ids_less)
  let ?ns = "(nodes t)[n := (nodes t ! n)\<lparr>parent := q\<rparr>]"
  have "shape ?ns i T = shape (nodes t) i T"
    by (rule shape_cong) (use n in \<open>simp_all add: nth_list_update\<close>)
  moreover have "ctx ?ns (rb_root t) i \<pi> = ctx (nodes t) (rb_root t) i \<pi>"
    by (rule ctx_cong) (use n in \<open>simp_all add: nth_list_update\<close>)
  ultimately show ?thesis
    by (intro that [of "t\<lparr>nodes := ?ns\<rparr>"])
      (use n l assms(2) in \<open>simp_all add: same_payload_def payload_kept_def linked_def nth_list_update\<close>)
qed

subsection \<open>One round of the repair\<close>

lemma linked_lt: "linked t \<pi> i T \<Longrightarrow> n \<in> set (ids T) \<Longrightarrow> n < 1024"
  by (auto simp: linked_def MAX_RB_NODES_def dest: ids_less)

lemma linked_child_FL:
  assumes "linked t (FL p c s # \<pi>) z (Node a (z, cz) b)"
  shows "left (nodes t ! p) = z" "right (nodes t ! p) \<noteq> z" "s \<noteq> Leaf \<longrightarrow> fst (value s) \<noteq> z"
    "shape (nodes t) (right (nodes t ! p)) s" "color (nodes t ! p) = c"
  using shape_neq [of "nodes t" "right (nodes t ! p)" s z] linked_lt [OF assms, of z] assms
  by (cases s rule: ids.cases; simp add: linked_def)+

lemma linked_child_FR:
  assumes "linked t (FR p c s # \<pi>) z (Node a (z, cz) b)"
  shows "right (nodes t ! p) = z" "left (nodes t ! p) \<noteq> z" "s \<noteq> Leaf \<longrightarrow> fst (value s) \<noteq> z"
    "shape (nodes t) (left (nodes t ! p)) s" "color (nodes t ! p) = c"
  using shape_neq [of "nodes t" "left (nodes t ! p)" s z] linked_lt [OF assms, of z] assms
  by (cases s rule: ids.cases; simp add: linked_def)+

lemma root_not_in: "x \<notin> set (ids t) \<Longrightarrow> t \<noteq> Leaf \<longrightarrow> fst (value t) \<noteq> x"
  by (cases t rule: ids.cases) auto

lemma insert_rotate_LL:
  assumes l: "linked t (FL p Red s # FL g cg u # \<pi>) z (Node a (z, Red) b)"
    and q: "pctx (nodes t) (FL p Red s # FL g cg u # \<pi>)"
  obtains t' where "fix_insert_rotate_left_case t z p g = Some t'" "same_payload t t'"
    "linked t' \<pi> p (Node (Node a (z, Red) b) (p, Black) (Node s (g, Red) u))"
    "parent (nodes t' ! z) = g" "g \<noteq> p"
proof -
  note i = linked_FL [OF linked_FL [OF l]]
  from i obtain t1 where t1: "upd t z (\<lambda>n. n\<lparr>parent := g\<rparr>) = Some t1" "same_payload t t1"
    "linked t1 \<pi> g (Node (Node (Node a (z, Red) b) (p, Red) s) (g, cg) u)"
    "\<forall>j. parent (nodes t1 ! j) = (if j = z then g else parent (nodes t ! j))"
    by (rule upd_parent [where n = z]) auto
  have d: "g \<noteq> z" "g \<noteq> p" "z \<noteq> p" using linkedD(2) [OF i] by auto
  have "parent (nodes t1 ! g) = uplink \<pi>" using t1(4) q d by simp
  with t1(3) obtain t2 where
    t2: "do { t \<leftarrow> rotate_right t1 g; ng \<leftarrow> node t g; t \<leftarrow> set_color t (parent ng) Black;
        set_color t g Red } = Some t2" "same_payload t1 t2"
      "linked t2 \<pi> p (Node (Node a (z, Red) b) (p, Black) (Node s (g, Red) u))"
      "\<forall>i. parent (nodes t2 ! i) = (if i = g then p else if i = p then uplink \<pi>
        else if s \<noteq> Leaf \<and> i = fst (value s) then g else parent (nodes t1 ! i))"
    by (rule rotate_right_recolor)
  have "p < length (nodes t)" using ids_less [OF linkedD(4) [OF i]] by simp
  then have "fix_insert_rotate_left_case t z p g = Some t2"
    using t1(1) t2(1) linked_child_FL [OF l] by (simp add: fix_insert_rotate_left_case_def)
  moreover have "parent (nodes t2 ! z) = g"
    using d linked_child_FL [OF l] by (simp add: t2(4) t1(4))
  ultimately show ?thesis
    using that same_payload_trans [OF t1(2) t2(2)] t2(3) d(2) by blast
qed

lemma insert_rotate_RR:
  assumes l: "linked t (FR p Red s # FR g cg u # \<pi>) z (Node a (z, Red) b)"
    and q: "pctx (nodes t) (FR p Red s # FR g cg u # \<pi>)"
  obtains t' where "fix_insert_rotate_right_case t z p g = Some t'" "same_payload t t'"
    "linked t' \<pi> p (Node (Node u (g, Red) s) (p, Black) (Node a (z, Red) b))"
    "parent (nodes t' ! z) = g" "g \<noteq> p"
proof -
  note i = linked_FR [OF linked_FR [OF l]]
  from i obtain t1 where t1: "upd t z (\<lambda>n. n\<lparr>parent := g\<rparr>) = Some t1" "same_payload t t1"
    "linked t1 \<pi> g (Node u (g, cg) (Node s (p, Red) (Node a (z, Red) b)))"
    "\<forall>j. parent (nodes t1 ! j) = (if j = z then g else parent (nodes t ! j))"
    by (rule upd_parent [where n = z]) auto
  have d: "g \<noteq> z" "g \<noteq> p" "z \<noteq> p" using linkedD(2) [OF i] by auto
  have "parent (nodes t1 ! g) = uplink \<pi>" using t1(4) q d by simp
  with t1(3) obtain t2 where
    t2: "do { t \<leftarrow> rotate_left t1 g; ng \<leftarrow> node t g; t \<leftarrow> set_color t (parent ng) Black;
        set_color t g Red } = Some t2" "same_payload t1 t2"
      "linked t2 \<pi> p (Node (Node u (g, Red) s) (p, Black) (Node a (z, Red) b))"
      "\<forall>i. parent (nodes t2 ! i) = (if i = g then p else if i = p then uplink \<pi>
        else if s \<noteq> Leaf \<and> i = fst (value s) then g else parent (nodes t1 ! i))"
    by (rule rotate_left_recolor)
  have "p < length (nodes t)" using ids_less [OF linkedD(4) [OF i]] by simp
  then have "fix_insert_rotate_right_case t z p g = Some t2"
    using t1(1) t2(1) linked_child_FR [OF l] by (simp add: fix_insert_rotate_right_case_def)
  moreover have "parent (nodes t2 ! z) = g"
    using d linked_child_FR [OF l] by (simp add: t2(4) t1(4))
  ultimately show ?thesis
    using that same_payload_trans [OF t1(2) t2(2)] t2(3) d(2) by blast
qed

lemma insert_rotate_LR:
  assumes l: "linked t (FR p Red s # FL g cg u # \<pi>) z (Node a (z, Red) b)"
    and q: "pctx (nodes t) (FR p Red s # FL g cg u # \<pi>)"
  obtains t' where "fix_insert_rotate_left_case t z p g = Some t'" "same_payload t t'"
    "linked t' \<pi> z (Node (Node s (p, Red) a) (z, Black) (Node b (g, Red) u))"
    "parent (nodes t' ! p) = g" "g \<noteq> z"
proof -
  note i = linked_FR [OF l]
  have "parent (nodes t ! p) = uplink (FL g cg u # \<pi>)" using q by simp
  with i obtain t0 where t0: "rotate_left t p = Some t0" "same_payload t t0"
    "linked t0 (FL g cg u # \<pi>) z (Node (Node s (p, Red) a) (z, Red) b)"
    "\<forall>i. parent (nodes t0 ! i) = (if i = p then z else if i = z then uplink (FL g cg u # \<pi>)
        else if a \<noteq> Leaf \<and> i = fst (value a) then p else parent (nodes t ! i))"
    by (rule rotate_left_linked)
  note j = linked_FL [OF t0(3)]
  from j obtain t1 where t1: "upd t0 p (\<lambda>n. n\<lparr>parent := g\<rparr>) = Some t1" "same_payload t0 t1"
    "linked t1 \<pi> g (Node (Node (Node s (p, Red) a) (z, Red) b) (g, cg) u)"
    "\<forall>j. parent (nodes t1 ! j) = (if j = p then g else parent (nodes t0 ! j))"
    by (rule upd_parent [where n = p]) auto
  have d: "g \<noteq> z" "g \<noteq> p" "z \<noteq> p" "g \<notin> set (ids a)" "g \<notin> set (ids b)" "p \<notin> set (ids b)" "p \<notin> set (ids a)"
    using linkedD(2) [OF j] by auto
  note r = root_not_in [OF d(4)] root_not_in [OF d(5)] root_not_in [OF d(6)] root_not_in [OF d(7)]
  have "parent (nodes t1 ! g) = uplink \<pi>" using q d r by (auto simp: t1(4) t0(4))
  with t1(3) obtain t2 where
    t2: "do { t \<leftarrow> rotate_right t1 g; ng \<leftarrow> node t g; t \<leftarrow> set_color t (parent ng) Black;
        set_color t g Red } = Some t2" "same_payload t1 t2"
      "linked t2 \<pi> z (Node (Node s (p, Red) a) (z, Black) (Node b (g, Red) u))"
      "\<forall>i. parent (nodes t2 ! i) = (if i = g then z else if i = z then uplink \<pi>
        else if b \<noteq> Leaf \<and> i = fst (value b) then g else parent (nodes t1 ! i))"
    by (rule rotate_right_recolor)
  have "p < length (nodes t)" using ids_less [OF linkedD(4) [OF i]] by simp
  then have "fix_insert_rotate_left_case t z p g = Some t2"
    using t0(1) t1(1) t2(1) linked_child_FR [OF l] by (simp add: fix_insert_rotate_left_case_def)
  moreover have "parent (nodes t2 ! p) = g"
    using d r by (auto simp: t2(4) t1(4))
  ultimately show ?thesis
    using that same_payload_trans [OF t0(2) same_payload_trans [OF t1(2) t2(2)]] t2(3) d(1) by blast
qed

lemma insert_rotate_RL:
  assumes l: "linked t (FL p Red s # FR g cg u # \<pi>) z (Node a (z, Red) b)"
    and q: "pctx (nodes t) (FL p Red s # FR g cg u # \<pi>)"
  obtains t' where "fix_insert_rotate_right_case t z p g = Some t'" "same_payload t t'"
    "linked t' \<pi> z (Node (Node u (g, Red) a) (z, Black) (Node b (p, Red) s))"
    "parent (nodes t' ! p) = g" "g \<noteq> z"
proof -
  note i = linked_FL [OF l]
  have "parent (nodes t ! p) = uplink (FR g cg u # \<pi>)" using q by simp
  with i obtain t0 where t0: "rotate_right t p = Some t0" "same_payload t t0"
    "linked t0 (FR g cg u # \<pi>) z (Node a (z, Red) (Node b (p, Red) s))"
    "\<forall>i. parent (nodes t0 ! i) = (if i = p then z else if i = z then uplink (FR g cg u # \<pi>)
        else if b \<noteq> Leaf \<and> i = fst (value b) then p else parent (nodes t ! i))"
    by (rule rotate_right_linked)
  note j = linked_FR [OF t0(3)]
  from j obtain t1 where t1: "upd t0 p (\<lambda>n. n\<lparr>parent := g\<rparr>) = Some t1" "same_payload t0 t1"
    "linked t1 \<pi> g (Node u (g, cg) (Node a (z, Red) (Node b (p, Red) s)))"
    "\<forall>j. parent (nodes t1 ! j) = (if j = p then g else parent (nodes t0 ! j))"
    by (rule upd_parent [where n = p]) auto
  have d: "g \<noteq> z" "g \<noteq> p" "z \<noteq> p" "g \<notin> set (ids a)" "g \<notin> set (ids b)" "p \<notin> set (ids b)" "p \<notin> set (ids a)"
    using linkedD(2) [OF j] by auto
  note r = root_not_in [OF d(4)] root_not_in [OF d(5)] root_not_in [OF d(6)] root_not_in [OF d(7)]
  have "parent (nodes t1 ! g) = uplink \<pi>" using q d r by (auto simp: t1(4) t0(4))
  with t1(3) obtain t2 where
    t2: "do { t \<leftarrow> rotate_left t1 g; ng \<leftarrow> node t g; t \<leftarrow> set_color t (parent ng) Black;
        set_color t g Red } = Some t2" "same_payload t1 t2"
      "linked t2 \<pi> z (Node (Node u (g, Red) a) (z, Black) (Node b (p, Red) s))"
      "\<forall>i. parent (nodes t2 ! i) = (if i = g then z else if i = z then uplink \<pi>
        else if a \<noteq> Leaf \<and> i = fst (value a) then g else parent (nodes t1 ! i))"
    by (rule rotate_left_recolor)
  have "p < length (nodes t)" using ids_less [OF linkedD(4) [OF i]] by simp
  then have "fix_insert_rotate_right_case t z p g = Some t2"
    using t0(1) t1(1) t2(1) linked_child_FL [OF l] by (simp add: fix_insert_rotate_right_case_def)
  moreover have "parent (nodes t2 ! p) = g"
    using d r by (auto simp: t2(4) t1(4))
  ultimately show ?thesis
    using that same_payload_trans [OF t0(2) same_payload_trans [OF t1(2) t2(2)]] t2(3) d(1) by blast
qed

lemma insert_recolor:
  assumes l: "linked t \<pi> g (Node (Node a (p, cp) b) (g, cg) (Node c (v, cv) d))"
    and pv: "{p, v} = {x, y}"
  obtains t' where
    "do { t \<leftarrow> set_color t x Black; t \<leftarrow> set_color t y Black; set_color t g Red } = Some t'"
    "same_payload t t'"
    "linked t' \<pi> g (Node (Node a (p, Black) b) (g, Red) (Node c (v, Black) d))"
    "\<forall>i. parent (nodes t' ! i) = parent (nodes t ! i)"
proof -
  let ?n1 = "(nodes t)[x := (nodes t ! x)\<lparr>color := Black\<rparr>]"
  let ?n2 = "?n1[y := (?n1 ! y)\<lparr>color := Black\<rparr>]"
  have x: "x = p \<and> y = v \<or> x = v \<and> y = p" using pv by (auto simp: doubleton_eq_iff)
  from x show ?thesis
  proof (elim disjE conjE)
    assume "x = p" "y = v"
    then show ?thesis
      by (intro that [of "t\<lparr>nodes := ?n2[g := (?n2 ! g)\<lparr>color := Red\<rparr>]\<rparr>"])
        (use l in \<open>simp_all add: set_color_def same_payload_def payload_kept_def linked_def nth_list_update\<close>,
          auto)
  next
    assume "x = v" "y = p"
    then show ?thesis
      by (intro that [of "t\<lparr>nodes := ?n2[g := (?n2 ! g)\<lparr>color := Red\<rparr>]\<rparr>"])
        (use l in \<open>simp_all add: set_color_def same_payload_def payload_kept_def linked_def nth_list_update\<close>,
          auto)
  qed
qed

subsection \<open>The loop\<close>

lemma is_valid_node: "linked t \<pi> i T \<Longrightarrow> n \<in> set (ids T) \<Longrightarrow> is_valid n"
  by (drule (1) linked_lt) (auto simp: is_valid_def RB_INVALID_def)

lemma bind_assoc3:
  fixes A :: "'a option" and B :: "'a \<Rightarrow> 'b option" and C :: "'b \<Rightarrow> 'c option"
    and D :: "'c \<Rightarrow> 'd option"
  shows "do { x \<leftarrow> A; x \<leftarrow> B x; x \<leftarrow> C x; D x } = do { x \<leftarrow> do { x \<leftarrow> A; x \<leftarrow> B x; C x }; D x }"
  by (cases A) (simp_all add: bind_assoc)

lemma loop_black_parent:
  assumes l: "linked t (f # \<pi>) z (Node a (z, Red) b)" and "pcol [f] = Black"
    and "parent (nodes t ! z) = uplink (f # \<pi>)"
  shows "fix_insert_loop t z = Some t"
  using assms linked_not_root [OF l]
  by (subst fix_insert_loop.simps, cases f) (simp_all add: linked_def Let_def)

lemma loop_root_parent:
  assumes l: "linked t [f] z (Node a (z, Red) b)" and "pctx (nodes t) [f]"
    and "parent (nodes t ! z) = uplink [f]"
  shows "fix_insert_loop t z = Some t"
  using assms linked_not_root [OF l]
  by (subst fix_insert_loop.simps, cases f) (simp_all add: linked_def Let_def is_valid_def)

lemma loop_left_parent:
  assumes l: "linked t (f # FL g cg u # \<pi>) z (Node a (z, Red) b)" and f: "pcol [f] = Red"
    and q: "pctx (nodes t) (f # FL g cg u # \<pi>)" "parent (nodes t ! z) = uplink [f]"
  shows "fix_insert_loop t z =
    (if ccol u = Red then do {
       t1 \<leftarrow> set_color t (uplink [f]) Black;
       t2 \<leftarrow> set_color t1 (right (nodes t ! g)) Black;
       t \<leftarrow> set_color t2 g Red;
       fix_insert_loop t g }
     else fix_insert_rotate_left_case t z (uplink [f]) g)"
proof -
  let ?p = "uplink [f]"
  have p: "?p < length (nodes t)" "parent (nodes t ! ?p) = g" "color (nodes t ! ?p) = Red"
    "g < length (nodes t)" "z < length (nodes t)" "length (nodes t) = MAX_RB_NODES"
    "left (nodes t ! g) = ?p" "shape (nodes t) (right (nodes t ! g)) u"
    using l q f by (cases f; simp add: linked_def)+
  have v: "is_valid ?p" "is_valid g"
    using p by (auto simp: is_valid_def RB_INVALID_def MAX_RB_NODES_def)
  show ?thesis
    using linked_not_root [OF l] p v q(2) neq_INVALID [OF p(6)]
    by (subst fix_insert_loop.simps, cases u rule: ids.cases) (simp_all add: Let_def is_valid_def)
qed

lemma loop_right_parent:
  assumes l: "linked t (f # FR g cg u # \<pi>) z (Node a (z, Red) b)" and f: "pcol [f] = Red"
    and q: "pctx (nodes t) (f # FR g cg u # \<pi>)" "parent (nodes t ! z) = uplink [f]"
  shows "fix_insert_loop t z =
    (if ccol u = Red then do {
       t1 \<leftarrow> set_color t (uplink [f]) Black;
       t2 \<leftarrow> set_color t1 (left (nodes t ! g)) Black;
       t \<leftarrow> set_color t2 g Red;
       fix_insert_loop t g }
     else fix_insert_rotate_right_case t z (uplink [f]) g)"
proof -
  let ?p = "uplink [f]"
  have p: "?p < length (nodes t)" "parent (nodes t ! ?p) = g" "color (nodes t ! ?p) = Red"
    "g < length (nodes t)" "z < length (nodes t)" "length (nodes t) = MAX_RB_NODES"
    "right (nodes t ! g) = ?p" "shape (nodes t) (left (nodes t ! g)) u" "?p \<notin> set (ids u)"
    using l q f by (cases f; simp add: linked_def)+
  have v: "is_valid ?p" "is_valid g"
    using p by (auto simp: is_valid_def RB_INVALID_def MAX_RB_NODES_def)
  have n: "left (nodes t ! g) \<noteq> ?p"
    by (rule shape_neq [OF p(8,9)]) (use p in \<open>simp add: MAX_RB_NODES_def\<close>)
  show ?thesis
    using linked_not_root [OF l] n p v q(2) neq_INVALID [OF p(6)]
    by (subst fix_insert_loop.simps, cases u rule: ids.cases) (simp_all add: Let_def is_valid_def)
qed

text \<open>A red uncle: the loop goes on at the grandparent, in a tree that is linked correctly.\<close>

lemma linked_up: "linked t (f # \<pi>) i T \<Longrightarrow> linked t \<pi> (uplink [f]) (plug [f] T)"
  by (cases f) (simp, erule linked_FL, simp, erule linked_FR)

lemma insert_red_uncle:
  assumes l: "linked t (f # f' # \<pi>) z (Node a (z, Red) b)" and f: "pcol [f] = Red"
    and u: "ccol (sibling f') = Red"
    and q: "parents (nodes t) (uplink (f # f' # \<pi>)) (Node a (z, Red) b)" "pctx (nodes t) (f # f' # \<pi>)"
  obtains t' where "fix_insert_loop t z = fix_insert_loop t' (uplink [f'])" "same_payload t t'"
    "linked t' \<pi> (uplink [f']) (recolored f f' (Node a (z, Red) b))"
    "parents (nodes t') (uplink \<pi>) (recolored f f' (Node a (z, Red) b))" "pctx (nodes t') \<pi>"
proof -
  let ?p = "uplink [f]"
  obtain A B where T: "plug [f] (Node a (z, Red) b) = Node A (?p, Red) B"
    "plug [blacken f] (Node a (z, Red) b) = Node A (?p, Black) B"
    using f by (cases f) auto
  have zp: "parent (nodes t ! z) = ?p" using q(1) by (cases f) auto
  have pp: "parents (nodes t) (uplink (f' # \<pi>)) (Node A (?p, Red) B)" "pctx (nodes t) (f' # \<pi>)"
    using q T(1) by (cases f; auto)+
  show ?thesis
  proof (cases f')
  case (FL g cg w)
  from u FL obtain c v d where w: "w = Node c (v, Red) d" by (cases w rule: ids.cases) auto
  have i: "linked t \<pi> g (Node (Node A (?p, Red) B) (g, cg) (Node c (v, Red) d))"
    using linked_up [OF linked_up [OF l]] by (simp add: T FL w)
  obtain t1 where t1:
    "do { t \<leftarrow> set_color t ?p Black; t \<leftarrow> set_color t v Black; set_color t g Red } = Some t1"
    "same_payload t t1" "linked t1 \<pi> g (Node (Node A (?p, Black) B) (g, Red) (Node c (v, Black) d))"
    "\<forall>i. parent (nodes t1 ! i) = parent (nodes t ! i)"
    by (rule insert_recolor [OF i refl])
  have pr: "parents (nodes t1) r X = parents (nodes t) r X" "pctx (nodes t1) \<pi>' = pctx (nodes t) \<pi>'"
    for r X \<pi>' by (rule parents_cong pctx_cong, simp add: t1(4))+
  have v: "right (nodes t ! g) = v" using linkedD(4) [OF i] by simp
  have "fix_insert_loop t z = fix_insert_loop t1 g"
    using t1(1) u bind_assoc3 [of "set_color t ?p Black" "\<lambda>t. set_color t v Black"
        "\<lambda>t. set_color t g Red" "\<lambda>t. fix_insert_loop t g"]
    by (simp add: loop_left_parent [OF l [unfolded FL] f q(2) [unfolded FL] zp, unfolded v] FL)
  moreover have "recolored f f' (Node a (z, Red) b) = (Node (Node A (?p, Black) B) (g, Red) (Node c (v, Black) d))"
    using T FL w by simp
  moreover have "parents (nodes t) (uplink \<pi>) (Node (Node A (?p, Black) B) (g, Red) (Node c (v, Black) d))" "pctx (nodes t) \<pi>"
    using pp FL w by (simp_all add: T)
  ultimately show ?thesis
    using that [of t1] t1(2-4) pr FL by simp
  next
  case (FR g cg w)
  from u FR obtain c v d where w: "w = Node c (v, Red) d" by (cases w rule: ids.cases) auto
  have i: "linked t \<pi> g (Node (Node c (v, Red) d) (g, cg) (Node A (?p, Red) B))"
    using linked_up [OF linked_up [OF l]] by (simp add: T FR w)
  obtain t1 where t1:
    "do { t \<leftarrow> set_color t ?p Black; t \<leftarrow> set_color t v Black; set_color t g Red } = Some t1"
    "same_payload t t1" "linked t1 \<pi> g (Node (Node c (v, Black) d) (g, Red) (Node A (?p, Black) B))"
    "\<forall>i. parent (nodes t1 ! i) = parent (nodes t ! i)"
    by (rule insert_recolor [OF i insert_commute])
  have pr: "parents (nodes t1) r X = parents (nodes t) r X" "pctx (nodes t1) \<pi>' = pctx (nodes t) \<pi>'"
    for r X \<pi>' by (rule parents_cong pctx_cong, simp add: t1(4))+
  have v: "left (nodes t ! g) = v" using linkedD(4) [OF i] by simp
  have "fix_insert_loop t z = fix_insert_loop t1 g"
    using t1(1) u bind_assoc3 [of "set_color t ?p Black" "\<lambda>t. set_color t v Black"
        "\<lambda>t. set_color t g Red" "\<lambda>t. fix_insert_loop t g"]
    by (simp add: loop_right_parent [OF l [unfolded FR] f q(2) [unfolded FR] zp, unfolded v] FR)
  moreover have "recolored f f' (Node a (z, Red) b) = (Node (Node c (v, Black) d) (g, Red) (Node A (?p, Black) B))"
    using T FR w by simp
  moreover have "parents (nodes t) (uplink \<pi>) (Node (Node c (v, Black) d) (g, Red) (Node A (?p, Black) B))" "pctx (nodes t) \<pi>"
    using pp FR w by (simp_all add: T)
  ultimately show ?thesis
    using that [of t1] t1(2-4) pr FR by simp
  qed
qed

end
