(* ===== verification/Rb_Insert.thy ===== *)
theory Rb_Insert
  imports Rb_Round
begin

text \<open>
  Insertion into the run-queue tree: the descent links the new node at the end of its path, and
  \<open>fix_insert\<close> computes the repair \<open>fixup\<close> on the child links and colours. The parent links are
  another matter: the assignment to the node's parent link before the rotation at the
  grandparent leaves one of them wrong, exactly when the repair rotates.
\<close>

subsection \<open>The loop of the repair\<close>

text \<open>A black uncle: the loop ends with the rotation, and one parent link is wrong.\<close>

lemma insert_black_uncle:
  assumes l: "linked t (f # f' # \<pi>) z (Node a (z, Red) b)" and f: "pcol [f] = Red"
    and u: "ccol (sibling f') \<noteq> Red"
    and q: "parents (nodes t) (uplink (f # f' # \<pi>)) (Node a (z, Red) b)" "pctx (nodes t) (f # f' # \<pi>)"
  obtains t' i where "fix_insert_loop t z = Some t'" "same_payload t t'"
    "linked t' \<pi> i (rotated f f' (Node a (z, Red) b))"
    "\<not> parents (nodes t') (uplink \<pi>) (rotated f f' (Node a (z, Red) b))"
proof -
  have zp: "parent (nodes t ! z) = uplink [f]" using q(1) by (cases f) auto
  consider p s g cg u where "f = FL p Red s" "f' = FL g cg u" | p s g cg u where "f = FR p Red s" "f' = FR g cg u"
    | p s g cg u where "f = FR p Red s" "f' = FL g cg u" | p s g cg u where "f = FL p Red s" "f' = FR g cg u"
    using f by (cases f; cases f') auto
  then show ?thesis
  proof cases
    case (1 p s g cg u')
    then have eq: "fix_insert_loop t z = fix_insert_rotate_left_case t z p g"
      using loop_left_parent [OF l [unfolded 1(2)] f q(2) [unfolded 1(2)] zp] u by simp
    show ?thesis
      by (rule insert_rotate_LL [OF l [unfolded 1] q(2) [unfolded 1]], rule that)
        (auto simp: eq 1)
  next
    case (2 p s g cg u')
    then have eq: "fix_insert_loop t z = fix_insert_rotate_right_case t z p g"
      using loop_right_parent [OF l [unfolded 2(2)] f q(2) [unfolded 2(2)] zp] u by simp
    show ?thesis
      by (rule insert_rotate_RR [OF l [unfolded 2] q(2) [unfolded 2]], rule that)
        (auto simp: eq 2)
  next
    case (3 p s g cg u')
    then have eq: "fix_insert_loop t z = fix_insert_rotate_left_case t z p g"
      using loop_left_parent [OF l [unfolded 3(2)] f q(2) [unfolded 3(2)] zp] u by simp
    show ?thesis
      by (rule insert_rotate_LR [OF l [unfolded 3] q(2) [unfolded 3]], rule that)
        (auto simp: eq 3)
  next
    case (4 p s g cg u')
    then have eq: "fix_insert_loop t z = fix_insert_rotate_right_case t z p g"
      using loop_right_parent [OF l [unfolded 4(2)] f q(2) [unfolded 4(2)] zp] u by simp
    show ?thesis
      by (rule insert_rotate_RL [OF l [unfolded 4] q(2) [unfolded 4]], rule that)
        (auto simp: eq 4)
  qed
qed

lemma fix_insert_loop_links:
  assumes "linked t \<pi> z (Node a (z, Red) b)"
    and "parents (nodes t) (uplink \<pi>) (Node a (z, Red) b)" and "pctx (nodes t) \<pi>"
  shows "\<exists>t'. fix_insert_loop t z = Some t' \<and> same_payload t t' \<and>
    linked t' [] (rb_root t') (fixup \<pi> (Node a (z, Red) b)) \<and>
    (parents (nodes t') RB_INVALID (fixup \<pi> (Node a (z, Red) b)) \<longleftrightarrow> \<not> rotates \<pi>)"
  using assms
proof (induction \<pi> "Node a (z, Red) b" arbitrary: t a z b rule: fixup.induct)
  case (3 f f' \<pi>)
  show ?case
  proof (cases "pcol [f] = Black")
    case True
    have "fix_insert_loop t z = Some t"
      using "3.prems" True by (intro loop_black_parent) auto
    with True "3.prems" linked_plug [OF "3.prems"(1)] parents_plug [of "nodes t" "f # f' # \<pi>"]
    show ?thesis by (intro exI [of _ t]) (simp add: same_payload_def payload_kept_def)
  next
    case False
    then have f: "pcol [f] = Red" by (cases "pcol [f]") auto
    show ?thesis
    proof (cases "ccol (sibling f') = Red")
      case True
      from True obtain A B g where r: "recolored f f' (Node a (z, Red) b) = Node A (g, Red) B" "g = uplink [f']"
        by (cases f') auto
      from "3.prems"(1) f True "3.prems"(2,3) obtain t1 where t1:
        "fix_insert_loop t z = fix_insert_loop t1 (uplink [f'])" "same_payload t t1"
        "linked t1 \<pi> (uplink [f']) (Node A (g, Red) B)"
        "parents (nodes t1) (uplink \<pi>) (Node A (g, Red) B)" "pctx (nodes t1) \<pi>"
        unfolding r(1) [symmetric] by (rule insert_red_uncle)
      from "3.hyps" [OF _ True r(1)] False t1(3-5) r(2) obtain t2 where t2:
        "fix_insert_loop t1 g = Some t2" "same_payload t1 t2"
        "linked t2 [] (rb_root t2) (fixup \<pi> (Node A (g, Red) B))"
        "parents (nodes t2) RB_INVALID (fixup \<pi> (Node A (g, Red) B)) \<longleftrightarrow> \<not> rotates \<pi>" by blast
      from t1(1) t2 same_payload_trans [OF t1(2) t2(2)] True f r show ?thesis
        by (intro exI [of _ t2]) simp
    next
      case no: False
      from "3.prems"(1) f no "3.prems"(2,3) obtain t1 i where t1:
        "fix_insert_loop t z = Some t1" "same_payload t t1"
        "linked t1 \<pi> i (rotated f f' (Node a (z, Red) b))"
        "\<not> parents (nodes t1) (uplink \<pi>) (rotated f f' (Node a (z, Red) b))"
        by (rule insert_black_uncle)
      with no f linked_plug [OF t1(3)] show ?thesis by (intro exI [of _ t1]) (simp add: parents_plug)
    qed
  qed
next
  case 1
  then show ?case by (subst fix_insert_loop.simps) (auto simp: linked_def same_payload_def payload_kept_def)
next
  case (2 f)
  have "fix_insert_loop t z = Some t"
    using 2 by (intro loop_root_parent) (auto split: frame.splits)
  then show ?case using 2 linked_plug [OF 2(1)] parents_plug [of "nodes t" "[f]"]
    by (intro exI [of _ t]) (simp add: same_payload_def payload_kept_def)
qed

subsection \<open>The descent\<close>

lemma linked_valid:
  assumes "linked t \<pi> i T" and "T \<noteq> Leaf"
  shows "is_valid i"
proof -
  from assms(2) obtain l a c r where "T = Node l (a, c) r" by (cases T) auto
  with assms(1) is_valid_node [OF assms(1), of a] show ?thesis by (auto simp: linked_def)
qed

lemma insert_descend_links:
  assumes "linked t \<pi> cur T" and "T \<noteq> Leaf" and "z < length (nodes t)"
    and "z \<notin> set (ids T) \<union> set (cids \<pi>)"
  shows "\<exists>t'. insert_descend t k z cur = Some (t', uplink (ins_path (\<lambda>a. key (nodes t ! a)) k T \<pi>)) \<and>
     same_payload t t' \<and> nodes t' ! z = nodes t ! z \<and>
     (\<forall>i. parent (nodes t' ! i) = parent (nodes t ! i)) \<and>
     ctx (nodes t') (rb_root t') z (ins_path (\<lambda>a. key (nodes t ! a)) k T \<pi>)"
  using assms
proof (induction T arbitrary: cur \<pi>)
  case Leaf
  then show ?case by simp
next
  case (Node l v r)
  obtain a c where v: "v = (a, c)" by (cases v)
  have l: "linked t \<pi> cur (Node l (a, c) r)" using Node.prems(1) v by simp
  have L: "linked t (FL a c r # \<pi>) (left (nodes t ! a)) l"
    and R: "linked t (FR a c l # \<pi>) (right (nodes t ! a)) r"
    using l by (auto simp: linked_def)
  have a: "cur = a" "a < length (nodes t)" "in_use (nodes t ! a)" using l by (auto simp: linked_def)
  show ?case
  proof (cases "k < key (nodes t ! a)")
    case True
    show ?thesis
    proof (cases "l = Leaf")
      case False
      have "is_valid (left (nodes t ! a))"
        using L False by (rule linked_valid)
      moreover have "z \<notin> set (ids l) \<union> set (cids (FL a c r # \<pi>))"
        using Node.prems(4) v by simp
      ultimately show ?thesis
        using Node.IH(1) [OF L False Node.prems(3)] True a v
        by (subst insert_descend.simps) simp
    next
      case leaf: True
      then have "left (nodes t ! a) = RB_INVALID" using L by (simp add: linked_def)
      then show ?thesis
        using True a v leaf l Node.prems(3,4)
        by (subst insert_descend.simps)
          (auto simp: is_valid_def same_payload_def payload_kept_def nth_list_update linked_def)
    qed
  next
    case ge: False
    show ?thesis
    proof (cases "r = Leaf")
      case False
      have "is_valid (right (nodes t ! a))"
        using R False by (rule linked_valid)
      moreover have "z \<notin> set (ids r) \<union> set (cids (FR a c l # \<pi>))"
        using Node.prems(4) v by simp
      ultimately show ?thesis
        using Node.IH(2) [OF R False Node.prems(3)] ge a v
        by (subst insert_descend.simps) simp
    next
      case leaf: True
      then have "right (nodes t ! a) = RB_INVALID" using R by (simp add: linked_def)
      then show ?thesis
        using ge a v leaf l Node.prems(3,4)
        by (subst insert_descend.simps)
          (auto simp: is_valid_def same_payload_def payload_kept_def nth_list_update linked_def)
    qed
  qed
qed

subsection \<open>The whole insertion\<close>

fun free_list :: "rb_node list \<Rightarrow> rb_node_id \<Rightarrow> rb_node_id list \<Rightarrow> bool" where
  "free_list ns h [] \<longleftrightarrow> h = RB_INVALID"
| "free_list ns h (x # xs) \<longleftrightarrow> h = x \<and> x < length ns \<and> \<not> in_use (ns ! x) \<and>
     free_list ns (left (ns ! x)) xs"

lemma free_list_cong:
  "length ns' = length ns \<Longrightarrow> (\<And>x. x \<in> set xs \<Longrightarrow> ns' ! x = ns ! x) \<Longrightarrow>
   free_list ns' h xs = free_list ns h xs"
  by (induction ns h xs rule: free_list.induct) auto

lemma free_list_free: "free_list ns h xs \<Longrightarrow> x \<in> set xs \<Longrightarrow> x < length ns \<and> \<not> in_use (ns ! x)"
  by (induction ns h xs rule: free_list.induct) auto

text \<open>
  The array holds the tree \<open>T\<close> and the free list \<open>fs\<close>, and every node is in one of them.
\<close>

definition rb_ok :: "rb_tree \<Rightarrow> ctree \<Rightarrow> rb_node_id list \<Rightarrow> bool" where
  "rb_ok t T fs \<longleftrightarrow> linked t [] (rb_root t) T \<and> free_list (nodes t) (free_head t) fs \<and>
     distinct fs \<and> set (ids T) \<union> set fs = {..<MAX_RB_NODES}"

abbreviation keys :: "rb_tree \<Rightarrow> ctree \<Rightarrow> u64 list" where
  "keys t T \<equiv> map (\<lambda>a. key (nodes t ! a)) (ids T)"

definition new_node :: "u64 \<Rightarrow> Tid \<Rightarrow> rb_node" where
  "new_node k td = \<lparr>key = k, tid = td, parent = RB_INVALID, left = RB_INVALID, right = RB_INVALID,
     color = Red, in_use = True\<rparr>"

definition allocated :: "rb_tree \<Rightarrow> rb_node_id \<Rightarrow> u64 \<Rightarrow> Tid \<Rightarrow> rb_tree" where
  "allocated t z k td =
     t\<lparr>free_head := left (nodes t ! z), nodes := (nodes t)[z := new_node k td]\<rparr>"

lemma rb_insert_alloc:
  assumes "rb_ok t T (z # fs)"
  shows "rb_insert t k td = do { t \<leftarrow> insert_node (allocated t z k td) z; Some (Some z, t) }"
    "linked (allocated t z k td) [] (rb_root (allocated t z k td)) T"
    "free_list (nodes (allocated t z k td)) (free_head (allocated t z k td)) fs"
    "z \<notin> set (ids T)" "z < length (nodes (allocated t z k td))"
    "nodes (allocated t z k td) ! z = new_node k td"
    "\<forall>a \<in> set (ids T). nodes (allocated t z k td) ! a = nodes t ! a"
proof -
  let ?t = "allocated t z k td"
  have z: "z < length (nodes t)" "\<not> in_use (nodes t ! z)" "free_head t = z"
    "length (nodes t) = MAX_RB_NODES" "z \<notin> set fs"
    "free_list (nodes t) (left (nodes t ! z)) fs" "linked t [] (rb_root t) T"
    using assms by (auto simp: rb_ok_def linked_def)
  then show nz: "z \<notin> set (ids T)" by (auto simp: linked_def)
  show "rb_insert t k td = do { t \<leftarrow> insert_node ?t z; Some (Some z, t) }"
    using z(1,3,4) neq_INVALID [OF z(4,1)]
    by (simp add: rb_insert_def alloc_node_def is_valid_def Let_def allocated_def new_node_def
        rb_node_empty_def)
  show "linked ?t [] (rb_root ?t) T"
    using z nz by (auto simp: linked_def allocated_def nth_list_update)
  have "free_list ((nodes t)[z := new_node k td]) h fs = free_list (nodes t) h fs" for h
    by (rule free_list_cong) (use z(1,5) in \<open>auto simp: nth_list_update\<close>)
  with z(6) show "free_list (nodes ?t) (free_head ?t) fs" by (simp add: allocated_def)
  show "z < length (nodes ?t)" "nodes ?t ! z = new_node k td"
    "\<forall>a \<in> set (ids T). nodes ?t ! a = nodes t ! a"
    using z(1) nz by (auto simp: allocated_def nth_list_update)
qed

lemma paint_root:
  assumes "linked t [] (rb_root t) T" and "T \<noteq> Leaf"
  obtains t' where "set_color t (rb_root t) Black = Some t'" "same_payload t t'"
    "linked t' [] (rb_root t') (paint Black T)" "\<forall>i. parent (nodes t' ! i) = parent (nodes t ! i)"
proof -
  from assms(2) obtain l a c r where T: "T = Node l (a, c) r" by (cases T) auto
  show ?thesis
    by (rule that [of "t\<lparr>nodes := (nodes t)[a := (nodes t ! a)\<lparr>color := Black\<rparr>]\<rparr>"])
      (use assms(1) T in \<open>auto simp: set_color_def same_payload_def payload_kept_def linked_def nth_list_update\<close>)
qed

lemma fixup_not_Leaf: "fixup \<pi> (Node a v b) \<noteq> Leaf"
proof -
  obtain z c where "v = (z, c)" by (cases v)
  then have "ids (fixup \<pi> (Node a v b)) \<noteq> []" by (simp add: ids_fixup ids_plug)
  then show ?thesis by auto
qed

lemma parents_paint: "parents ns p (paint c T) = parents ns p T"
  by (cases T rule: ids.cases) auto

lemma insert_node_start:
  assumes l: "linked t [] (rb_root t) T" and ne: "T \<noteq> Leaf"
    and z: "z \<notin> set (ids T)" "z < length (nodes t)" "nodes t ! z = new_node k td"
  defines "\<pi> \<equiv> ins_path (\<lambda>a. key (nodes t ! a)) k T []"
  obtains t' where "insert_node t z = fix_insert t' z" "same_payload t t'"
    "linked t' \<pi> z (Node Leaf (z, Red) Leaf)"
    "\<forall>j. parent (nodes t' ! j) = (if j = z then uplink \<pi> else parent (nodes t ! j))"
proof -
  have zc: "z \<notin> set (ids T) \<union> set (cids [])" using z by simp
  from insert_descend_links [OF l ne z(2) zc, of k, folded \<pi>_def] obtain t1 where
    t1: "insert_descend t k z (rb_root t) = Some (t1, uplink \<pi>)" "same_payload t t1"
      "nodes t1 ! z = nodes t ! z" "\<forall>i. parent (nodes t1 ! i) = parent (nodes t ! i)"
      "ctx (nodes t1) (rb_root t1) z \<pi>" by blast
  have pl: "plug \<pi> Leaf = T" by (simp add: \<pi>_def plug_ins_path)
  have ci: "set (cids \<pi>) = set (ids T)" "distinct (cids \<pi>)"
    using set_ids_plug [of \<pi> Leaf] distinct_plug [of \<pi> Leaf] linkedD(2) [OF l] by (simp_all add: pl)
  have "linked t1 \<pi> z (Node Leaf (z, Red) Leaf)"
    using t1(2,3,5) ci z linkedD(1,5) [OF l]
    by (auto simp: linked_def same_payload_def payload_kept_def new_node_def)
  then obtain t2 where t2: "upd t1 z (\<lambda>n. n\<lparr>parent := uplink \<pi>\<rparr>) = Some t2" "same_payload t1 t2"
    "linked t2 \<pi> z (Node Leaf (z, Red) Leaf)"
    "\<forall>j. parent (nodes t2 ! j) = (if j = z then uplink \<pi> else parent (nodes t1 ! j))"
    by (rule upd_parent [where n = z]) auto
  have "insert_node t z = fix_insert t2 z"
    using t1(1) t2(1) z(2,3) linked_valid [OF l ne] by (simp add: insert_node_def new_node_def)
  moreover have "same_payload t t2" using t1(2) t2(2) by (rule same_payload_trans)
  ultimately show ?thesis using that t2(3,4) t1(4) by simp
qed

lemma insert_node_links:
  assumes l: "linked t [] (rb_root t) T" and p: "parents (nodes t) RB_INVALID T"
    and z: "z \<notin> set (ids T)" "z < length (nodes t)" "nodes t ! z = new_node k td"
  defines "\<pi> \<equiv> ins_path (\<lambda>a. key (nodes t ! a)) k T []"
  defines "T' \<equiv> paint Black (fixup \<pi> (Node Leaf (z, Red) Leaf))"
  shows "\<exists>t'. insert_node t z = Some t' \<and> same_payload t t' \<and> linked t' [] (rb_root t') T' \<and>
    (parents (nodes t') RB_INVALID T' \<longleftrightarrow> \<not> rotates \<pi>)"
proof (cases "T = Leaf")
  case True
  then show ?thesis
    using l z by (auto simp: \<pi>_def T'_def insert_node_def linked_def is_valid_def set_color_def
        same_payload_def payload_kept_def nth_list_update new_node_def)
next
  case False
  from l False z obtain t2 where t2: "insert_node t z = fix_insert t2 z" "same_payload t t2"
    "linked t2 \<pi> z (Node Leaf (z, Red) Leaf)"
    "\<forall>j. parent (nodes t2 ! j) = (if j = z then uplink \<pi> else parent (nodes t ! j))"
    unfolding \<pi>_def by (rule insert_node_start)
  have pl: "plug \<pi> Leaf = T" by (simp add: \<pi>_def plug_ins_path)
  have "pctx (nodes t) \<pi>" using p parents_plug [of "nodes t" \<pi> Leaf] by (simp add: pl)
  moreover have "pctx (nodes t2) \<pi> = pctx (nodes t) \<pi>"
    by (rule pctx_cong) (use t2(4) z(1) set_ids_plug [of \<pi> Leaf] in \<open>auto simp: pl\<close>)
  ultimately have q: "pctx (nodes t2) \<pi>" by simp
  have "parents (nodes t2) (uplink \<pi>) (Node Leaf (z, Red) Leaf)" using t2(4) by simp
  from fix_insert_loop_links [OF t2(3) this q] obtain t3 where t3:
    "fix_insert_loop t2 z = Some t3" "same_payload t2 t3"
    "linked t3 [] (rb_root t3) (fixup \<pi> (Node Leaf (z, Red) Leaf))"
    "parents (nodes t3) RB_INVALID (fixup \<pi> (Node Leaf (z, Red) Leaf)) \<longleftrightarrow> \<not> rotates \<pi>" by blast
  from t3(3) fixup_not_Leaf obtain t4 where t4: "set_color t3 (rb_root t3) Black = Some t4"
    "same_payload t3 t4" "linked t4 [] (rb_root t4) T'"
    "\<forall>i. parent (nodes t4 ! i) = parent (nodes t3 ! i)"
    unfolding T'_def by (rule paint_root)
  have "parents (nodes t4) RB_INVALID T' = parents (nodes t3) RB_INVALID T'"
    by (rule parents_cong) (simp add: t4(4))
  moreover have "insert_node t z = Some t4"
    using t2(1) t3(1) t4(1) by (simp add: fix_insert_def)
  moreover have "same_payload t t4"
    using t2(2) t3(2) t4(2) by (blast intro: same_payload_trans)
  ultimately show ?thesis using t3(4) t4(3) by (auto simp: T'_def parents_paint)
qed

lemma ins_path_cong:
  "(\<And>a. a \<in> set (ids T) \<Longrightarrow> K a = K' a) \<Longrightarrow> ins_path K k T \<pi> = ins_path K' k T \<pi>"
  by (induction K k T \<pi> rule: ins_path.induct) auto

lemma rb_insert_links:
  fixes k :: u64 and td :: Tid
  assumes ok: "rb_ok t T (z # fs)" and p: "parents (nodes t) RB_INVALID T"
  defines "\<pi> \<equiv> ins_path (\<lambda>a. key (nodes t ! a)) k T []"
  defines "T' \<equiv> paint Black (fixup \<pi> (Node Leaf (z, Red) Leaf))"
  obtains t' where "rb_insert t k td = Some (Some z, t')" "rb_ok t' T' fs"
    "parents (nodes t') RB_INVALID T' \<longleftrightarrow> \<not> rotates \<pi>"
    "key (nodes t' ! z) = k" "tid (nodes t' ! z) = td"
    "\<forall>a \<in> set (ids T). key (nodes t' ! a) = key (nodes t ! a) \<and> tid (nodes t' ! a) = tid (nodes t ! a)"
proof -
  let ?t = "allocated t z k td"
  note a = rb_insert_alloc [OF ok]
  have path: "ins_path (\<lambda>a. key (nodes ?t ! a)) k T [] = \<pi>"
    unfolding \<pi>_def by (rule ins_path_cong) (simp add: a(7))
  have p2: "parents (nodes ?t) RB_INVALID T"
    using p parents_cong [of T "nodes ?t" "nodes t"] a(7) by simp
  from insert_node_links [OF a(2) p2 a(4,5,6), unfolded path, folded T'_def] obtain t' where
    t': "insert_node ?t z = Some t'" "same_payload ?t t'" "linked t' [] (rb_root t') T'"
      "parents (nodes t') RB_INVALID T' \<longleftrightarrow> \<not> rotates \<pi>" by blast
  have i: "set (ids T') = insert z (set (ids T))"
    using set_ids_plug [of \<pi> Leaf]
    by (simp add: T'_def ids_fixup set_ids_plug \<pi>_def plug_ins_path)
  have fh: "free_head t' = free_head ?t"
    using t'(2) by (simp add: same_payload_def payload_kept_def)
  have f: "free_list (nodes t') (free_head t') fs = free_list (nodes ?t) (free_head ?t) fs"
    unfolding fh using t'(2) free_list_free [OF a(3)]
    by (intro free_list_cong) (auto simp: same_payload_def payload_kept_def)
  have "rb_ok t' T' fs"
    using ok a(3) t'(3) i f by (auto simp: rb_ok_def)
  moreover have "rb_insert t k td = Some (Some z, t')" using a(1) t'(1) by simp
  ultimately show ?thesis
    using that t'(2,4) a(6,7) by (simp add: same_payload_def payload_kept_def new_node_def)
qed

end
