(* ===== verification/Rb_Remove.thy ===== *)
theory Rb_Remove
  imports Rb_Insert
begin

text \<open>
  The other operations of the run-queue tree: the empty tree of \<open>init\<close>, the minimum, and the
  removal of a node with at most one child, which is what taking the minimum out needs.
\<close>

subsection \<open>The empty tree\<close>

lemma rb_init_nodes:
  "length (nodes (rb_init rb_new)) = MAX_RB_NODES"
  "i < MAX_RB_NODES \<Longrightarrow> nodes (rb_init rb_new) ! i =
     rb_node_empty\<lparr>left := (if i + 1 < MAX_RB_NODES then i + 1 else RB_INVALID)\<rparr>"
  by (simp_all add: rb_init_def rb_new_def rb_node_empty_def)

lemma rb_init_free:
  assumes "i \<le> MAX_RB_NODES"
  shows "free_list (nodes (rb_init rb_new)) (if i < MAX_RB_NODES then i else RB_INVALID)
    [i..<MAX_RB_NODES]"
  using assms
proof (induction i rule: inc_induct)
  case base
  then show ?case by simp
next
  case (step i)
  then have "[i..<MAX_RB_NODES] = i # [Suc i..<MAX_RB_NODES]" by (intro upt_conv_Cons)
  with step show ?case
    by (cases "Suc i < MAX_RB_NODES") (simp_all add: rb_init_nodes rb_node_empty_def)
qed

lemma rb_init_ok: "rb_ok (rb_init rb_new) Leaf [0..<MAX_RB_NODES]"
proof -
  have "0 < MAX_RB_NODES" by (simp add: MAX_RB_NODES_def)
  then have "free_list (nodes (rb_init rb_new)) 0 [0..<MAX_RB_NODES]"
    using rb_init_free [of 0] by simp
  moreover have "free_head (rb_init rb_new) = 0" "rb_root (rb_init rb_new) = RB_INVALID"
    by (simp_all add: rb_init_def)
  moreover have "set [0..<MAX_RB_NODES] = {..<MAX_RB_NODES}" by auto
  ultimately show ?thesis
    by (simp add: rb_ok_def linked_def rb_init_nodes(1))
qed

subsection \<open>Minimum\<close>

lemma rb_leftmost_links:
  assumes "length (nodes t) = MAX_RB_NODES" and "shape (nodes t) i T" and "T \<noteq> Leaf"
  shows "rb_leftmost t i = Some (hd (ids T))"
  using assms(2,3)
proof (induction T arbitrary: i)
  case Leaf
  then show ?case by simp
next
  case (Node l v r)
  obtain a c where v: "v = (a, c)" by (cases v)
  have a: "i = a" "a < length (nodes t)" "shape (nodes t) (left (nodes t ! a)) l"
    using Node.prems(1) v by auto
  show ?case
  proof (cases "l = Leaf")
    case True
    then show ?thesis
      using a v by (subst rb_leftmost.simps) (simp add: is_valid_def)
  next
    case False
    then obtain b cb l' r' where l: "l = Node l' (b, cb) r'" by (cases l) auto
    then have "is_valid (left (nodes t ! a))"
      using a(3) assms(1) by (auto simp: is_valid_def RB_INVALID_def MAX_RB_NODES_def)
    moreover have "ids l \<noteq> []" using l by simp
    ultimately show ?thesis
      using Node.IH(1) [OF a(3) False] a(1,2) v by (subst rb_leftmost.simps) simp
  qed
qed

lemma rb_min_links:
  assumes "linked t [] (rb_root t) T"
  shows "rb_min t = Some (if T = Leaf then None
     else Some (hd (ids T), tid (nodes t ! hd (ids T)), key (nodes t ! hd (ids T))))"
proof (cases "T = Leaf")
  case True
  then show ?thesis using assms by (simp add: rb_min_def linked_def is_valid_def)
next
  case False
  then have "ids T \<noteq> []" by (cases T rule: ids.cases) auto
  then have "hd (ids T) < length (nodes t)"
    using ids_less [OF linkedD(4) [OF assms]] by simp
  then show ?thesis
    using False linked_valid [OF assms False] rb_leftmost_links [OF linkedD(1,4) [OF assms] False]
    by (simp add: rb_min_def)
qed

subsection \<open>Removal of a node with at most one child\<close>

text \<open>The root of an abstract tree, as a link.\<close>

fun root_id :: "ctree \<Rightarrow> rb_node_id" where
  "root_id Leaf = RB_INVALID"
| "root_id (Node l (a, c) r) = a"

lemma splice_out_links:
  assumes l: "linked t \<pi> z (Node l (z, c) r)" and "l = Leaf \<or> r = Leaf"
    and "parents (nodes t) (uplink \<pi>) (Node l (z, c) r)" "pctx (nodes t) \<pi>"
    and X: "X = (if l = Leaf then r else l)"
  shows "\<exists>t'. splice_out t z (root_id X) = Some t' \<and> payload_kept t t' \<and>
    ctx (nodes t') (rb_root t') (root_id X) \<pi> \<and> shape (nodes t') (root_id X) X \<and>
    parents (nodes t') (uplink \<pi>) X \<and> pctx (nodes t') \<pi>"
  using assms unfolding linked_def
  by (cases l rule: ids.cases; cases r rule: ids.cases; cases \<pi> rule: uplink.cases)
    (simp_all add: splice_out_def is_valid_def Let_def payload_kept_def RB_INVALID_def MAX_RB_NODES_def
      nth_list_update, (elim conjE, erule shape_neq, assumption, simp)+)

lemma splice_out_frame:
  assumes l: "linked t \<pi> z (Node l (z, c) r)" and lr: "l = Leaf \<or> r = Leaf"
    and q: "parents (nodes t) (uplink \<pi>) (Node l (z, c) r)"
    and X: "X = (if l = Leaf then r else l)" and i: "i \<noteq> root_id X" "i \<noteq> uplink \<pi>"
  shows "map_option (\<lambda>t'. nodes t' ! i) (splice_out t z (root_id X)) = Some (nodes t ! i)"
proof -
  have len: "length (nodes t) = 1024" using linkedD(1) [OF l] by (simp add: MAX_RB_NODES_def)
  have z: "z < 1024" "parent (nodes t ! z) = uplink \<pi>"
    using linked_lt [OF l, of z] q by simp_all
  have sub: "set (ids X) \<subseteq> set (ids l) \<union> set (ids r)" using X by auto
  have x: "root_id X \<noteq> z" "root_id X = 65535 \<or> root_id X < 1024"
    using sub linkedD(2) [OF l] linked_lt [OF l] z(1)
    by (cases X rule: ids.cases; force simp: RB_INVALID_def)+
  have u: "uplink \<pi> \<noteq> z" "uplink \<pi> = 65535 \<or> uplink \<pi> < 1024"
    using uplink_in [of \<pi>] linkedD(2) [OF l] cids_less [OF linkedD(3) [OF l]] len z(1)
    by (cases "\<pi> = []"; force simp: RB_INVALID_def)+
  show ?thesis
    using x(2) u(2) i x(1) u(1) z len unfolding splice_out_def
    by (elim disjE) (simp_all add: is_valid_def Let_def RB_INVALID_def)
qed

lemma splice_out_linked:
  assumes l: "linked t \<pi> z (Node l (z, c) r)" and lr: "l = Leaf \<or> r = Leaf"
    and q: "parents (nodes t) (uplink \<pi>) (Node l (z, c) r)" "pctx (nodes t) \<pi>"
    and X: "X = (if l = Leaf then r else l)"
  obtains t' where "splice_out t z (root_id X) = Some t'" "same_payload t t'"
    "linked t' \<pi> (root_id X) X" "parents (nodes t') (uplink \<pi>) X" "pctx (nodes t') \<pi>"
proof -
  from splice_out_links [OF l lr q X] obtain t' where
    t': "splice_out t z (root_id X) = Some t'" "payload_kept t t'"
      "ctx (nodes t') (rb_root t') (root_id X) \<pi>" "shape (nodes t') (root_id X) X"
      "parents (nodes t') (uplink \<pi>) X" "pctx (nodes t') \<pi>" by blast
  have sub: "set (ids X) \<subseteq> set (ids (Node l (z, c) r))" "distinct (ids X)"
    using X linkedD(2) [OF l] by auto
  then have l': "linked t' \<pi> (root_id X) X"
    using t'(2-4) linkedD(1,2,5) [OF l] by (auto simp: linked_def payload_kept_def)
  have "nodes t' ! i = nodes t ! i" if i: "\<not> in_use (nodes t ! i)" "i < 1024" for i
  proof -
    have "i \<noteq> uplink \<pi>"
      using linkedD(5) [OF l] i uplink_in [of \<pi>] by (cases "\<pi> = []") (auto simp: RB_INVALID_def)
    moreover have "i \<noteq> root_id X"
      using linkedD(5) [OF l] i sub by (cases X rule: ids.cases) (auto simp: RB_INVALID_def)
    ultimately show ?thesis
      using splice_out_frame [OF l lr q(1) X, of i] t'(1) by simp
  qed
  then have "same_payload t t'"
    using t'(2) linkedD(1) [OF l] by (simp add: same_payload_def MAX_RB_NODES_def)
  from t'(1) this l' t'(5,6) show ?thesis by (rule that)
qed

lemma fix_delete_red:
  assumes l: "linked t \<pi> (root_id X) X" and "X \<noteq> Leaf \<Longrightarrow> ccol X = Red"
  obtains t' where "fix_delete t (root_id X) = Some t'" "same_payload t t'"
    "linked t' \<pi> (root_id X) (paint Black X)" "\<forall>i. parent (nodes t' ! i) = parent (nodes t ! i)"
proof (cases X rule: ids.cases)
  case 1
  then show ?thesis
    using l by (intro that [of t]) (simp_all add: fix_delete_def fix_delete_loop.simps [of t RB_INVALID]
      is_valid_def black_if_valid_def same_payload_def payload_kept_def)
next
  case (2 a x c b)
  then have c: "c = Red" using assms(2) by simp
  have x: "x < length (nodes t)" "color (nodes t ! x) = Red" "is_valid x"
    using l 2 c is_valid_node [OF l, of x] by (auto simp: linked_def)
  then have "fix_delete_loop t x = Some (t, x)" by (simp add: fix_delete_loop.simps [of t x])
  then show ?thesis
    using l x 2 c
    by (intro that [of "t\<lparr>nodes := (nodes t)[x := (nodes t ! x)\<lparr>color := Black\<rparr>]\<rparr>"])
      (auto simp: fix_delete_def black_if_valid_def set_color_def same_payload_def payload_kept_def
        linked_def nth_list_update)
qed

text \<open>The subtree that takes the place of the removed node, and the balance it leaves.\<close>

definition spliced :: "Color \<Rightarrow> ctree \<Rightarrow> ctree \<Rightarrow> ctree" where
  "spliced c l r = (let x = (if l = Leaf then r else l) in if c = Black then paint Black x else x)"

lemma not_Black: "c \<noteq> Black \<longleftrightarrow> c = Red"
  by (cases c) auto

lemma bh_0_red: "rbt t \<Longrightarrow> bh t = 0 \<Longrightarrow> t = Leaf \<or> ccol t = Red"
  by (cases t rule: ids.cases) (auto simp: not_Black split: if_splits)

lemma one_child_rbt:
  assumes "rbt (Node l (z, c) r)" and "l = Leaf \<or> r = Leaf"
  shows "(if l = Leaf then r else l) = Leaf \<or> c = Black \<and> ccol (if l = Leaf then r else l) = Red"
  using assms bh_0_red [of l] bh_0_red [of r] by (cases c) auto

lemma cok_unique: "cok \<pi> m \<Longrightarrow> cok \<pi> n \<Longrightarrow> \<pi> \<noteq> [] \<Longrightarrow> m = n"
  by (cases \<pi> rule: uplink.cases) auto

lemma rbtree_spliced:
  assumes "rbtree (plug \<pi> (Node l (z, c) r))" and lr: "l = Leaf \<or> r = Leaf"
  shows "rbtree (plug \<pi> (spliced c l r)) \<longleftrightarrow> c = Red \<or> l \<noteq> Leaf \<or> r \<noteq> Leaf \<or> \<pi> = []"
proof -
  have r: "rbt (Node l (z, c) r)" "cok \<pi> (bh (Node l (z, c) r))" "pcol \<pi> = Red \<longrightarrow> c = Black"
    using assms(1) by (auto simp: rbtree_plug)
  have "rbt (spliced c l r)" using r(1) by (auto simp: spliced_def Let_def rbt_paint_Black)
  then show ?thesis
    using one_child_rbt [OF r(1) lr] r lr cok_unique [OF r(2), of 0]
    by (cases c; cases "\<pi> = []") (auto simp: spliced_def rbtree_plug bh_paint_Black, auto simp: rbtree_def)
qed

lemma delete_node_one_child:
  assumes l: "linked t \<pi> z (Node l (z, c) r)" and lr: "l = Leaf \<or> r = Leaf"
    and q: "parents (nodes t) (uplink \<pi>) (Node l (z, c) r)" "pctx (nodes t) \<pi>"
    and b: "rbt (Node l (z, c) r)"
  obtains t' where "delete_node t z = Some t'" "same_payload t t'"
    "linked t' [] (rb_root t') (plug \<pi> (spliced c l r))"
    "parents (nodes t') RB_INVALID (plug \<pi> (spliced c l r))"
proof -
  define X where "X = (if l = Leaf then r else l)"
  from l lr q X_def obtain t1 where t1: "splice_out t z (root_id X) = Some t1" "same_payload t t1"
    "linked t1 \<pi> (root_id X) X" "parents (nodes t1) (uplink \<pi>) X" "pctx (nodes t1) \<pi>"
    by (rule splice_out_linked)
  have X: "X \<noteq> Leaf \<Longrightarrow> ccol X = Red" using one_child_rbt [OF b lr] X_def by auto
  have z: "z < length (nodes t)" "left (nodes t ! z) = root_id l" "right (nodes t ! z) = root_id r"
    "color (nodes t ! z) = c"
    using linkedD(4) [OF l] by (cases l rule: ids.cases; cases r rule: ids.cases; simp)+
  have v: "is_valid (root_id Y) \<longleftrightarrow> Y \<noteq> Leaf" if "Y = l \<or> Y = r" for Y
    using that linked_lt [OF l, of "root_id Y"] by (cases Y rule: ids.cases) (auto simp: is_valid_def RB_INVALID_def)
  have d: "delete_node t z = (if c = Black then fix_delete t1 (root_id X) else Some t1)"
    using z v [of l] v [of r] lr t1(1)
    by (cases "l = Leaf"; cases "r = Leaf") (simp_all add: delete_node_def X_def Let_def)
  show ?thesis
  proof (cases c)
    case Black
    from t1(3) X obtain t2 where t2: "fix_delete t1 (root_id X) = Some t2" "same_payload t1 t2"
      "linked t2 \<pi> (root_id X) (paint Black X)" "\<forall>i. parent (nodes t2 ! i) = parent (nodes t1 ! i)"
      by (rule fix_delete_red)
    have p: "parents (nodes t2) p Y = parents (nodes t1) p Y" "pctx (nodes t2) \<pi>' = pctx (nodes t1) \<pi>'"
      for p Y \<pi>' by (rule parents_cong pctx_cong, simp add: t2(4))+
    show ?thesis
      by (rule that [of t2]) (use Black d t2 t1 p linked_plug [OF t2(3)] same_payload_trans [OF t1(2) t2(2)]
        in \<open>simp_all add: spliced_def X_def [symmetric] parents_plug parents_paint\<close>)
  next
    case Red
    show ?thesis
      by (rule that [of t1]) (use Red d t1 linked_plug [OF t1(3)]
        in \<open>simp_all add: spliced_def X_def [symmetric] parents_plug\<close>)
  qed
qed

lemma ids_spliced: "l = Leaf \<or> r = Leaf \<Longrightarrow> ids (spliced c l r) = ids l @ ids r"
  by (auto simp: spliced_def Let_def)

lemma rb_remove_links:
  assumes ok: "rb_ok t (plug \<pi> (Node l (z, c) r)) fs" and lr: "l = Leaf \<or> r = Leaf"
    and p: "parents (nodes t) RB_INVALID (plug \<pi> (Node l (z, c) r))" and b: "rbt (Node l (z, c) r)"
  obtains t' where "rb_remove t z = Some (Some (tid (nodes t ! z)), t')"
    "rb_ok t' (plug \<pi> (spliced c l r)) (z # fs)"
    "parents (nodes t') RB_INVALID (plug \<pi> (spliced c l r))"
    "\<forall>i. key (nodes t' ! i) = key (nodes t ! i) \<and> tid (nodes t' ! i) = tid (nodes t ! i)"
proof -
  let ?T = "plug \<pi> (spliced c l r)"
  have l: "linked t \<pi> z (Node l (z, c) r)"
    using ok by (auto simp: rb_ok_def linked_def shape_plug distinct_plug set_ids_plug)
  have q: "parents (nodes t) (uplink \<pi>) (Node l (z, c) r)" "pctx (nodes t) \<pi>"
    using p by (simp_all add: parents_plug)
  obtain t1 where t1: "delete_node t z = Some t1" "same_payload t t1" "linked t1 [] (rb_root t1) ?T"
    "parents (nodes t1) RB_INVALID ?T"
    by (rule delete_node_one_child [OF l lr q b])
  have z: "z < length (nodes t)" "in_use (nodes t ! z)" "is_valid z"
    using l is_valid_node [OF l, of z] by (auto simp: linked_def)
  have T: "set (ids (plug \<pi> (Node l (z, c) r))) = insert z (set (ids ?T))" "z \<notin> set (ids ?T)"
    using linkedD(2) [OF l] by (auto simp: set_ids_plug ids_spliced [OF lr])
  define n where "n = (nodes t1 ! z)\<lparr>in_use := False, left := free_head t1\<rparr>"
  define t2 where "t2 = t1\<lparr>nodes := (nodes t1)[z := n], free_head := z\<rparr>"
  have t1z: "length (nodes t1) = length (nodes t)" "free_head t1 = free_head t"
    using t1(2) by (simp_all add: same_payload_def payload_kept_def)
  have fs: "free_list (nodes t2) (free_head t) fs = free_list (nodes t) (free_head t) fs"
    using free_list_free [of "nodes t" "free_head t" fs] ok z(2) t1(2)
    by (intro free_list_cong) (auto simp: t2_def t1z rb_ok_def same_payload_def nth_list_update z(1))
  have l2: "linked t2 [] (rb_root t2) ?T"
    using t1(3) T(2) z(1) t1z by (auto simp: linked_def t2_def nth_list_update)
  have "parents (nodes t2) RB_INVALID ?T" using t1(4) T(2) by (simp add: t2_def)
  moreover have "rb_ok t2 ?T (z # fs)"
    using ok l2 fs T z t1z free_list_free [of "nodes t" "free_head t" fs]
    by (auto simp: rb_ok_def t2_def n_def)
  moreover have "rb_remove t z = Some (Some (tid (nodes t ! z)), t2)"
    using z t1(1) t1z by (simp add: rb_remove_def free_node_def t2_def n_def)
  moreover have "\<forall>i. key (nodes t2 ! i) = key (nodes t ! i) \<and> tid (nodes t2 ! i) = tid (nodes t ! i)"
    using t1(2) z(1) t1z by (auto simp: t2_def n_def nth_list_update same_payload_def payload_kept_def)
  ultimately show ?thesis using that by blast
qed

end
