(* ===== verification/Rb_Props.thy ===== *)
theory Rb_Props
  imports Rb_Remove
begin

text \<open>
  What the run-queue tree does, over the abstraction of \<open>Rb_Links\<close>: insertion, minimum and removal
  on a tree whose parent links are right, and two ways in which the code loses the tree: after an
  insertion that rotates, and on the removal of a node with two children.
\<close>

subsection \<open>The first insertions\<close>

lemma upt_Cons: "i < n \<Longrightarrow> [i..<n] = i # [Suc i..<n]"
  by (rule upt_conv_Cons)

lemma rb_insert_first:
  obtains t where "rb_insert (rb_init rb_new) k td = Some (Some 0, t)"
    "rb_ok t (Node Leaf (0, Black) Leaf) [1..<MAX_RB_NODES]"
    "parents (nodes t) RB_INVALID (Node Leaf (0, Black) Leaf)"
    "key (nodes t ! 0) = k" "tid (nodes t ! 0) = td"
proof -
  have "rb_ok (rb_init rb_new) Leaf (0 # [1..<MAX_RB_NODES])"
    using rb_init_ok upt_Cons [of 0 MAX_RB_NODES] by (simp add: MAX_RB_NODES_def)
  from rb_insert_links [OF this, of k td] that show ?thesis by auto
qed

subsection \<open>Properties\<close>

text \<open>
  C1: inserting key \<open>k\<close> into a red-black tree sorted by key, with a free node, returns the first
  free node and leaves a red-black tree sorted by key that holds the old nodes and the new one,
  the new one after every key \<open>\<le> k\<close> and before every key \<open>> k\<close>; no other key or thread changes; all
  parent links are right if and only if the repair did not rotate.
\<close>

theorem rb_insert_correct:
  assumes "rb_ok t T (z # fs)" and "parents (nodes t) RB_INVALID T"
    and "rbtree T" and "sorted (keys t T)"
  shows "\<exists>t' T'. rb_insert t k td = Some (Some z, t') \<and> rb_ok t' T' fs \<and> rbtree T' \<and>
     sorted (keys t' T') \<and>
     ids T' = [a\<leftarrow>ids T. key (nodes t ! a) \<le> k] @ z # [a\<leftarrow>ids T. k < key (nodes t ! a)] \<and>
     key (nodes t' ! z) = k \<and> tid (nodes t' ! z) = td \<and>
     (\<forall>a \<in> set (ids T). key (nodes t' ! a) = key (nodes t ! a) \<and> tid (nodes t' ! a) = tid (nodes t ! a)) \<and>
     (parents (nodes t') RB_INVALID T' \<longleftrightarrow>
        \<not> rotates (ins_path (\<lambda>a. key (nodes t ! a)) k T []))"
proof -
  let ?K = "\<lambda>a. key (nodes t ! a)"
  let ?p = "ins_path ?K k T []"
  let ?T = "paint Black (fixup ?p (Node Leaf (z, Red) Leaf))"
  from assms(1,2) obtain t' where t': "rb_insert t k td = Some (Some z, t')" "rb_ok t' ?T fs"
    "parents (nodes t') RB_INVALID ?T \<longleftrightarrow> \<not> rotates ?p"
    "key (nodes t' ! z) = k" "tid (nodes t' ! z) = td"
    "\<forall>a \<in> set (ids T). key (nodes t' ! a) = key (nodes t ! a) \<and> tid (nodes t' ! a) = tid (nodes t ! a)"
    by (rule rb_insert_links)
  have ids: "ids ?T = [a\<leftarrow>ids T. ?K a \<le> k] @ z # [a\<leftarrow>ids T. k < ?K a]"
    using ins_path_inorder [OF assms(4), of k "[]"] by (simp add: ids_fixup ids_plug)
  have "cok ?p (bh (Node Leaf (z, Red) Leaf))"
    using rbtree_plug [of ?p Leaf] assms(3) by (simp add: plug_ins_path)
  then have "rbtree ?T" by (intro rbtree_fixup) simp_all
  moreover have ks: "keys t' ?T = map ?K [a\<leftarrow>ids T. ?K a \<le> k] @ k # map ?K [a\<leftarrow>ids T. k < ?K a]"
    unfolding ids using t'(4,6) by simp
  moreover have "sorted (map ?K [a\<leftarrow>ids T. ?K a \<le> k] @ k # map ?K [a\<leftarrow>ids T. k < ?K a])"
    using sorted_filter [OF assms(4)] by (auto simp: sorted_append dest: le_less_trans less_imp_le)
  ultimately show ?thesis using t' ids unfolding ks [symmetric] by blast
qed

theorem rb_insert_correct_witness:
  "rb_ok (rb_init rb_new) Leaf (0 # [1..<MAX_RB_NODES]) \<and>
   (\<exists>t' T'. rb_insert (rb_init rb_new) 5 7 = Some (Some 0, t') \<and> rb_ok t' T' [1..<MAX_RB_NODES] \<and>
      ids T' = [0] \<and> tid (nodes t' ! 0) = 7)"
proof -
  have ok: "rb_ok (rb_init rb_new) Leaf (0 # [1..<MAX_RB_NODES])"
    using rb_init_ok upt_Cons [of 0 MAX_RB_NODES] by (simp add: MAX_RB_NODES_def)
  from rb_insert_correct [OF ok, of 5 7] have
    "\<exists>t' T'. rb_insert (rb_init rb_new) 5 7 = Some (Some 0, t') \<and> rb_ok t' T' [1..<MAX_RB_NODES] \<and>
      ids T' = [0] \<and> tid (nodes t' ! 0) = 7"
    by (auto simp: rbtree_def)
  with ok show ?thesis by blast
qed

text \<open>
  C21: the minimum of a non-empty tree sorted by key is its first node in key order, the oldest
  among equal keys, with its thread and key; the minimum of an empty tree is \<open>None\<close>.
\<close>

theorem rb_min_correct:
  assumes "rb_ok t T fs" and "sorted (keys t T)"
  shows "rb_min t = Some (case ids T of [] \<Rightarrow> None | i # _ \<Rightarrow> Some (i, tid (nodes t ! i), key (nodes t ! i))) \<and>
    (\<forall>i td k. rb_min t = Some (Some (i, td, k)) \<longrightarrow> (\<forall>a \<in> set (ids T). k \<le> key (nodes t ! a)))"
proof -
  have "linked t [] (rb_root t) T" using assms(1) by (simp add: rb_ok_def)
  note m = rb_min_links [OF this]
  have "T = Leaf \<longleftrightarrow> ids T = []" by (cases T rule: ids.cases) auto
  with m assms(2) show ?thesis by (cases "ids T") auto
qed

theorem rb_min_correct_witness:
  "rb_min (rb_init rb_new) = Some None \<and>
   (\<exists>t t' T fs. rb_insert (rb_init rb_new) 5 7 = Some (Some 0, t) \<and> rb_insert t 3 8 = Some (Some 1, t') \<and>
      rb_ok t' T fs \<and> ids T = [1, 0] \<and> rb_min t' = Some (Some (1, 8, 3)))"
proof -
  obtain t where t: "rb_insert (rb_init rb_new) 5 7 = Some (Some 0, t)"
    "rb_ok t (Node Leaf (0, Black) Leaf) [1..<MAX_RB_NODES]"
    "parents (nodes t) RB_INVALID (Node Leaf (0, Black) Leaf)" "key (nodes t ! 0) = 5"
    by (rule rb_insert_first [of 5 7])
  have "rb_ok t (Node Leaf (0, Black) Leaf) (1 # [2..<MAX_RB_NODES])"
    using t(2) upt_Cons [of 1 MAX_RB_NODES] by (simp add: MAX_RB_NODES_def numeral_2_eq_2)
  from rb_insert_links [OF this t(3), of 3 8] obtain t' where
    t': "rb_insert t 3 8 = Some (Some 1, t')"
      "rb_ok t' (Node (Node Leaf (1, Red) Leaf) (0, Black) Leaf) [2..<MAX_RB_NODES]"
      "key (nodes t' ! 1) = 3" "tid (nodes t' ! 1) = 8" "key (nodes t' ! 0) = 5"
    using t(4) by auto
  have "rb_min t' = Some (Some (1, 8, 3))" using rb_min_correct [OF t'(2)] t'(3-5) by simp
  moreover have "ids (Node (Node Leaf (1, Red) Leaf) (0, Black) Leaf) = [1, 0]" by simp
  moreover have "rb_min (rb_init rb_new) = Some None" using rb_min_correct [OF rb_init_ok] by simp
  ultimately show ?thesis using t(1) t'(1,2) by blast
qed

text \<open>
  C7: removing a node with at most one child from a red-black tree with right parent links returns
  its thread, takes exactly that node out of the order, puts it back on the free list and keeps
  every other key, thread and parent link; the result is a red-black tree if and only if the node
  was not a black leaf below the root.
\<close>

theorem rb_remove_correct:
  assumes "rb_ok t (plug \<pi> (Node l (z, c) r)) fs" and "l = Leaf \<or> r = Leaf"
    and "parents (nodes t) RB_INVALID (plug \<pi> (Node l (z, c) r))"
    and "rbtree (plug \<pi> (Node l (z, c) r))"
  shows "\<exists>t' T'. rb_remove t z = Some (Some (tid (nodes t ! z)), t') \<and> rb_ok t' T' (z # fs) \<and>
     ids T' = [a\<leftarrow>ids (plug \<pi> (Node l (z, c) r)). a \<noteq> z] \<and> parents (nodes t') RB_INVALID T' \<and>
     (\<forall>i. key (nodes t' ! i) = key (nodes t ! i) \<and> tid (nodes t' ! i) = tid (nodes t ! i)) \<and>
     (rbtree T' \<longleftrightarrow> c = Red \<or> l \<noteq> Leaf \<or> r \<noteq> Leaf \<or> \<pi> = [])"
proof -
  have b: "rbt (Node l (z, c) r)" using assms(4) by (simp add: rbtree_plug)
  have d: "distinct (ids (plug \<pi> (Node l (z, c) r)))" using assms(1) by (simp add: rb_ok_def linked_def)
  then have "z \<notin> set (cpre \<pi> @ ids l @ ids r @ cpost \<pi>)" by (auto simp: ids_plug)
  then have "ids (plug \<pi> (spliced c l r)) = [a\<leftarrow>ids (plug \<pi> (Node l (z, c) r)). a \<noteq> z]"
    by (simp add: ids_plug ids_spliced [OF assms(2)]) (metis (mono_tags, lifting) filter_True)
  with rb_remove_links [OF assms(1-3) b] rbtree_spliced [OF assms(4,2)] show ?thesis
    by metis
qed

theorem rb_remove_correct_witness:
  "\<exists>t t' T'. rb_insert (rb_init rb_new) 5 7 = Some (Some 0, t) \<and>
     rb_remove t 0 = Some (Some 7, t') \<and> rb_ok t' T' (0 # [1..<MAX_RB_NODES]) \<and> ids T' = []"
proof -
  obtain t where t: "rb_insert (rb_init rb_new) 5 7 = Some (Some 0, t)"
    "rb_ok t (plug [] (Node Leaf (0, Black) Leaf)) [1..<MAX_RB_NODES]"
    "parents (nodes t) RB_INVALID (plug [] (Node Leaf (0, Black) Leaf))" "tid (nodes t ! 0) = 7"
    using rb_insert_first [of 5 7] by auto
  from rb_remove_correct [OF t(2) _ t(3)] t(4) have
    "\<exists>t' T'. rb_remove t 0 = Some (Some 7, t') \<and> rb_ok t' T' (0 # [1..<MAX_RB_NODES]) \<and> ids T' = []"
    by (auto simp: rbtree_def)
  with t(1) show ?thesis by blast
qed

end
