(* ===== verification/Rb_Faults.thy ===== *)
theory Rb_Faults
  imports Rb_Props
begin

text \<open>
  Two faults of the run-queue tree, proved on the model: the wrong parent link left by the third
  of three ascending insertions makes the fourth one panic, and removing a node with two children
  leaves only its successor in the place of its subtree.
\<close>

subsection \<open>Ascending insertions\<close>

lemma rb_insert_second:
  assumes "k0 \<le> k1"
  obtains t t' where "rb_insert (rb_init rb_new) k0 a = Some (Some 0, t)"
    "rb_insert t k1 b = Some (Some 1, t')"
    "rb_ok t' (Node Leaf (0, Black) (Node Leaf (1, Red) Leaf)) [2..<MAX_RB_NODES]"
    "parents (nodes t') RB_INVALID (Node Leaf (0, Black) (Node Leaf (1, Red) Leaf))"
    "key (nodes t' ! 0) = k0" "key (nodes t' ! 1) = k1"
proof -
  obtain t where t: "rb_insert (rb_init rb_new) k0 a = Some (Some 0, t)"
    "rb_ok t (Node Leaf (0, Black) Leaf) [1..<MAX_RB_NODES]"
    "parents (nodes t) RB_INVALID (Node Leaf (0, Black) Leaf)" "key (nodes t ! 0) = k0"
    by (rule rb_insert_first)
  have ok: "rb_ok t (Node Leaf (0, Black) Leaf) (1 # [2..<MAX_RB_NODES])"
    using t(2) upt_Cons [of 1 MAX_RB_NODES] by (simp add: MAX_RB_NODES_def numeral_2_eq_2)
  have nk: "\<not> k1 < k0" using assms by simp
  from rb_insert_links [OF ok t(3), of k1 b] that [OF t(1)] t(4) nk show ?thesis
    by auto
qed

text \<open>The third insertion rotates, and leaves the parent link of the new node at the old root.\<close>

lemma rb_insert_third:
  assumes ok: "rb_ok t (Node Leaf (0, Black) (Node Leaf (1, Red) Leaf)) (2 # fs)"
    and p: "parents (nodes t) RB_INVALID (Node Leaf (0, Black) (Node Leaf (1, Red) Leaf))"
    and k: "key (nodes t ! 0) \<le> k" "key (nodes t ! 1) \<le> k"
  obtains t' where "rb_insert t k td = Some (Some 2, t')"
    "rb_ok t' (Node (Node Leaf (0, Red) Leaf) (1, Black) (Node Leaf (2, Red) Leaf)) fs"
    "parent (nodes t' ! 2) = 0" "key (nodes t' ! 1) = key (nodes t ! 1)" "key (nodes t' ! 2) = k"
proof -
  let ?T = "Node Leaf (0, Black) (Node Leaf (1, Red) Leaf)"
  let ?p = "[FR 1 Red Leaf, FR 0 Black Leaf]"
  let ?t = "allocated t 2 k td"
  note a = rb_insert_alloc [OF ok]
  have ne: "?T \<noteq> Leaf" by simp
  have keys: "key (nodes ?t ! 0) = key (nodes t ! 0)" "key (nodes ?t ! 1) = key (nodes t ! 1)"
    using a(7) by simp_all
  have path: "ins_path (\<lambda>a. key (nodes ?t ! a)) k ?T [] = ?p"
    "ins_path (\<lambda>a. key (nodes t ! a)) k ?T [] = ?p"
    using k by (auto simp: keys simp del: One_nat_def)
  obtain t' where t': "rb_insert t k td = Some (Some 2, t')"
    "rb_ok t' (Node (Node Leaf (0, Red) Leaf) (1, Black) (Node Leaf (2, Red) Leaf)) fs"
    "key (nodes t' ! 2) = k" "key (nodes t' ! 1) = key (nodes t ! 1)"
    using rb_insert_links [OF ok p, of k td, unfolded path] by auto
  obtain t2 where t2: "insert_node ?t 2 = fix_insert t2 2" "linked t2 ?p 2 (Node Leaf (2, Red) Leaf)"
    "\<forall>j. parent (nodes t2 ! j) = (if j = 2 then uplink ?p else parent (nodes ?t ! j))"
    by (rule insert_node_start [OF a(2) [of k td] ne a(4) a(5,6) [of k td], unfolded path])
  have "parent (nodes t2 ! 1) = 0" "parent (nodes t2 ! 0) = RB_INVALID"
    using t2(3) p a(7) by simp_all
  then have q: "pctx (nodes t2) ?p" "parent (nodes t2 ! 2) = 1" using t2(3) by simp_all
  have lp: "fix_insert_loop t2 2 = fix_insert_rotate_right_case t2 2 1 0"
    using loop_right_parent [OF t2(2) _ q(1)] q(2) by simp
  from t2(2) q(1) obtain t3 where t3: "fix_insert_rotate_right_case t2 2 1 0 = Some t3"
    "linked t3 [] 1 (Node (Node Leaf (0, Red) Leaf) (1, Black) (Node Leaf (2, Red) Leaf))"
    "parent (nodes t3 ! 2) = 0"
    by (rule insert_rotate_RR)
  then have "linked t3 [] (rb_root t3) (Node (Node Leaf (0, Red) Leaf) (1, Black) (Node Leaf (2, Red) Leaf))"
    by (simp add: linked_def)
  then obtain t4 where "set_color t3 (rb_root t3) Black = Some t4"
    "\<forall>i. parent (nodes t4 ! i) = parent (nodes t3 ! i)" by (rule paint_root) auto
  with t'(1) a(1) [of k td] t2(1) lp t3(1,3) have "parent (nodes t' ! 2) = 0"
    by (simp add: fix_insert_def)
  with t' show ?thesis using that by blast
qed

lemma rotate_left_no_child:
  assumes "x < length (nodes t)" and "length (nodes t) = MAX_RB_NODES" and "right (nodes t ! x) = RB_INVALID"
  shows "rotate_left t x = None"
  using assms by (simp add: rotate_left_def node_def idx_def RB_INVALID_def MAX_RB_NODES_def)

lemma rb_insert_fourth:
  assumes ok: "rb_ok t (Node (Node Leaf (0, Red) Leaf) (1, Black) (Node Leaf (2, Red) Leaf)) (3 # fs)"
    and p: "parent (nodes t ! 2) = 0"
    and k: "key (nodes t ! 1) \<le> k" "key (nodes t ! 2) \<le> k"
  shows "rb_insert t k td = None"
proof -
  let ?T = "Node (Node Leaf (0, Red) Leaf) (1, Black) (Node Leaf (2, Red) Leaf)"
  let ?p = "[FR 2 Red Leaf, FR 1 Black (Node Leaf (0, Red) Leaf)]"
  let ?t = "allocated t 3 k td"
  note a = rb_insert_alloc [OF ok]
  have ne: "?T \<noteq> Leaf" by simp
  have path: "ins_path (\<lambda>a. key (nodes ?t ! a)) k ?T [] = ?p"
    using k a(7) by (auto simp del: One_nat_def)
  obtain t2 where t2: "insert_node ?t 3 = fix_insert t2 3" "linked t2 ?p 3 (Node Leaf (3, Red) Leaf)"
    "\<forall>j. parent (nodes t2 ! j) = (if j = 3 then uplink ?p else parent (nodes ?t ! j))"
    by (rule insert_node_start [OF a(2) [of k td] ne a(4) a(5,6) [of k td], unfolded path])
  have par: "parent (nodes t2 ! 3) = 2" "parent (nodes t2 ! 2) = 0"
    using t2(3) p a(7) by simp_all
  have f: "length (nodes t2) = MAX_RB_NODES" "right (nodes t2 ! 2) = 3" "left (nodes t2 ! 2) = RB_INVALID"
    "color (nodes t2 ! 2) = Red" "left (nodes t2 ! 0) = RB_INVALID" "right (nodes t2 ! 0) = RB_INVALID"
    using t2(2) by (simp_all add: linked_def)
  let ?u = "t2\<lparr>nodes := (nodes t2)[3 := (nodes t2 ! 3)\<lparr>parent := 0\<rparr>]\<rparr>"
  have "rotate_left ?u 0 = None"
    by (rule rotate_left_no_child) (use f in \<open>simp_all add: MAX_RB_NODES_def\<close>)
  then have "fix_insert_rotate_right_case t2 3 2 0 = None"
    using f by (simp add: fix_insert_rotate_right_case_def MAX_RB_NODES_def RB_INVALID_def)
  then have "fix_insert_loop t2 3 = None"
    using f par linked_not_root [OF t2(2)]
    by (subst fix_insert_loop.simps) (simp add: MAX_RB_NODES_def RB_INVALID_def is_valid_def)
  then show ?thesis using a(1) t2(1) by (simp add: fix_insert_def)
qed

text \<open>
  C10: four insertions with ascending keys into an empty run-queue tree never return from the
  fourth: the first three succeed, and the fourth indexes the node array with the null link.
\<close>

theorem rb_insert_ascending_panics:
  assumes "k0 \<le> k1" "k1 \<le> k2" "k2 \<le> k3"
  shows "\<exists>t1 t2 t3. rb_insert (rb_init rb_new) k0 a = Some (Some 0, t1) \<and>
    rb_insert t1 k1 b = Some (Some 1, t2) \<and> rb_insert t2 k2 c = Some (Some 2, t3) \<and>
    rb_insert t3 k3 d = None"
proof -
  from assms(1) obtain t1 t2 where t2: "rb_insert (rb_init rb_new) k0 a = Some (Some 0, t1)"
    "rb_insert t1 k1 b = Some (Some 1, t2)"
    "rb_ok t2 (Node Leaf (0, Black) (Node Leaf (1, Red) Leaf)) [2..<MAX_RB_NODES]"
    "parents (nodes t2) RB_INVALID (Node Leaf (0, Black) (Node Leaf (1, Red) Leaf))"
    "key (nodes t2 ! 0) = k0" "key (nodes t2 ! 1) = k1"
    by (rule rb_insert_second)
  have ok: "rb_ok t2 (Node Leaf (0, Black) (Node Leaf (1, Red) Leaf)) (2 # [3..<MAX_RB_NODES])"
    using t2(3) upt_Cons [of 2 MAX_RB_NODES] by (simp add: MAX_RB_NODES_def)
  have le: "key (nodes t2 ! 0) \<le> k2" "key (nodes t2 ! 1) \<le> k2" using assms t2(5,6) by auto
  from ok t2(4) le obtain t3 where t3: "rb_insert t2 k2 c = Some (Some 2, t3)"
    "rb_ok t3 (Node (Node Leaf (0, Red) Leaf) (1, Black) (Node Leaf (2, Red) Leaf)) [3..<MAX_RB_NODES]"
    "parent (nodes t3 ! 2) = 0" "key (nodes t3 ! 1) = key (nodes t2 ! 1)" "key (nodes t3 ! 2) = k2"
    by (rule rb_insert_third)
  have "rb_ok t3 (Node (Node Leaf (0, Red) Leaf) (1, Black) (Node Leaf (2, Red) Leaf))
      (3 # [4..<MAX_RB_NODES])"
    using t3(2) upt_Cons [of 3 MAX_RB_NODES] by (simp add: MAX_RB_NODES_def)
  then have "rb_insert t3 k3 d = None"
    using t3(3-5) t2(6) assms by (intro rb_insert_fourth) auto
  with t2(1,2) t3(1) show ?thesis by blast
qed

theorem rb_insert_ascending_panics_witness:
  "\<exists>t1 t2 t3. rb_insert (rb_init rb_new) 1 1 = Some (Some 0, t1) \<and>
    rb_insert t1 1 2 = Some (Some 1, t2) \<and> rb_insert t2 2 3 = Some (Some 2, t3) \<and>
    rb_insert t3 3 4 = None"
  by (rule rb_insert_ascending_panics) simp_all

subsection \<open>Removal of a node with two children\<close>

lemma plug_append: "plug (\<rho> @ \<sigma>) T = plug \<sigma> (plug \<rho> T)"
  by (induction \<rho> T rule: plug.induct) auto

text \<open>The lowest node on the left edge of a tree, with its subtree.\<close>

fun leftmost_sub :: "ctree \<Rightarrow> ctree" where
  "leftmost_sub Leaf = Leaf"
| "leftmost_sub (Node Leaf a r) = Node Leaf a r"
| "leftmost_sub (Node (Node l b m) a r) = leftmost_sub (Node l b m)"

lemma leftmost_sub_Node:
  "T \<noteq> Leaf \<Longrightarrow> \<exists>y cy x \<rho>. leftmost_sub T = Node Leaf (y, cy) x \<and> T = plug \<rho> (Node Leaf (y, cy) x) \<and>
     y = hd (ids T)"
proof (induction T rule: leftmost_sub.induct)
  case (2 a r)
  have "Node Leaf a r = plug [] (Node Leaf (fst a, snd a) r)" "fst a = hd (ids (Node Leaf a r))"
    by (cases a; simp)+
  then show ?case by (metis leftmost_sub.simps(2) prod.collapse)
next
  case (3 l b m a r)
  then obtain y cy x \<rho> where *: "leftmost_sub (Node l b m) = Node Leaf (y, cy) x"
    "Node l b m = plug \<rho> (Node Leaf (y, cy) x)" "y = hd (ids (Node l b m))" by blast
  obtain a1 a2 where a: "a = (a1, a2)" by (cases a)
  have ne: "ids (Node l b m) \<noteq> []" by (cases b) simp
  have "Node (Node l b m) a r = plug (\<rho> @ [FL a1 a2 r]) (Node Leaf (y, cy) x)"
    by (simp only: plug_append plug.simps a flip: *(2))
  moreover have "y = hd (ids (Node (Node l b m) a r))"
    unfolding a *(3) ids.simps(2) [of "Node l b m"] by (rule hd_append2 [OF ne, symmetric])
  moreover have "leftmost_sub (Node (Node l b m) a r) = Node Leaf (y, cy) x"
    by (simp only: leftmost_sub.simps *(1))
  ultimately show ?case by blast
qed simp

lemma rbt_leftmost_sub: "rbt T \<Longrightarrow> rbt (leftmost_sub T)"
  by (induction T rule: leftmost_sub.induct) auto

lemma transplant_links:
  assumes l: "linked t \<pi> z (Node l (z, c) r)" and q: "parent (nodes t ! z) = uplink \<pi>"
    and y: "y < 1024" "y \<noteq> z" "y \<notin> set (cids \<pi>)" "in_use (nodes t ! y)"
    and f: "left (nodes t ! y) = RB_INVALID" "right (nodes t ! y) = root_id x" "color (nodes t ! y) = cy"
    and x: "shape (nodes t) (root_id x) x" "distinct (ids x)" "y \<notin> set (ids x)" "z \<notin> set (ids x)"
      "set (ids x) \<inter> set (cids \<pi>) = {}"
  shows "\<exists>t'. transplant t z y = Some t' \<and> payload_kept t t' \<and>
    ctx (nodes t') (rb_root t') y \<pi> \<and> shape (nodes t') y (Node Leaf (y, cy) x)"
  using assms unfolding linked_def
  by (cases x rule: ids.cases; cases \<pi> rule: uplink.cases)
    (simp_all add: transplant_def is_valid_def Let_def payload_kept_def RB_INVALID_def MAX_RB_NODES_def
      nth_list_update, (elim conjE, erule shape_neq, assumption, simp)+)

lemma linked_unplug:
  "linked t [] (rb_root t) (plug \<pi> (Node l (z, c) r)) \<Longrightarrow> linked t \<pi> z (Node l (z, c) r)"
  by (auto simp: linked_def shape_plug distinct_plug set_ids_plug)

lemma cids_append: "set (cids (\<rho> @ \<sigma>)) = set (cids \<rho>) \<union> set (cids \<sigma>)"
  by (induction \<rho> rule: cids.induct) auto

text \<open>The successor \<open>y\<close> unlinked from its place and put in that of \<open>z\<close>, with its own children.\<close>

lemma successor_moved:
  assumes l: "linked t \<pi> z (Node L (z, c) R)" and R: "R = plug \<rho> (Node Leaf (y, cy) x)"
    and q: "parents (nodes t) (uplink \<pi>) (Node L (z, c) R)" "pctx (nodes t) \<pi>"
  obtains t1 t2 where "splice_out t y (root_id x) = Some t1" "transplant t1 z y = Some t2"
    "payload_kept t t2" "linked t2 \<pi> y (Node Leaf (y, cy) x)"
proof -
  define \<sigma> where "\<sigma> = \<rho> @ FR z c L # \<pi>"
  have pl: "plug \<sigma> T = plug \<pi> (Node L (z, c) (plug \<rho> T))" for T by (simp add: \<sigma>_def plug_append)
  have ly: "linked t \<sigma> y (Node Leaf (y, cy) x)"
    using linked_plug [OF l] by (intro linked_unplug) (simp add: pl flip: R)
  have qy: "parents (nodes t) (uplink \<sigma>) (Node Leaf (y, cy) x)" "pctx (nodes t) \<sigma>"
    using q parents_plug [of "nodes t" \<sigma> "Node Leaf (y, cy) x"] by (simp_all add: pl parents_plug flip: R)
  obtain t1 where t1: "splice_out t y (root_id x) = Some t1" "same_payload t t1"
    "linked t1 \<sigma> (root_id x) x" "parents (nodes t1) (uplink \<sigma>) x" "pctx (nodes t1) \<sigma>"
    by (rule splice_out_linked [OF ly _ qy]) simp_all
  have lz: "linked t1 \<pi> z (Node L (z, c) (plug \<rho> x))"
    using linked_plug [OF t1(3)] by (intro linked_unplug) (simp add: pl)
  have pz: "parent (nodes t1 ! z) = uplink \<pi>"
    using t1(4,5) parents_plug [of "nodes t1" \<sigma> x] by (simp add: pl parents_plug)
  have y: "y < 1024" "in_use (nodes t ! y)" "y \<notin> set (ids x)" "y \<notin> set (cids \<sigma>)"
    "left (nodes t ! y) = RB_INVALID" "color (nodes t ! y) = cy" "right (nodes t ! y) = root_id x"
    using linked_lt [OF ly, of y] linkedD(2,4,5) [OF ly] by (cases x rule: ids.cases; auto)+
  have d: "set (ids x) \<inter> set (cids \<sigma>) = {}" "distinct (ids x)" using linkedD(2) [OF ly] by auto
  have sub: "insert z (set (cids \<pi>)) \<subseteq> set (cids \<sigma>)" by (auto simp: \<sigma>_def cids_append)
  have "y \<noteq> root_id x" using y(1,3) by (cases x rule: ids.cases) (auto simp: RB_INVALID_def)
  moreover have "\<sigma> \<noteq> []" by (simp add: \<sigma>_def)
  then have "y \<noteq> uplink \<sigma>" using y(4) uplink_in [of \<sigma>] by blast
  ultimately have y1: "nodes t1 ! y = nodes t ! y"
    using splice_out_frame [OF ly _ qy(1), of x y] t1(1) by simp
  have "\<exists>t2. transplant t1 z y = Some t2 \<and> payload_kept t1 t2 \<and>
    ctx (nodes t2) (rb_root t2) y \<pi> \<and> shape (nodes t2) y (Node Leaf (y, cy) x)"
    by (rule transplant_links [OF lz pz]) (use y y1 d sub linkedD(4) [OF t1(3)] in auto)
  then obtain t2 where t2: "transplant t1 z y = Some t2" "payload_kept t1 t2"
    "ctx (nodes t2) (rb_root t2) y \<pi>" "shape (nodes t2) y (Node Leaf (y, cy) x)" by blast
  have k: "payload_kept t t2" using t1(2) t2(2) by (simp add: same_payload_def payload_kept_def)
  have "linked t2 \<pi> y (Node Leaf (y, cy) x)"
    using t2(3,4) k linkedD(1,2,5) [OF ly] linkedD(2) [OF lz] sub
    by (auto simp: linked_def payload_kept_def)
  from t1(1) t2(1) k this show ?thesis by (rule that)
qed

lemma delete_node_two_children:
  assumes l: "linked t \<pi> z (Node L (z, c) R)" and L: "L \<noteq> Leaf"
    and q: "parents (nodes t) (uplink \<pi>) (Node L (z, c) R)" "pctx (nodes t) \<pi>"
    and b: "rbt R" and s: "leftmost_sub R = Node Leaf (y, cy) x"
  obtains t' where "delete_node t z = Some t'" "payload_kept t t'"
    "linked t' \<pi> y (Node Leaf (y, cy) (spliced cy Leaf x))"
proof -
  have R: "R \<noteq> Leaf" using s by auto
  from leftmost_sub_Node [OF R] s obtain \<rho> where \<rho>: "R = plug \<rho> (Node Leaf (y, cy) x)" "y = hd (ids R)"
    by auto
  obtain t1 t2 where t2: "splice_out t y (root_id x) = Some t1" "transplant t1 z y = Some t2"
    "payload_kept t t2" "linked t2 \<pi> y (Node Leaf (y, cy) x)"
    by (rule successor_moved [OF l \<rho>(1) q])
  have z: "z < length (nodes t)" "left (nodes t ! z) = root_id L" "right (nodes t ! z) = root_id R"
    using linkedD(4) [OF l] by (cases L rule: ids.cases; cases R rule: ids.cases; simp)+
  have v: "is_valid (root_id L)" "is_valid (root_id R)"
    using L R linked_lt [OF l, of "root_id L"] linked_lt [OF l, of "root_id R"]
    by (cases L rule: ids.cases; cases R rule: ids.cases; auto simp: is_valid_def RB_INVALID_def)+
  have "shape (nodes t) (root_id R) R" using linkedD(4) [OF l] z(3) by simp
  then have lm: "rb_leftmost t (root_id R) = Some y"
    using rb_leftmost_links [OF linkedD(1) [OF l] _ R] \<rho>(2) by simp
  have yR: "y \<in> set (ids R)" by (simp add: \<rho>(1) set_ids_plug)
  have yz: "y < length (nodes t)" "y \<noteq> z"
    using yR linked_lt [OF l, of y] linkedD(1,2) [OF l] by (auto simp: MAX_RB_NODES_def)
  have "linked t \<pi> z (Node L (z, c) (plug \<rho> (Node Leaf (y, cy) x)))" using l \<rho>(1) by simp
  then have y: "left (nodes t ! y) = RB_INVALID" "right (nodes t ! y) = root_id x" "color (nodes t ! y) = cy"
    by (cases x rule: ids.cases; auto simp: linked_def shape_plug)+
  have d: "delete_node t z = (if cy = Black then fix_delete t2 (root_id x) else Some t2)"
    using z v lm yz y t2(1,2) by (simp add: delete_node_def Let_def) (simp add: is_valid_def)
  have lx: "linked t2 (FR y cy Leaf # \<pi>) (root_id x) x"
    using t2(4) by (cases x rule: ids.cases) (auto simp: linked_def)
  have red: "x \<noteq> Leaf \<Longrightarrow> ccol x = Red"
    using rbt_leftmost_sub [OF b] one_child_rbt [of Leaf y cy x] s by auto
  show ?thesis
  proof (cases cy)
    case Black
    from lx red obtain t3 where t3: "fix_delete t2 (root_id x) = Some t3" "same_payload t2 t3"
      "linked t3 (FR y cy Leaf # \<pi>) (root_id x) (paint Black x)" by (rule fix_delete_red)
    have "payload_kept t t3" using t2(3) t3(2) by (simp add: same_payload_def payload_kept_def)
    with d t3(1) linked_FR [OF t3(3)] Black show ?thesis by (intro that [of t3]) (simp_all add: spliced_def)
  next
    case Red
    with d t2(3,4) show ?thesis by (intro that [of t2]) (simp_all add: spliced_def)
  qed
qed

text \<open>
  C29: removing a node with two children from a red-black tree with right parent links, wherever
  the node stands, returns its thread, but leaves in the place of its whole subtree only the
  successor with the right subtree the successor had: every other node below the removed one is no
  longer in the tree although it is still marked in use, so its thread is lost and its slot leaks.
\<close>

theorem rb_remove_two_children_loses:
  assumes ok: "rb_ok t (plug \<pi> (Node l (z, c) r)) fs"
    and p: "parents (nodes t) RB_INVALID (plug \<pi> (Node l (z, c) r))"
    and rb: "rbtree (plug \<pi> (Node l (z, c) r))" and l: "l \<noteq> Leaf"
    and s: "leftmost_sub r = Node Leaf (y, cy) x"
    and T: "T = plug \<pi> (Node Leaf (y, cy) (spliced cy Leaf x))"
  shows "\<exists>t'. rb_remove t z = Some (Some (tid (nodes t ! z)), t') \<and> linked t' [] (rb_root t') T \<and>
    (\<forall>i \<in> (set (ids l) \<union> set (ids r)) - (insert y (set (ids x))). in_use (nodes t' ! i) \<and> i \<notin> set (ids T))"
proof -
  have lz: "linked t \<pi> z (Node l (z, c) r)" using ok by (intro linked_unplug) (simp add: rb_ok_def)
  have q: "parents (nodes t) (uplink \<pi>) (Node l (z, c) r)" "pctx (nodes t) \<pi>"
    using p by (simp_all add: parents_plug)
  have b: "rbt r" using rb by (simp add: rbtree_plug)
  obtain t1 where t1: "delete_node t z = Some t1" "payload_kept t t1"
    "linked t1 \<pi> y (Node Leaf (y, cy) (spliced cy Leaf x))"
    by (rule delete_node_two_children [OF lz l q b s])
  have z: "z < length (nodes t)" "in_use (nodes t ! z)" "is_valid z"
    using lz is_valid_node [OF lz, of z] by (auto simp: linked_def)
  define t2 where "t2 = t1\<lparr>nodes := (nodes t1)[z := (nodes t1 ! z)\<lparr>in_use := False, left := free_head t1\<rparr>],
    free_head := z\<rparr>"
  have k: "length (nodes t1) = length (nodes t)" "in_use (nodes t1 ! i) = in_use (nodes t ! i)" for i
    using t1(2) by (simp_all add: payload_kept_def)
  have xs: "ids (spliced cy Leaf x) = ids x" using ids_spliced [of Leaf x cy] by simp
  have sub: "insert y (set (ids x)) \<subseteq> set (ids r)"
  proof -
    from s have "r \<noteq> Leaf" by auto
    from leftmost_sub_Node [OF this] s obtain \<rho> where "r = plug \<rho> (Node Leaf (y, cy) x)" by auto
    then show ?thesis by (auto simp: set_ids_plug)
  qed
  have dz: "distinct (ids (Node l (z, c) r) @ cids \<pi>)" by (rule linkedD(2) [OF lz])
  have T': "set (ids T) = insert y (set (ids x)) \<union> set (cids \<pi>)" by (simp add: T set_ids_plug xs)
  have zT: "z \<notin> set (ids T)" using dz sub T' by auto
  have "linked t1 [] (rb_root t1) T" using linked_plug [OF t1(3)] T by simp
  then have "linked t2 [] (rb_root t2) T" using zT z(1) k by (auto simp: linked_def t2_def nth_list_update)
  moreover have "rb_remove t z = Some (Some (tid (nodes t ! z)), t2)"
    using z t1(1) k by (simp add: rb_remove_def free_node_def t2_def)
  moreover have "in_use (nodes t2 ! i) \<and> i \<notin> set (ids T)"
    if "i \<in> (set (ids l) \<union> set (ids r)) - (insert y (set (ids x)))" for i
    using that dz T' linkedD(5) [OF lz] k z(1) by (auto simp: t2_def nth_list_update)
  ultimately show ?thesis by blast
qed

theorem rb_remove_two_children_loses_witness:
  "\<exists>t t'. rb_ok t (Node (Node Leaf (1, Red) Leaf) (0, Black) (Node Leaf (2, Red) Leaf)) [3..<MAX_RB_NODES] \<and>
     rb_remove t 0 = Some (Some (tid (nodes t ! 0)), t') \<and>
     linked t' [] (rb_root t') (Node Leaf (2, Red) Leaf) \<and> in_use (nodes t' ! 1)"
proof -
  obtain t1 where t1: "rb_ok t1 (Node Leaf (0, Black) Leaf) [1..<MAX_RB_NODES]"
    "parents (nodes t1) RB_INVALID (Node Leaf (0, Black) Leaf)" "key (nodes t1 ! 0) = 5"
    by (rule rb_insert_first [of 5 7])
  have "rb_ok t1 (Node Leaf (0, Black) Leaf) (1 # [2..<MAX_RB_NODES])"
    using t1(1) upt_Cons [of 1 MAX_RB_NODES] by (simp add: MAX_RB_NODES_def numeral_2_eq_2)
  from rb_insert_links [OF this t1(2), of 3 8] obtain t2 where
    t2: "rb_ok t2 (Node (Node Leaf (1, Red) Leaf) (0, Black) Leaf) [2..<MAX_RB_NODES]"
      "parents (nodes t2) RB_INVALID (Node (Node Leaf (1, Red) Leaf) (0, Black) Leaf)"
      "key (nodes t2 ! 0) = 5" using t1(3) by auto
  have "rb_ok t2 (Node (Node Leaf (1, Red) Leaf) (0, Black) Leaf) (2 # [3..<MAX_RB_NODES])"
    using t2(1) upt_Cons [of 2 MAX_RB_NODES] by (simp add: MAX_RB_NODES_def)
  from rb_insert_links [OF this t2(2), of 9 9] obtain t3 where
    t3: "rb_ok t3 (Node (Node Leaf (1, Red) Leaf) (0, Black) (Node Leaf (2, Red) Leaf)) [3..<MAX_RB_NODES]"
      "parents (nodes t3) RB_INVALID (Node (Node Leaf (1, Red) Leaf) (0, Black) (Node Leaf (2, Red) Leaf))"
    using t2(3) by auto
  have "rbtree (Node (Node Leaf (1, Red) Leaf) (0, Black) (Node Leaf (2, Red) Leaf))"
    by (simp add: rbtree_def)
  from rb_remove_two_children_loses [where \<pi> = "[]", unfolded plug.simps, OF t3 this _ _ refl] t3(1)
  show ?thesis by (force simp: spliced_def)
qed

end
