(* ===== verification/Sched_Props.thy ===== *)
theory Sched_Props
  imports Sched Rb_Faults
begin

text \<open>
  Correctness of the scheduler over its run-queue tree and the thread table: picking the next
  thread takes the one with the least virtual runtime; and where the locks make it stop: the entry
  points that lock the thread table twice never return.
\<close>

subsection \<open>The leftmost node\<close>

lemma leftmost_plug:
  assumes "T \<noteq> Leaf"
  obtains \<pi> c r where "T = plug \<pi> (Node Leaf (hd (ids T), c) r)"
proof -
  have "\<exists>\<pi>' c r. \<forall>\<pi>. plug \<pi> T = plug (\<pi>' @ \<pi>) (Node Leaf (hd (ids T), c) r)"
    using assms
  proof (induction T)
    case Leaf
    then show ?case by simp
  next
    case (Node l v r)
    obtain a c where v: "v = (a, c)" by (cases v)
    show ?case
    proof (cases "l = Leaf")
      case True
      then show ?thesis using v by (intro exI [of _ "[]"] exI [of _ c] exI [of _ r]) simp
    next
      case False
      then have ne: "ids l \<noteq> []" by (cases l rule: ids.cases) auto
      from Node.IH(1) [OF False] obtain \<pi>' c' r' where
        "\<And>\<pi>. plug \<pi> l = plug (\<pi>' @ \<pi>) (Node Leaf (hd (ids l), c') r')" by blast
      from this [of "FL a c r # _"] show ?thesis
        using ne v by (intro exI [of _ "\<pi>' @ [FL a c r]"] exI [of _ c'] exI [of _ r']) simp
    qed
  qed
  then obtain \<pi>' c r where "plug [] T = plug (\<pi>' @ []) (Node Leaf (hd (ids T), c) r)" by blast
  then show thesis using that by simp
qed

lemma saturating_sub_one:
  fixes w :: u32
  assumes "w \<noteq> 0"
  shows "saturating_sub w 1 = w - 1"
proof -
  have "0 < unat w" using assms by (simp add: unat_gt_0)
  then show ?thesis by (simp add: saturating_sub_def word_le_nat_alt Suc_le_eq)
qed

subsection \<open>A well-formed run queue\<close>

text \<open>
  The queue of CPU \<open>cpu\<close> holds the tree \<open>T\<close>, sorted by key, and the thread of each node is in the
  thread table and refers back to the node.
\<close>

definition rq_holds :: "'z Kernel_scheme \<Rightarrow> u32 \<Rightarrow> ctree \<Rightarrow> rb_node_id list \<Rightarrow> bool" where
  "rq_holds k cpu T fs \<longleftrightarrow> unat cpu < length (kn_runqueues k) \<and> length (kn_threads k) = MAX_THREADS \<and>
     (let t = rq_tree (kn_runqueues k ! unat cpu) in
      rb_ok t T fs \<and> parents (nodes t) RB_INVALID T \<and> rbtree T \<and> sorted (keys t T) \<and>
      (\<forall>z \<in> set (ids T). unat (tid (nodes t ! z)) < MAX_THREADS \<and>
         (\<exists>th. kn_threads k ! unat (tid (nodes t ! z)) = Some th \<and> th_rb_node th = z)))"

lemma remove_leftmost:
  assumes "rb_ok t T fs" and "parents (nodes t) RB_INVALID T" and "rbtree T" and "ids T = z # zs"
  obtains t' T' where "rb_remove t z = Some (Some (tid (nodes t ! z)), t')" "rb_ok t' T' (z # fs)"
    "parents (nodes t') RB_INVALID T'" "ids T' = zs"
    "\<forall>i. key (nodes t' ! i) = key (nodes t ! i) \<and> tid (nodes t' ! i) = tid (nodes t ! i)"
proof -
  have "T \<noteq> Leaf" using assms(4) by auto
  then obtain \<pi> c r where T: "T = plug \<pi> (Node Leaf (z, c) r)" using leftmost_plug assms(4) by (metis list.sel(1))
  have "rbt (Node Leaf (z, c) r)" using assms(3) unfolding T by (simp add: rbtree_plug)
  then obtain t' where t': "rb_remove t z = Some (Some (tid (nodes t ! z)), t')"
    "rb_ok t' (plug \<pi> (spliced c Leaf r)) (z # fs)" "parents (nodes t') RB_INVALID (plug \<pi> (spliced c Leaf r))"
    "\<forall>i. key (nodes t' ! i) = key (nodes t ! i) \<and> tid (nodes t' ! i) = tid (nodes t ! i)"
    using rb_remove_links [OF assms(1) [unfolded T] _ assms(2) [unfolded T]] by blast
  have "distinct (ids T)" using assms(1) by (simp add: rb_ok_def linked_def)
  then have "cpre \<pi> = []" using assms(4) unfolding T by (cases "cpre \<pi>") (auto simp: ids_plug)
  then have "ids (plug \<pi> (spliced c Leaf r)) = zs"
    using assms(4) unfolding T by (simp add: ids_plug ids_spliced)
  with t' that show thesis by blast
qed

text \<open>
  C2: The scheduler is fair: with a non-empty well-formed queue, \<open>pick_next_thread\<close> returns the
  thread with the least key, makes it running and takes exactly it off the queue; the other
  threads stay queued in order, the queue's minimum virtual runtime becomes that key, and every
  lock is released.
\<close>

theorem pick_next_thread_fair:
  fixes k :: "'z Kernel_scheme"
  assumes "kn_held k = {}" and "rq_holds k cpu T fs" and "ids T = z # zs"
    and "rq_nr_running (kn_runqueues k ! unat cpu) \<noteq> 0"
  defines "t \<equiv> rq_tree (kn_runqueues k ! unat cpu)"
  shows "\<exists>k' th. pick_next_thread cpu k = Some (tid (nodes t ! z), k') \<and>
    (\<forall>a \<in> set (ids T). key (nodes t ! z) \<le> key (nodes t ! a)) \<and>
    kn_threads k' ! unat (tid (nodes t ! z)) = Some th \<and> th_state th = Running \<and> \<not> th_on_rq th \<and>
    (\<exists>T'. rb_ok (rq_tree (kn_runqueues k' ! unat cpu)) T' (z # fs) \<and> ids T' = zs) \<and>
    rq_min_vruntime (kn_runqueues k' ! unat cpu) = key (nodes t ! z) \<and>
    rq_nr_running (kn_runqueues k' ! unat cpu) = rq_nr_running (kn_runqueues k ! unat cpu) - 1 \<and>
    kn_held k' = {}"
proof -
  let ?rq = "kn_runqueues k ! unat cpu" and ?td = "tid (nodes t ! z)"
  have h: "unat cpu < length (kn_runqueues k)" "length (kn_threads k) = MAX_THREADS" "rb_ok t T fs"
    "parents (nodes t) RB_INVALID T" "rbtree T" "sorted (keys t T)"
    using assms(2) by (simp_all add: rq_holds_def Let_def t_def)
  have "\<forall>z \<in> set (ids T). unat (tid (nodes t ! z)) < MAX_THREADS \<and>
      (\<exists>th. kn_threads k ! unat (tid (nodes t ! z)) = Some th \<and> th_rb_node th = z)"
    using assms(2) unfolding rq_holds_def Let_def t_def by blast
  then obtain th where td: "unat ?td < MAX_THREADS" "kn_threads k ! unat ?td = Some th" "th_rb_node th = z"
    unfolding assms(3) by force
  have lk: "linked t [] (rb_root t) T" using h(3) unfolding rb_ok_def by blast
  have "T \<noteq> Leaf" using assms(3) by auto
  with rb_min_links [OF lk] have m: "rb_min t = Some (Some (z, ?td, key (nodes t ! z)))"
    by (simp add: assms(3))
  obtain t' T' where r: "rb_remove t z = Some (Some ?td, t')" "rb_ok t' T' (z # fs)" "ids T' = zs"
    using remove_leftmost [OF h(3-5) assms(3)] by metis
  let ?th = "th\<lparr>th_on_rq := False, th_rb_node := RB_INVALID, th_state := Running\<rparr>"
  let ?k = "k\<lparr>kn_held := {}, kn_threads := (kn_threads k)[unat ?td := Some ?th],
    kn_runqueues := (kn_runqueues k)[unat cpu := ?rq\<lparr>rq_tree := t',
      rq_nr_running := saturating_sub (rq_nr_running ?rq) 1, rq_min_vruntime := key (nodes t ! z)\<rparr>]\<rparr>"
  have "rq_pick_next ?rq (k\<lparr>kn_held := {RUNQUEUES}\<rparr>) =
      Some ((?td, ?rq\<lparr>rq_tree := t', rq_nr_running := saturating_sub (rq_nr_running ?rq) 1,
        rq_min_vruntime := key (nodes t ! z)\<rparr>),
        k\<lparr>kn_held := {RUNQUEUES}, kn_threads := (kn_threads k)[unat ?td := Some ?th]\<rparr>)"
    using m r(1) td h(2) unfolding t_def [symmetric]
    by (simp add: rq_pick_next_def t_def [symmetric] with_thread_def modify_thread_def with_thread_mut_def
        release_def or_invalid_def insert_Diff_if)
  then have p: "pick_next_thread cpu k = Some (?td, ?k)"
    using assms(1,4) h(1) by (simp add: pick_next_thread_def with_runqueue_def release_def)
  have "saturating_sub (rq_nr_running ?rq) 1 = rq_nr_running ?rq - 1"
    using assms(4) by (rule saturating_sub_one)
  moreover have "\<forall>a \<in> set (ids T). key (nodes t ! z) \<le> key (nodes t ! a)"
    using h(6) assms(3) by auto
  ultimately show ?thesis
    using p r(2,3) td(1) h(1,2) by (intro exI [of _ ?k] exI [of _ ?th]) auto
qed


theorem pick_next_thread_fair_witness:
  "\<exists>k k' :: Kernel. kn_held k = {} \<and> pick_next_thread 0 k = Some (7, k')"
proof -
  obtain t where t: "rb_ok t (Node Leaf (0, Black) Leaf) [1..<MAX_RB_NODES]"
    "parents (nodes t) RB_INVALID (Node Leaf (0, Black) Leaf)" "key (nodes t ! 0) = 5" "tid (nodes t ! 0) = 7"
    using rb_insert_first [of 5 7] by metis
  define k where "k = boot_kernel\<lparr>kn_threads := (replicate MAX_THREADS None)[7 := Some (some_thread 7\<lparr>th_rb_node := 0\<rparr>)],
    kn_runqueues := [(rq_new 0)\<lparr>rq_tree := t, rq_nr_running := 1\<rparr>]\<rparr>"
  have q: "kn_runqueues k = [(rq_new 0)\<lparr>rq_tree := t, rq_nr_running := 1\<rparr>]" "kn_held k = {}"
    "kn_threads k ! 7 = Some (some_thread 7\<lparr>th_rb_node := 0\<rparr>)" "length (kn_threads k) = MAX_THREADS"
    by (simp_all add: k_def boot_kernel_def MAX_THREADS_def)
  have "rq_holds k 0 (Node Leaf (0, Black) Leaf) [1..<MAX_RB_NODES]"
    using t q by (simp add: rq_holds_def Let_def rbtree_def MAX_THREADS_def del: upt_Suc upt_rec_numeral)
  from pick_next_thread_fair [OF q(2) this] t q show ?thesis by fastforce
qed

lemma preempt_None:
  assumes "current_tid k = Some td" and "unat td < MAX_THREADS" and "length (kn_threads k) = MAX_THREADS"
    and "kn_threads k ! unat td = Some t"
    and "kn_need_resched k" "preempt_enabled k" "th_state t = Running" "\<not> is_idle t"
  shows "preempt xsave frame k = None"
  using assms
  by (cases "THREADS \<in> kn_held k") (simp_all add: preempt_def take_need_resched_def preempt_enabled_def
      with_thread_mut_def save_thread_context_def is_idle_def current_tid_def enqueue_thread_held Let_def)

lemma pi_boost_None:
  assumes "unat ow < MAX_THREADS" and "length (kn_threads k) = MAX_THREADS"
    and "kn_threads k ! unat ow = Some t" and "th_tid t = ow" and "th_on_rq t"
  shows "pi_boost ow boost k = None"
  using assms
  by (cases "THREADS \<in> kn_held k") (simp_all add: pi_boost_def with_thread_mut_def dequeue_thread_held Let_def)

text \<open>
  C19: Three entry points of the scheduler lock the thread table twice and never return:
  \<open>block_current\<close> of a thread that exists; \<open>preempt\<close> of a running thread that is not idle, when a
  reschedule is due and preemption is enabled; and \<open>pi_boost\<close> of any thread that is in the table
  under its own number and is queued, whichever thread runs. Each runs a closure with the thread
  table locked that enters the run queue, which locks the thread table.
\<close>

theorem sched_self_deadlock:
  assumes "length (kn_threads k) = MAX_THREADS"
  shows "(\<forall>td t. current_tid k = Some td \<and> unat td < MAX_THREADS \<and> kn_threads k ! unat td = Some t \<longrightarrow>
      block_current saved k = None \<and>
      (kn_need_resched k \<and> preempt_enabled k \<and> th_state t = Running \<and> \<not> is_idle t \<longrightarrow>
        preempt xsave frame k = None)) \<and>
    (\<forall>ow t. unat ow < MAX_THREADS \<and> kn_threads k ! unat ow = Some t \<and> th_tid t = ow \<and> th_on_rq t \<longrightarrow>
      pi_boost ow boost k = None)"
  using assms by (auto intro: block_current_None preempt_None pi_boost_None)

text \<open>Two threads, of which 7 runs and 9 is queued.\<close>

definition two_thread_kernel :: Kernel where
  "two_thread_kernel = one_thread_kernel\<lparr>kn_threads :=
     (kn_threads one_thread_kernel)[9 := Some ((some_thread 9)\<lparr>th_on_rq := True\<rparr>)]\<rparr>"

theorem sched_self_deadlock_witness:
  "current_tid two_thread_kernel = Some 7 \<and> block_current cpu_context_empty two_thread_kernel = None \<and>
   (\<exists>frame. preempt id frame two_thread_kernel = None) \<and> pi_boost 9 500000 two_thread_kernel = None"
proof -
  let ?k = two_thread_kernel
  have c: "current_tid ?k = Some 7"
    using one_thread_kernel_current(1) by (simp add: two_thread_kernel_def current_tid_def)
  have l: "length (kn_threads ?k) = MAX_THREADS"
    using one_thread_kernel_current(2) by (simp add: two_thread_kernel_def)
  have t: "kn_threads ?k ! 7 = Some (some_thread 7)" "kn_threads ?k ! 9 = Some ((some_thread 9)\<lparr>th_on_rq := True\<rparr>)"
    using one_thread_kernel_current by (simp_all add: two_thread_kernel_def MAX_THREADS_def)
  have "kn_need_resched ?k \<and> preempt_enabled ?k \<and> th_state (some_thread 7) = Running \<and> \<not> is_idle (some_thread 7)"
    by (simp add: two_thread_kernel_def one_thread_kernel_def boot_kernel_def preempt_enabled_def some_thread_def
        is_idle_def contains_def)
  moreover have "unat (7 :: Tid) < MAX_THREADS" "unat (9 :: Tid) < MAX_THREADS" by (simp_all add: MAX_THREADS_def)
  moreover have "kn_threads ?k ! unat (7 :: Tid) = Some (some_thread 7)"
    "kn_threads ?k ! unat (9 :: Tid) = Some ((some_thread 9)\<lparr>th_on_rq := True\<rparr>)" using t by simp_all
  moreover have "th_tid ((some_thread 9)\<lparr>th_on_rq := True\<rparr>) = 9" "th_on_rq ((some_thread 9)\<lparr>th_on_rq := True\<rparr>)"
    by (simp_all add: some_thread_def)
  ultimately show ?thesis
    using sched_self_deadlock [OF l, of cpu_context_empty id _ 500000] c by blast
qed

text \<open>
  C27: Yielding does nothing: \<open>yield_cpu\<close> disables preemption before it calls \<open>reschedule\<close>, which
  returns at once when preemption is disabled. The running thread stays on its CPU, and only the
  reschedule flag and the interrupt flag change.
\<close>

theorem yield_cpu_never_switches:
  assumes "kn_preempt_count k \<noteq> - 1"
  shows "yield_cpu saved k = Some (False, k\<lparr>kn_need_resched := True, kn_interrupts := True\<rparr>)"
proof -
  have "kn_preempt_count k + 1 \<noteq> 0" using assms by (metis add_eq_0_iff2 eq_neg_iff_add_eq_0)
  then show ?thesis
    by (simp add: yield_cpu_def reschedule_def set_need_resched_def disable_preemption_def enable_preemption_def
        preempt_disable_def preempt_enable_def preempt_enabled_def)
qed

theorem yield_cpu_never_switches_witness:
  "yield_cpu cpu_context_empty one_thread_kernel =
     Some (False, one_thread_kernel\<lparr>kn_need_resched := True, kn_interrupts := True\<rparr>)"
  by (rule yield_cpu_never_switches) (simp add: one_thread_kernel_def boot_kernel_def)

end
