(* ===== verification/Elf_Parse.thy ===== *)
theory Elf_Parse
  imports Bytes
begin

text \<open>
  Reading ELF files and applying relocations: \<^verbatim>\<open>src/kernel/src/mm/elf/parse.rs\<close> and
  \<^verbatim>\<open>src/kernel/src/mm/elf/relocate.rs\<close>. Offsets are words, because the code adds them without a check. A
  header is read through a raw pointer into the file; where the pointer leaves the file the
  behaviour is undefined, and the model gives the computation no result.
\<close>

subsection \<open>Headers\<close>

abbreviation (input) ELF_MAGIC :: bytes where "ELF_MAGIC \<equiv> [0x7f, 69, 76, 70]"
abbreviation (input) ET_EXEC :: u16 where "ET_EXEC \<equiv> 2"
abbreviation (input) ET_DYN :: u16 where "ET_DYN \<equiv> 3"
abbreviation (input) EM_X86_64 :: u16 where "EM_X86_64 \<equiv> 62"
abbreviation (input) PT_LOAD :: u32 where "PT_LOAD \<equiv> 1"
abbreviation (input) PT_DYNAMIC :: u32 where "PT_DYNAMIC \<equiv> 2"
abbreviation (input) PT_INTERP :: u32 where "PT_INTERP \<equiv> 3"
abbreviation (input) PT_PHDR :: u32 where "PT_PHDR \<equiv> 6"
abbreviation (input) EHDR_SIZE :: nat where "EHDR_SIZE \<equiv> 64"
abbreviation (input) PHDR_SIZE :: nat where "PHDR_SIZE \<equiv> 56"
abbreviation (input) RELA_SIZE :: nat where "RELA_SIZE \<equiv> 24"

record Elf64Ehdr =
  e_ident :: bytes
  e_type :: u16
  e_machine :: u16
  e_version :: u32
  e_entry :: u64
  e_phoff :: u64
  e_shoff :: u64
  e_flags :: u32
  e_ehsize :: u16
  e_phentsize :: u16
  e_phnum :: u16
  e_shentsize :: u16
  e_shnum :: u16
  e_shstrndx :: u16

record Elf64Phdr =
  p_type :: u32
  p_flags :: u32
  p_offset :: u64
  p_vaddr :: u64
  p_paddr :: u64
  p_filesz :: u64
  p_memsz :: u64
  p_align :: u64

record Elf64Rela =
  r_offset :: u64
  r_info :: u64
  r_addend :: u64

datatype ParseError = PInvalid | PNotElf | PBadMachine | PBadType

text \<open>\<open>iter().position(P).unwrap_or(len)\<close>.\<close>

definition position_or_len :: "('a \<Rightarrow> bool) \<Rightarrow> 'a list \<Rightarrow> nat" where
  "position_or_len P xs = (case position P xs of Some i \<Rightarrow> i | None \<Rightarrow> length xs)"

lemma position_or_len_le [simp]: "position_or_len P xs \<le> length xs"
  by (auto simp: position_or_len_def split: option.splits dest: position_SomeD(1))

text \<open>The layout of the C structures: a field of \<open>n\<close> bytes at an offset, least byte first.\<close>

definition field :: "bytes \<Rightarrow> nat \<Rightarrow> nat \<Rightarrow> 'a::len word" where
  "field b off n = of_le (take n (drop off b))"

definition ehdr_of :: "bytes \<Rightarrow> Elf64Ehdr" where
  "ehdr_of b = \<lparr>e_ident = take 16 b, e_type = field b 16 2, e_machine = field b 18 2,
     e_version = field b 20 4, e_entry = field b 24 8, e_phoff = field b 32 8, e_shoff = field b 40 8,
     e_flags = field b 48 4, e_ehsize = field b 52 2, e_phentsize = field b 54 2, e_phnum = field b 56 2,
     e_shentsize = field b 58 2, e_shnum = field b 60 2, e_shstrndx = field b 62 2\<rparr>"

definition phdr_of :: "bytes \<Rightarrow> Elf64Phdr" where
  "phdr_of b = \<lparr>p_type = field b 0 4, p_flags = field b 4 4, p_offset = field b 8 8, p_vaddr = field b 16 8,
     p_paddr = field b 24 8, p_filesz = field b 32 8, p_memsz = field b 40 8, p_align = field b 48 8\<rparr>"

definition rela_of :: "bytes \<Rightarrow> Elf64Rela" where
  "rela_of b = \<lparr>r_offset = field b 0 8, r_info = field b 8 8, r_addend = field b 16 8\<rparr>"

text \<open>A read of \<open>n\<close> bytes at \<open>data.as_ptr().add(off)\<close>.\<close>

definition read_at :: "bytes \<Rightarrow> u64 \<Rightarrow> nat \<Rightarrow> bytes run" where
  "read_at data off n = slice data (unat off) (unat off + n)"

definition parse_ehdr :: "bytes \<Rightarrow> (ParseError, Elf64Ehdr) result" where
  "parse_ehdr data = (if length data < EHDR_SIZE then Inl PInvalid else Inr (ehdr_of (take EHDR_SIZE data)))"

definition validate_hdr :: "Elf64Ehdr \<Rightarrow> (ParseError, unit) result" where
  "validate_hdr hdr =
     (if take 4 (e_ident hdr) \<noteq> ELF_MAGIC \<or> e_ident hdr ! 4 \<noteq> 2 then Inl PNotElf
      else if e_ident hdr ! 5 \<noteq> 1 then Inl PNotElf
      else if e_machine hdr \<noteq> EM_X86_64 then Inl PBadMachine
      else if e_type hdr \<noteq> ET_EXEC \<and> e_type hdr \<noteq> ET_DYN then Inl PBadType
      else Inr ())"

definition phdr_at :: "bytes \<Rightarrow> Elf64Ehdr \<Rightarrow> u16 \<Rightarrow> (ParseError, Elf64Phdr) result run" where
  "phdr_at data hdr index = (
     let off = e_phoff hdr + ucast index * ucast (e_phentsize hdr) in
     if off + of_nat PHDR_SIZE > of_nat (length data) then Some (Inl PInvalid)
     else do { b \<leftarrow> read_at data off PHDR_SIZE; Some (Inr (phdr_of b)) })"

text \<open>
  Four loops over the program headers return at the first header that passes a test; this is that
  loop, with the test as an argument.
\<close>

fun first_phdr ::
  "(Elf64Phdr \<Rightarrow> bool) \<Rightarrow> bytes \<Rightarrow> Elf64Ehdr \<Rightarrow> nat list \<Rightarrow> (ParseError, Elf64Phdr option) result run" where
  "first_phdr P data hdr [] = Some (Inr None)"
| "first_phdr P data hdr (i # is) = do {
     r \<leftarrow> phdr_at data hdr (of_nat i);
     (case r of
        Inl e \<Rightarrow> Some (Inl e)
      | Inr ph \<Rightarrow> if P ph then Some (Inr (Some ph)) else first_phdr P data hdr is) }"

abbreviation (input) phdr_indices :: "Elf64Ehdr \<Rightarrow> nat list" where
  "phdr_indices hdr \<equiv> [0..<unat (e_phnum hdr)]"

definition covers_phdrs :: "Elf64Ehdr \<Rightarrow> Elf64Phdr \<Rightarrow> bool" where
  "covers_phdrs hdr ph \<longleftrightarrow> p_type ph = PT_LOAD \<and> p_offset ph \<le> e_phoff hdr \<and>
     p_offset ph + p_filesz ph \<ge> e_phoff hdr + ucast (e_phnum hdr) * ucast (e_phentsize hdr)"

definition phdr_vaddr_in_image :: "bytes \<Rightarrow> Elf64Ehdr \<Rightarrow> u64 \<Rightarrow> (ParseError, u64) result run" where
  "phdr_vaddr_in_image data hdr load_bias = do {
     r \<leftarrow> first_phdr (\<lambda>ph. p_type ph = PT_PHDR) data hdr (phdr_indices hdr);
     (case r of
        Inl e \<Rightarrow> Some (Inl e)
      | Inr (Some ph) \<Rightarrow> Some (Inr (p_vaddr ph + load_bias))
      | Inr None \<Rightarrow> do {
          r \<leftarrow> first_phdr (covers_phdrs hdr) data hdr (phdr_indices hdr);
          Some (case r of
             Inl e \<Rightarrow> Inl e
           | Inr (Some ph) \<Rightarrow> Inr (p_vaddr ph + load_bias + (e_phoff hdr - p_offset ph))
           | Inr None \<Rightarrow> Inl PInvalid) }) }"

fun min_load_loop :: "bytes \<Rightarrow> Elf64Ehdr \<Rightarrow> u64 \<Rightarrow> nat list \<Rightarrow> (ParseError, u64) result run" where
  "min_load_loop data hdr mn [] = Some (Inr mn)"
| "min_load_loop data hdr mn (i # is) = do {
     r \<leftarrow> phdr_at data hdr (of_nat i);
     (case r of
        Inl e \<Rightarrow> Some (Inl e)
      | Inr ph \<Rightarrow> min_load_loop data hdr (if p_type ph = PT_LOAD then min mn (p_vaddr ph) else mn) is) }"

definition min_load_vaddr :: "bytes \<Rightarrow> Elf64Ehdr \<Rightarrow> (ParseError, u64) result run" where
  "min_load_vaddr data hdr = do {
     r \<leftarrow> min_load_loop data hdr (- 1) (phdr_indices hdr);
     Some (case r of Inl e \<Rightarrow> Inl e | Inr mn \<Rightarrow> if mn = - 1 then Inl PInvalid else Inr mn) }"

definition extract_interp_path :: "bytes \<Rightarrow> Elf64Ehdr \<Rightarrow> (ParseError, bytes option) result run" where
  "extract_interp_path data hdr = do {
     r \<leftarrow> first_phdr (\<lambda>ph. p_type ph = PT_INTERP) data hdr (phdr_indices hdr);
     (case r of
        Inl e \<Rightarrow> Some (Inl e)
      | Inr None \<Rightarrow> Some (Inr None)
      | Inr (Some ph) \<Rightarrow>
          let start = p_offset ph; stop = start + p_filesz ph in
          if stop > of_nat (length data) then Some (Inl PInvalid)
          else do {
            b \<leftarrow> slice data (unat start) (unat stop);
            p \<leftarrow> slice b 0 (position_or_len (\<lambda>x. x = 0) b);
            Some (Inr (Some p)) }) }"

subsection \<open>The dynamic section\<close>

record DynamicInfo =
  di_rela :: u64
  di_relasz :: u64
  di_relaent :: u64
  di_jmprel :: u64
  di_pltrelsz :: u64

abbreviation (input) DT_NULL :: u64 where "DT_NULL \<equiv> 0"
abbreviation (input) DT_RELA :: u64 where "DT_RELA \<equiv> 7"
abbreviation (input) DT_RELASZ :: u64 where "DT_RELASZ \<equiv> 8"
abbreviation (input) DT_RELAENT :: u64 where "DT_RELAENT \<equiv> 9"
abbreviation (input) DT_JMPREL :: u64 where "DT_JMPREL \<equiv> 23"
abbreviation (input) DT_PLTRELSZ :: u64 where "DT_PLTRELSZ \<equiv> 2"

partial_function (option) dynamic_loop :: "bytes \<Rightarrow> u64 \<Rightarrow> u64 \<Rightarrow> u64 \<Rightarrow> DynamicInfo \<Rightarrow> DynamicInfo run" where
  [code]: "dynamic_loop data load_bias stop off info =
     (if off + 16 \<le> stop then do {
        b \<leftarrow> read_at data off 16;
        let tag = (field b 0 8 :: u64);
        let val = field b 8 8;
        (if tag = DT_NULL then Some info
         else dynamic_loop data load_bias stop (off + 16)
           (if tag = DT_RELA then info\<lparr>di_rela := val + load_bias\<rparr>
            else if tag = DT_RELASZ then info\<lparr>di_relasz := val\<rparr>
            else if tag = DT_RELAENT then info\<lparr>di_relaent := val\<rparr>
            else if tag = DT_JMPREL then info\<lparr>di_jmprel := val + load_bias\<rparr>
            else if tag = DT_PLTRELSZ then info\<lparr>di_pltrelsz := val\<rparr>
            else info)) }
      else Some info)"

definition parse_dynamic :: "bytes \<Rightarrow> Elf64Ehdr \<Rightarrow> u64 \<Rightarrow> (ParseError, DynamicInfo option) result run" where
  "parse_dynamic data hdr load_bias = do {
     r \<leftarrow> first_phdr (\<lambda>ph. p_type ph = PT_DYNAMIC) data hdr (phdr_indices hdr);
     (case r of
        Inl e \<Rightarrow> Some (Inl e)
      | Inr None \<Rightarrow> Some (Inr None)
      | Inr (Some ph) \<Rightarrow>
          let info = \<lparr>di_rela = 0, di_relasz = 0, di_relaent = of_nat RELA_SIZE, di_jmprel = 0, di_pltrelsz = 0\<rparr>;
              start = p_offset ph; stop = start + p_filesz ph in
          if stop > of_nat (length data) then Some (Inl PInvalid)
          else do {
            info \<leftarrow> dynamic_loop data load_bias stop start info;
            Some (Inr (Some info)) }) }"

subsection \<open>Scripts\<close>

definition blank :: "u8 \<Rightarrow> bool" where
  "blank b \<longleftrightarrow> b = 32 \<or> b = 9"

definition parse_shebang :: "bytes \<Rightarrow> (bytes \<times> bytes) option run" where
  "parse_shebang data =
     (if take 2 data \<noteq> [35, 33] then Some None
      else do {
        let line_end = position_or_len (\<lambda>b. b = 10) data;
        line \<leftarrow> slice data 2 line_end;
        let start = position_or_len (\<lambda>b. \<not> blank b) line;
        (if start \<ge> length line then Some None
         else do {
           rest \<leftarrow> slice line start (length line);
           let path_end = position_or_len blank rest;
           path \<leftarrow> slice rest 0 path_end;
           args \<leftarrow> slice rest path_end (length rest);
           Some (Some (path, args)) }) })"

definition is_elf :: "bytes \<Rightarrow> bool" where
  "is_elf data \<longleftrightarrow> length data \<ge> 4 \<and> take 4 data = ELF_MAGIC"

subsection \<open>Relocations\<close>

datatype RelocError = UnknownType u32 | BadOffset

abbreviation (input) R_X86_64_NONE :: u32 where "R_X86_64_NONE \<equiv> 0"
abbreviation (input) R_X86_64_64 :: u32 where "R_X86_64_64 \<equiv> 1"
abbreviation (input) R_X86_64_GLOB_DAT :: u32 where "R_X86_64_GLOB_DAT \<equiv> 6"
abbreviation (input) R_X86_64_JUMP_SLOT :: u32 where "R_X86_64_JUMP_SLOT \<equiv> 7"
abbreviation (input) R_X86_64_RELATIVE :: u32 where "R_X86_64_RELATIVE \<equiv> 8"
abbreviation (input) R_X86_64_IRELATIVE :: u32 where "R_X86_64_IRELATIVE \<equiv> 37"

text \<open>The closures that the caller passes are functions; the one that writes has a state.\<close>

definition apply_rela_entry ::
  "(u64 \<Rightarrow> u64 option) \<Rightarrow> (u64 \<Rightarrow> u64 \<Rightarrow> 's \<Rightarrow> ((RelocError, unit) result \<times> 's) run) \<Rightarrow>
   Elf64Rela \<Rightarrow> u64 \<Rightarrow> bool \<Rightarrow> 's \<Rightarrow> ((RelocError, unit) result \<times> 's) run" where
  "apply_rela_entry resolv wr rela load_base allow_irelative s = (
     let r_type = ucast (r_info rela AND 0xffffffff) :: u32; offset = r_offset rela in
     if r_type = R_X86_64_NONE then Some (Inr (), s)
     else if r_type = R_X86_64_RELATIVE then wr offset (load_base + r_addend rela) s
     else if r_type = R_X86_64_64 \<or> r_type = R_X86_64_GLOB_DAT \<or> r_type = R_X86_64_JUMP_SLOT then
       let sym_value = (case resolv (drop_bit 32 (r_info rela)) of Some v \<Rightarrow> v | None \<Rightarrow> 0)
       in wr offset (sym_value + r_addend rela) s
     else if r_type = R_X86_64_IRELATIVE \<and> allow_irelative then
       let resolver = load_base + r_addend rela
       in wr offset (case resolv resolver of Some v \<Rightarrow> v | None \<Rightarrow> resolver) s
     else Some (Inl (UnknownType r_type), s))"

fun apply_rela_table ::
  "(u64 \<Rightarrow> u64 option) \<Rightarrow> (u64 \<Rightarrow> u64 \<Rightarrow> 's \<Rightarrow> ((RelocError, unit) result \<times> 's) run) \<Rightarrow>
   Elf64Rela list \<Rightarrow> u64 \<Rightarrow> bool \<Rightarrow> 's \<Rightarrow> ((RelocError, unit) result \<times> 's) run" where
  "apply_rela_table resolv wr [] load_base allow_irelative s = Some (Inr (), s)"
| "apply_rela_table resolv wr (rela # entries) load_base allow_irelative s = do {
     (r, s) \<leftarrow> apply_rela_entry resolv wr rela load_base allow_irelative s;
     (case r of
        Inl e \<Rightarrow> Some (Inl e, s)
      | Inr _ \<Rightarrow> apply_rela_table resolv wr entries load_base allow_irelative s) }"

definition rela_count :: "u64 \<Rightarrow> u64 \<Rightarrow> nat" where
  "rela_count relasz relaent = (if relaent = 0 then 0 else unat (relasz div relaent))"

subsection \<open>Reading the headers\<close>

lemma read_at_in: "unat off + n \<le> length data \<Longrightarrow> read_at data off n = Some (take n (drop (unat off) data))"
  by (simp add: read_at_def)

lemma read_at_out: "length data < unat off + n \<Longrightarrow> read_at data off n = None"
  by (simp add: read_at_def slice_def)

definition phdr_off :: "Elf64Ehdr \<Rightarrow> u16 \<Rightarrow> u64" where
  "phdr_off hdr i = e_phoff hdr + ucast i * ucast (e_phentsize hdr)"

text \<open>The check of \<open>phdr_at\<close> is right as long as the offset is not in the last 56 bytes of the
  address space, where its sum wraps around.\<close>

lemma phdr_at_cases:
  assumes "EHDR_SIZE \<le> length data" and "length data < 2 ^ 63"
  shows "phdr_at data hdr i =
    (if unat (phdr_off hdr i) + PHDR_SIZE \<le> length data
     then Some (Inr (phdr_of (take PHDR_SIZE (drop (unat (phdr_off hdr i)) data))))
     else if 2 ^ 64 \<le> unat (phdr_off hdr i) + PHDR_SIZE then None
     else Some (Inl PInvalid))"
proof -
  let ?o = "phdr_off hdr i"
  have l: "unat (of_nat (length data) :: u64) = length data" using assms(2) by (simp add: unat_of_nat)
  have e: "phdr_at data hdr i = (if length data < unat (?o + 56) then Some (Inl PInvalid)
      else do { b \<leftarrow> read_at data ?o PHDR_SIZE; Some (Inr (phdr_of b)) })"
    by (simp add: phdr_at_def phdr_off_def Let_def word_less_nat_alt l)
  show ?thesis
  proof (cases "unat ?o + 56 < 2 ^ 64")
    case True
    then have "unat (?o + 56) = unat ?o + 56" using unat_add_small [of ?o 56] by simp
    then show ?thesis using True unfolding e by (auto simp: read_at_in)
  next
    case False
    have "unat (?o + 56) = (unat ?o + 56) mod 2 ^ 64" by (simp add: unat_word_ariths)
    moreover have "unat ?o + 56 < 2 ^ 64 + 56" using unat_bound [of ?o] by simp
    ultimately have "unat (?o + 56) < 56" using False by (simp add: le_mod_geq)
    then show ?thesis using False assms unfolding e by (auto simp: read_at_out)
  qed
qed

text \<open>A file whose program headers can all be read.\<close>

definition phdrs_are :: "bytes \<Rightarrow> Elf64Ehdr \<Rightarrow> Elf64Phdr list \<Rightarrow> bool" where
  "phdrs_are data hdr phs \<longleftrightarrow> length phs = unat (e_phnum hdr) \<and>
     (\<forall>i < length phs. phdr_at data hdr (of_nat i) = Some (Inr (phs ! i)))"

lemma first_phdr_from:
  assumes "phdrs_are data hdr phs" and "i \<le> length phs"
  shows "first_phdr P data hdr [i..<length phs] = Some (Inr (find P (drop i phs)))"
  using assms(2)
proof (induction "length phs - i" arbitrary: i)
  case (Suc n)
  then have i: "i < length phs" by simp
  then have "first_phdr P data hdr [Suc i..<length phs] = Some (Inr (find P (drop (Suc i) phs)))"
    using Suc by (intro Suc.hyps) simp_all
  moreover have "phdr_at data hdr (of_nat i) = Some (Inr (phs ! i))"
    using assms(1) i by (simp add: phdrs_are_def)
  ultimately show ?case using i by (simp add: upt_conv_Cons Cons_nth_drop_Suc [symmetric])
qed simp

lemma first_phdr_find:
  assumes "phdrs_are data hdr phs"
  shows "first_phdr P data hdr (phdr_indices hdr) = Some (Inr (find P phs))"
  using first_phdr_from [OF assms, of 0 P] assms by (simp add: phdrs_are_def)

definition load_vaddrs :: "Elf64Phdr list \<Rightarrow> u64 list" where
  "load_vaddrs phs = map p_vaddr (filter (\<lambda>ph. p_type ph = PT_LOAD) phs)"

lemma min_load_from:
  assumes "phdrs_are data hdr phs" and "i \<le> length phs"
  shows "min_load_loop data hdr mn [i..<length phs] = Some (Inr (fold min (load_vaddrs (drop i phs)) mn))"
  using assms(2)
proof (induction "length phs - i" arbitrary: i mn)
  case (Suc n)
  then have i: "i < length phs" by simp
  then have "min_load_loop data hdr mn' [Suc i..<length phs] =
      Some (Inr (fold min (load_vaddrs (drop (Suc i) phs)) mn'))" for mn'
    using Suc by (intro Suc.hyps) simp_all
  moreover have "phdr_at data hdr (of_nat i) = Some (Inr (phs ! i))"
    using assms(1) i by (simp add: phdrs_are_def)
  ultimately show ?case
    using i by (simp add: upt_conv_Cons Cons_nth_drop_Suc [symmetric] load_vaddrs_def min.commute)
qed (simp add: load_vaddrs_def)

lemma fold_min_Min: "fold min xs (m :: u64) = Min (insert m (set xs))"
  using Min.set_eq_fold [of m xs] by simp

lemma min_load_vaddr_Min:
  assumes "phdrs_are data hdr phs"
  shows "min_load_vaddr data hdr = Some (
    let mn = Min (insert (- 1) (set (load_vaddrs phs))) in if mn = - 1 then Inl PInvalid else Inr mn)"
proof -
  have "length phs = unat (e_phnum hdr)" using assms by (simp add: phdrs_are_def)
  then show ?thesis
    using min_load_from [OF assms, of 0 "- 1"] by (simp add: min_load_vaddr_def fold_min_Min Let_def)
qed

text \<open>An interpreter whose range wraps around passes the check and the slice panics.\<close>

lemma extract_interp_path_panics:
  assumes "phdrs_are data hdr phs" and "find (\<lambda>ph. p_type ph = PT_INTERP) phs = Some ph"
    and "p_offset ph + p_filesz ph \<le> of_nat (length data)" and "p_offset ph + p_filesz ph < p_offset ph"
  shows "extract_interp_path data hdr = None"
  using assms
  by (simp add: extract_interp_path_def first_phdr_find Let_def slice_def word_less_nat_alt word_le_nat_alt not_less)

lemma parse_shebang_returns: "\<exists>r. parse_shebang data = Some r"
proof (cases "take 2 data = [35, 33]")
  case True
  then obtain d where d: "data = 35 # 33 # d"
    by (cases data; cases "tl data") auto
  then have "2 \<le> position_or_len (\<lambda>b. b = 10) data"
    by (auto simp: position_or_len_def split: option.splits)
  then obtain line where "slice data 2 (position_or_len (\<lambda>b. b = 10) data) = Some line"
    by simp
  moreover obtain rest where "slice line (position_or_len (\<lambda>b. \<not> blank b) line) (length line) = Some rest"
    by simp
  ultimately show ?thesis using True by (simp add: parse_shebang_def Let_def del: slice_in) (simp add: Let_def)
qed (simp add: parse_shebang_def)

subsection \<open>Encoded files\<close>

definition ehdr_bytes :: "Elf64Ehdr \<Rightarrow> bytes" where
  "ehdr_bytes h = e_ident h @ le_bytes 2 (e_type h) @ le_bytes 2 (e_machine h) @ le_bytes 4 (e_version h) @
     le_bytes 8 (e_entry h) @ le_bytes 8 (e_phoff h) @ le_bytes 8 (e_shoff h) @ le_bytes 4 (e_flags h) @
     le_bytes 2 (e_ehsize h) @ le_bytes 2 (e_phentsize h) @ le_bytes 2 (e_phnum h) @
     le_bytes 2 (e_shentsize h) @ le_bytes 2 (e_shnum h) @ le_bytes 2 (e_shstrndx h)"

definition phdr_bytes :: "Elf64Phdr \<Rightarrow> bytes" where
  "phdr_bytes p = le_bytes 4 (p_type p) @ le_bytes 4 (p_flags p) @ le_bytes 8 (p_offset p) @
     le_bytes 8 (p_vaddr p) @ le_bytes 8 (p_paddr p) @ le_bytes 8 (p_filesz p) @ le_bytes 8 (p_memsz p) @
     le_bytes 8 (p_align p)"

definition rela_bytes :: "Elf64Rela \<Rightarrow> bytes" where
  "rela_bytes r = le_bytes 8 (r_offset r) @ le_bytes 8 (r_info r) @ le_bytes 8 (r_addend r)"

text \<open>A file with the program headers right after the file header.\<close>

definition elf_file :: "Elf64Ehdr \<Rightarrow> Elf64Phdr list \<Rightarrow> bytes \<Rightarrow> bytes" where
  "elf_file h phs rest = ehdr_bytes h @ concat (map phdr_bytes phs) @ rest"

definition plain_hdr :: "Elf64Ehdr \<Rightarrow> Elf64Phdr list \<Rightarrow> bool" where
  "plain_hdr h phs \<longleftrightarrow> length (e_ident h) = 16 \<and> e_phoff h = of_nat EHDR_SIZE \<and>
     e_phentsize h = of_nat PHDR_SIZE \<and> length phs < 2 ^ 16 \<and> e_phnum h = of_nat (length phs)"

lemma field_skip: "n \<le> off \<Longrightarrow> length a = n \<Longrightarrow> field (a @ b) off w = field b (off - n) w"
  by (simp add: field_def)

lemma field_here: "length a = w \<Longrightarrow> field (a @ b) 0 w = of_le a" "length a = w \<Longrightarrow> field a 0 w = of_le a"
  by (simp_all add: field_def)

lemmas field_simps = field_skip [OF _ length_le_bytes] field_here [OF length_le_bytes] byte_simps

lemma phdr_of_bytes [simp]: "phdr_of (phdr_bytes p) = p"
  by (simp add: phdr_of_def phdr_bytes_def field_simps)

lemma rela_of_bytes [simp]: "rela_of (rela_bytes r) = r"
  by (simp add: rela_of_def rela_bytes_def field_simps)

lemma ehdr_of_bytes: "length (e_ident h) = 16 \<Longrightarrow> ehdr_of (ehdr_bytes h) = h"
  by (simp add: ehdr_of_def ehdr_bytes_def field_simps field_skip [of 16])

lemma length_phdr_bytes [simp]: "length (phdr_bytes p) = PHDR_SIZE"
  by (simp add: phdr_bytes_def)

lemma length_ehdr_bytes: "length (e_ident h) = 16 \<Longrightarrow> length (ehdr_bytes h) = EHDR_SIZE"
  by (simp add: ehdr_bytes_def)

lemma length_phdrs: "length (concat (map phdr_bytes phs)) = PHDR_SIZE * length phs"
  by (induction phs) simp_all

lemma nth_phdr:
  "i < length phs \<Longrightarrow> take PHDR_SIZE (drop (PHDR_SIZE * i) (concat (map phdr_bytes phs) @ rest)) = phdr_bytes (phs ! i)"
proof (induction phs arbitrary: i)
  case (Cons p phs)
  then show ?case by (cases i) simp_all
qed simp

lemma elf_file_phdrs:
  assumes "plain_hdr h phs" and "length (elf_file h phs rest) < 2 ^ 63"
  shows "phdrs_are (elf_file h phs rest) h phs"
proof -
  let ?d = "elf_file h phs rest"
  have h: "length (ehdr_bytes h) = EHDR_SIZE" using assms(1) by (simp add: plain_hdr_def length_ehdr_bytes)
  have len: "length ?d = EHDR_SIZE + PHDR_SIZE * length phs + length rest"
    by (simp add: elf_file_def h length_phdrs)
  have "phdr_at ?d h (of_nat i) = Some (Inr (phs ! i))" if i: "i < length phs" for i
  proof -
    have b: "i < 2 ^ 16" using i assms(1) by (simp add: plain_hdr_def)
    then have "phdr_off h (of_nat i) = of_nat (EHDR_SIZE + PHDR_SIZE * i)"
      using assms(1) by (simp add: phdr_off_def plain_hdr_def unsigned_of_nat take_bit_nat_eq_self ucast_eq)
    then have o: "unat (phdr_off h (of_nat i)) = EHDR_SIZE + PHDR_SIZE * i"
      using b by (simp only: unat_of_nat) simp
    have "drop (EHDR_SIZE + PHDR_SIZE * i) ?d = drop (PHDR_SIZE * i) (concat (map phdr_bytes phs) @ rest)"
      by (simp add: elf_file_def h add.commute flip: drop_drop)
    then have t: "take PHDR_SIZE (drop (EHDR_SIZE + PHDR_SIZE * i) ?d) = phdr_bytes (phs ! i)"
      using nth_phdr [OF i] by simp
    have "EHDR_SIZE + PHDR_SIZE * i + PHDR_SIZE \<le> length ?d" using i by (simp add: len)
    then show ?thesis
      using phdr_at_cases [of ?d h "of_nat i"] assms(2) len by (simp add: o t)
  qed
  then show ?thesis using assms(1) by (simp add: phdrs_are_def plain_hdr_def unat_of_nat)
qed

subsection \<open>The properties\<close>

text \<open>
  C17: Program headers are read inside the file or refused, with one exception. For a file of at least
  64 bytes, \<open>phdr_at\<close> returns the header when all of it is in the file and \<open>Invalid\<close> otherwise, unless
  its offset lies in the last 56 bytes of the address space: there the sum of the check wraps
  around, the check passes, and the read leaves the file.
\<close>

theorem phdr_at_bounds:
  assumes "EHDR_SIZE \<le> length data" and "length data < 2 ^ 63"
    and "off = unat (e_phoff hdr + ucast i * ucast (e_phentsize hdr))"
  shows "phdr_at data hdr i =
    (if off + PHDR_SIZE \<le> length data then Some (Inr (phdr_of (take PHDR_SIZE (drop off data))))
     else if 2 ^ 64 \<le> off + PHDR_SIZE then None
     else Some (Inl PInvalid))"
  using phdr_at_cases [OF assms(1,2), of hdr i] unfolding assms(3) phdr_off_def by simp

theorem phdr_at_bounds_witness:
  "phdr_at (replicate 64 0) ((ehdr_of [])\<lparr>e_phoff := 0xFFFFFFFFFFFFFFC8\<rparr>) 0 = None
    \<and> phdr_at (replicate 64 0) ((ehdr_of [])\<lparr>e_phoff := 9\<rparr>) 0 = Some (Inl PInvalid)"
  using phdr_at_bounds [of "replicate 64 0" "0xFFFFFFFFFFFFFFC8" "(ehdr_of [])\<lparr>e_phoff := 0xFFFFFFFFFFFFFFC8\<rparr>" 0]
    phdr_at_bounds [of "replicate 64 0" 9 "(ehdr_of [])\<lparr>e_phoff := 9\<rparr>" 0]
  by (simp add: ehdr_of_def field_def)

text \<open>
  C11: Parsing undoes encoding. For a file made of an encoded file header, its encoded program headers
  right behind it and any further bytes, the parser returns that header, every one of its program
  headers, the first header that passes any test, and the least address of a loadable segment.
\<close>

theorem elf_file_roundtrip:
  assumes "plain_hdr h phs" and "length (elf_file h phs rest) < 2 ^ 63"
  shows "parse_ehdr (elf_file h phs rest) = Inr h
    \<and> (\<forall>i < length phs. phdr_at (elf_file h phs rest) h (of_nat i) = Some (Inr (phs ! i)))
    \<and> first_phdr P (elf_file h phs rest) h (phdr_indices h) = Some (Inr (find P phs))
    \<and> min_load_vaddr (elf_file h phs rest) h = Some (
        let mn = Min (insert (- 1) (set (load_vaddrs phs))) in if mn = - 1 then Inl PInvalid else Inr mn)"
proof -
  note ph = elf_file_phdrs [OF assms]
  have i: "length (e_ident h) = 16" using assms(1) by (simp add: plain_hdr_def)
  have "parse_ehdr (elf_file h phs rest) = Inr h"
    by (simp add: parse_ehdr_def elf_file_def length_ehdr_bytes [OF i] ehdr_of_bytes [OF i])
  then show ?thesis
    using ph first_phdr_find [OF ph] min_load_vaddr_Min [OF ph] by (simp add: phdrs_are_def)
qed

definition tiny_ehdr :: Elf64Ehdr where
  "tiny_ehdr = \<lparr>e_ident = ELF_MAGIC @ [2, 1, 1] @ replicate 9 0, e_type = ET_EXEC, e_machine = EM_X86_64,
     e_version = 1, e_entry = 0x400000, e_phoff = 64, e_shoff = 0, e_flags = 0, e_ehsize = 64,
     e_phentsize = 56, e_phnum = 1, e_shentsize = 0, e_shnum = 0, e_shstrndx = 0\<rparr>"

definition tiny_phdr :: Elf64Phdr where
  "tiny_phdr = \<lparr>p_type = PT_LOAD, p_flags = 5, p_offset = 0x78, p_vaddr = 0x400000, p_paddr = 0,
     p_filesz = 2, p_memsz = 3, p_align = 0x1000\<rparr>"

lemma tiny_plain: "plain_hdr tiny_ehdr [tiny_phdr]"
  by (simp add: plain_hdr_def tiny_ehdr_def)

lemma tiny_length: "length (elf_file tiny_ehdr [tiny_phdr] [0xEB, 0xFE]) = 122"
  by (simp add: elf_file_def ehdr_bytes_def tiny_ehdr_def)

lemma tiny_valid: "validate_hdr tiny_ehdr = Inr ()"
  by (simp add: validate_hdr_def tiny_ehdr_def)

lemma tiny_loads: "load_vaddrs [tiny_phdr] = [0x400000]"
  by (simp add: load_vaddrs_def tiny_phdr_def)

lemma not_max_le: "\<not> (- 1 :: u64) \<le> 0x400000"
  by (simp add: word_le_nat_alt unat_minus_one_max)

theorem elf_file_roundtrip_witness:
  "parse_ehdr (elf_file tiny_ehdr [tiny_phdr] [0xEB, 0xFE]) = Inr tiny_ehdr
    \<and> validate_hdr tiny_ehdr = Inr ()
    \<and> min_load_vaddr (elf_file tiny_ehdr [tiny_phdr] [0xEB, 0xFE]) tiny_ehdr = Some (Inr 0x400000)"
  using elf_file_roundtrip [OF tiny_plain, of "[0xEB, 0xFE]"]
  by (simp add: tiny_length tiny_loads tiny_valid Let_def min_def not_max_le)

end
