(* ===== verification/Elf_Load.thy ===== *)
theory Elf_Load
  imports Elf_Parse Vm
begin

text \<open>
  Loading an ELF image into an address space: \<^verbatim>\<open>src/kernel/src/mm/elf/load.rs\<close>. The frames of the image are
  filled through the direct map, so the model writes them in the physical memory. Reading the
  interpreter from the file system is an argument of \<open>load_executable\<close>; the vector of relocations is
  a list, and the kernel heap that holds it does not run out.

  The lemmas follow one page of a segment from its allocation to its mapping and then the loop over
  the pages: the loaded image holds the bytes of the file, zeros behind them, and nothing else
  changed.
\<close>

abbreviation (input) PIE_LOAD_BASE :: u64 where "PIE_LOAD_BASE \<equiv> 0x400000"
abbreviation (input) SEG_X :: u32 where "SEG_X \<equiv> 1"
abbreviation (input) SEG_W :: u32 where "SEG_W \<equiv> 2"

record LoadedElf =
  le_entry :: u64
  le_phdr_vaddr :: u64
  le_phdr_count :: u16
  le_phdr_entry_size :: u16
  le_load_bias :: u64
  le_is_dynamic :: bool

datatype ElfError = ElfInvalid | NotElf | NotExec | MapFailed | InterpMissing | RelocFailed

fun elf_error_from :: "ParseError \<Rightarrow> ElfError" where
  "elf_error_from PNotElf = NotElf"
| "elf_error_from PBadMachine = NotExec"
| "elf_error_from PBadType = NotExec"
| "elf_error_from PInvalid = ElfInvalid"

definition compute_load_bias :: "bytes \<Rightarrow> Elf64Ehdr \<Rightarrow> (ElfError, u64) result run" where
  "compute_load_bias data hdr =
     (if e_type hdr = ET_EXEC then Some (Inr 0)
      else do {
        r \<leftarrow> min_load_vaddr data hdr;
        Some (case r of
           Inl e \<Rightarrow> Inl (elf_error_from e)
         | Inr min_v \<Rightarrow> Inr (if min_v = 0 then PIE_LOAD_BASE else 0)) })"

subsection \<open>Segments\<close>

text \<open>The part of the file that belongs on the page at \<open>vaddr\<close>, written into the frame at \<open>phys\<close>.\<close>

definition copy_page :: "bytes \<Rightarrow> Elf64Phdr \<Rightarrow> u64 \<Rightarrow> u64 \<Rightarrow> u64 \<Rightarrow> mem \<Rightarrow> mem run" where
  "copy_page data ph vaddr_base vaddr phys m = (
     let page_lo = vaddr; page_hi = vaddr + PAGE_SIZE;
         copy_lo = max vaddr_base page_lo; copy_hi = min (vaddr_base + p_filesz ph) page_hi in
     if copy_lo < copy_hi then
       let dst_off = copy_lo - page_lo; src_off = p_offset ph + (copy_lo - vaddr_base);
           len = copy_hi - copy_lo in
       if src_off + len \<le> of_nat (length data) then do {
         b \<leftarrow> read_at data src_off (unat len);
         Some (mem_write m (phys + dst_off) b) }
       else Some m
     else Some m)"

definition segment_flags :: "Elf64Phdr \<Rightarrow> u64" where
  "segment_flags ph = (
     let flags = PF_PRESENT OR PF_USER;
         flags = (if p_flags ph AND SEG_W \<noteq> 0 then flags OR PF_WRITABLE else flags)
     in if p_flags ph AND SEG_X = 0 then flags OR PF_NO_EXECUTE else flags)"

partial_function (option) segment_loop ::
  "AddressSpace \<Rightarrow> bytes \<Rightarrow> Elf64Phdr \<Rightarrow> u64 \<Rightarrow> u64 \<Rightarrow> u64 \<Rightarrow> Machine \<Rightarrow> ((ElfError, unit) result \<times> Machine) run" where
  [code]: "segment_loop space data ph vaddr_base seg_end vaddr mc =
     (if vaddr < seg_end then do {
        (f, g) \<leftarrow> alloc_frame (as_numa_node space) (mc_frames mc);
        (case f of
           None \<Rightarrow> Some (Inl MapFailed, mc\<lparr>mc_frames := g\<rparr>)
         | Some frame \<Rightarrow> do {
             m \<leftarrow> copy_page data ph vaddr_base vaddr (fd_phys frame) (zero_page (mc_ram mc) (fd_phys frame));
             (r, mc) \<leftarrow> map_page (as_page_table space) vaddr (fd_phys frame) (segment_flags ph)
               (mc\<lparr>mc_frames := g, mc_ram := m\<rparr>);
             (case r of
                Inl _ \<Rightarrow> Some (Inl MapFailed, mc)
              | Inr _ \<Rightarrow> segment_loop space data ph vaddr_base seg_end (vaddr + PAGE_SIZE) mc) }) }
      else Some (Inr (), mc))"

definition segment_prot :: "Elf64Phdr \<Rightarrow> u32" where
  "segment_prot ph = (
     let prot = PROT_USER OR PROT_READ;
         prot = (if p_flags ph AND SEG_W \<noteq> 0 then prot OR PROT_WRITE else prot)
     in if p_flags ph AND SEG_X \<noteq> 0 then prot OR PROT_EXEC else prot)"

definition map_segment ::
  "AddressSpace \<Rightarrow> bytes \<Rightarrow> Elf64Phdr \<Rightarrow> u64 \<Rightarrow> Machine \<Rightarrow> ((ElfError, unit) result \<times> AddressSpace \<times> Machine) run" where
  "map_segment space data ph load_bias mc = (
     let vaddr_base = p_vaddr ph + load_bias;
         seg_start = align_down vaddr_base PAGE_SIZE;
         seg_end = align_up (vaddr_base + p_memsz ph) PAGE_SIZE in do {
     (r, mc) \<leftarrow> segment_loop space data ph vaddr_base seg_end seg_start mc;
     (case r of
        Inl e \<Rightarrow> Some (Inl e, space, mc)
      | Inr _ \<Rightarrow> do {
          (_, t) \<leftarrow> vma_insert (as_vma space)
            (vma_new seg_start (seg_end - seg_start) (segment_prot ph) MAP_PRIVATE FileBacked);
          Some (Inr (), space\<lparr>as_vma := t\<rparr>, mc) }) })"

definition map_phdr_copy ::
  "AddressSpace \<Rightarrow> bytes \<Rightarrow> Elf64Ehdr \<Rightarrow> u64 \<Rightarrow> Machine \<Rightarrow> ((ElfError, u64) result \<times> Machine) run" where
  "map_phdr_copy space data hdr load_bias mc = (
     let sz = align_up (ucast (e_phnum hdr) * ucast (e_phentsize hdr)) PAGE_SIZE in do {
     r \<leftarrow> min_load_vaddr data hdr;
     (case r of
        Inl e \<Rightarrow> Some (Inl (elf_error_from e), mc)
      | Inr mn \<Rightarrow>
          let base = mn + load_bias; va = align_down (base - sz) PAGE_SIZE in do {
          (f, g) \<leftarrow> alloc_frame (as_numa_node space) (mc_frames mc);
          (case f of
             None \<Rightarrow> Some (Inl MapFailed, mc\<lparr>mc_frames := g\<rparr>)
           | Some frame \<Rightarrow> do {
               let m = zero_page (mc_ram mc) (fd_phys frame);
               let phsize = ucast (e_phnum hdr) * ucast (e_phentsize hdr);
               let src = e_phoff hdr;
               m \<leftarrow> (if src + phsize \<le> of_nat (length data)
                    then do { b \<leftarrow> read_at data src (unat phsize); Some (mem_write m (fd_phys frame) b) }
                    else Some m);
               (r, mc) \<leftarrow> map_page (as_page_table space) va (fd_phys frame) (PF_PRESENT OR PF_USER OR PF_NO_EXECUTE)
                 (mc\<lparr>mc_frames := g, mc_ram := m\<rparr>);
               Some (case r of Inl _ \<Rightarrow> Inl MapFailed | Inr _ \<Rightarrow> Inr va, mc) }) }) })"

subsection \<open>Relocations\<close>

lemma unat_page: "unat (align_down a PAGE_SIZE) = unat a div 4096 * 4096"
  using unat_align_down [of 12 a] by (simp add: PAGE_SIZE_def)

lemma unat_page_off: "unat (a - align_down a PAGE_SIZE) = unat a mod 4096"
proof -
  have "align_down a PAGE_SIZE \<le> a" by (simp add: word_le_nat_alt unat_page)
  then show ?thesis by (simp add: unat_sub unat_page minus_div_mult_eq_mod)
qed

function read_user_loop :: "u64 \<Rightarrow> Machine \<Rightarrow> u64 \<Rightarrow> nat \<Rightarrow> nat \<Rightarrow> bytes \<Rightarrow> (ElfError, bytes) result run" where
  "read_user_loop cr3 mc addr len dn buf =
     (if dn < len then
        let page = align_down (addr + of_nat dn) PAGE_SIZE;
            off = addr + of_nat dn - page in do {
        r \<leftarrow> resolve cr3 page mc;
        (case r of
           None \<Rightarrow> Some (Inl ElfInvalid)
         | Some (phys, _) \<Rightarrow>
             let n = min (4096 - unat off) (len - dn)
             in read_user_loop cr3 mc addr len (dn + n) (buf @ mem_read (mc_ram mc) (phys + off) n)) }
      else Some (Inr buf))"
  by pat_completeness auto
termination
proof (relation "measure (\<lambda>(cr3, mc, addr, len, dn, buf). len - dn)", goal_cases)
  case 1
  then show ?case by simp
next
  case (2 cr3 mc addr len dn buf page off r x phys f n)
  have "unat (addr + of_nat dn - align_down (addr + of_nat dn) PAGE_SIZE) < 4096"
    by (simp add: unat_page_off)
  then have "0 < n" using 2 by simp
  then show ?case using 2(1) by simp
qed

declare read_user_loop.simps [simp del]

definition read_user_bytes :: "u64 \<Rightarrow> Machine \<Rightarrow> u64 \<Rightarrow> nat \<Rightarrow> (ElfError, bytes) result run" where
  "read_user_bytes cr3 mc addr len = read_user_loop cr3 mc addr len 0 []"

definition read_user_rela :: "u64 \<Rightarrow> Machine \<Rightarrow> u64 \<Rightarrow> (ElfError, Elf64Rela) result run" where
  "read_user_rela cr3 mc addr = map_option (map_sum id rela_of) (read_user_bytes cr3 mc addr RELA_SIZE)"

definition write_user_u64 :: "u64 \<Rightarrow> u64 \<Rightarrow> u64 \<Rightarrow> Machine \<Rightarrow> ((RelocError, unit) result \<times> Machine) run" where
  "write_user_u64 cr3 addr val mc = (
     let page = align_down addr PAGE_SIZE; off = addr - page in do {
     r \<leftarrow> resolve cr3 page mc;
     Some (case r of
        None \<Rightarrow> (Inl BadOffset, mc)
      | Some (phys, _) \<Rightarrow> (Inr (), mc\<lparr>mc_ram := wr64 (mc_ram mc) (phys + off) val\<rparr>)) })"

fun read_relas :: "u64 \<Rightarrow> Machine \<Rightarrow> u64 \<Rightarrow> u64 \<Rightarrow> nat list \<Rightarrow> (ElfError, Elf64Rela list) result run" where
  "read_relas cr3 mc base ent [] = Some (Inr [])"
| "read_relas cr3 mc base ent (i # is) = do {
     r \<leftarrow> read_user_rela cr3 mc (base + of_nat i * ent);
     (case r of
        Inl e \<Rightarrow> Some (Inl e)
      | Inr rela \<Rightarrow> map_option (map_sum id (Cons rela)) (read_relas cr3 mc base ent is)) }"

definition apply_relocations ::
  "AddressSpace \<Rightarrow> bytes \<Rightarrow> Elf64Ehdr \<Rightarrow> u64 \<Rightarrow> bool \<Rightarrow> Machine \<Rightarrow> ((ElfError, unit) result \<times> Machine) run" where
  "apply_relocations space data hdr load_bias allow_irelative mc = (
     let cr3 = as_page_table space in do {
     d \<leftarrow> parse_dynamic data hdr load_bias;
     (case d of
        Inl e \<Rightarrow> Some (Inl (elf_error_from e), mc)
      | Inr None \<Rightarrow> Some (Inr (), mc)
      | Inr (Some info) \<Rightarrow>
          if di_relaent info = 0 then Some (Inr (), mc)
          else do {
            r \<leftarrow> read_relas cr3 mc (di_rela info) (di_relaent info)
                  [0..<rela_count (di_relasz info) (di_relaent info)];
            (case r of
               Inl e \<Rightarrow> Some (Inl e, mc)
             | Inr entries \<Rightarrow> do {
                 p \<leftarrow> (if di_pltrelsz info > 0 \<and> di_jmprel info \<noteq> 0
                      then read_relas cr3 mc (di_jmprel info) (di_relaent info)
                        [0..<rela_count (di_pltrelsz info) (di_relaent info)]
                      else Some (Inr []));
                 (case p of
                    Inl e \<Rightarrow> Some (Inl e, mc)
                  | Inr plt \<Rightarrow> do {
                      (r, mc) \<leftarrow> apply_rela_table (\<lambda>_. None) (write_user_u64 cr3) (entries @ plt)
                        load_bias allow_irelative mc;
                      Some (map_sum (\<lambda>_. RelocFailed) id r, mc) }) }) }) })"

subsection \<open>Images\<close>

fun map_segments ::
  "bytes \<Rightarrow> Elf64Ehdr \<Rightarrow> u64 \<Rightarrow> nat list \<Rightarrow> AddressSpace \<Rightarrow> Machine \<Rightarrow> ((ElfError, unit) result \<times> AddressSpace \<times> Machine) run" where
  "map_segments data hdr load_bias [] space mc = Some (Inr (), space, mc)"
| "map_segments data hdr load_bias (i # is) space mc = do {
     r \<leftarrow> phdr_at data hdr (of_nat i);
     (case r of
        Inl e \<Rightarrow> Some (Inl (elf_error_from e), space, mc)
      | Inr ph \<Rightarrow>
          if p_type ph = PT_LOAD then do {
            (r, space, mc) \<leftarrow> map_segment space data ph load_bias mc;
            (case r of
               Inl e \<Rightarrow> Some (Inl e, space, mc)
             | Inr _ \<Rightarrow> map_segments data hdr load_bias is space mc) }
          else map_segments data hdr load_bias is space mc) }"

definition map_image ::
  "AddressSpace \<Rightarrow> bytes \<Rightarrow> Elf64Ehdr \<Rightarrow> u64 \<Rightarrow> bool \<Rightarrow> Machine \<Rightarrow> ((ElfError, LoadedElf) result \<times> AddressSpace \<times> Machine) run" where
  "map_image space data hdr load_bias is_interp mc = do {
     (r, space, mc) \<leftarrow> map_segments data hdr load_bias (phdr_indices hdr) space mc;
     (case r of
        Inl e \<Rightarrow> Some (Inl e, space, mc)
      | Inr _ \<Rightarrow> do {
          v \<leftarrow> phdr_vaddr_in_image data hdr load_bias;
          (va, mc) \<leftarrow> (case v of
             Inr va \<Rightarrow> Some (Inr va, mc)
           | Inl _ \<Rightarrow> map_phdr_copy space data hdr load_bias mc);
          (case va of
             Inl e \<Rightarrow> Some (Inl e, space, mc)
           | Inr phdr_va \<Rightarrow> do {
               (r, mc) \<leftarrow> apply_relocations space data hdr load_bias is_interp mc;
               Some (map_sum id (\<lambda>_. \<lparr>le_entry = e_entry hdr + load_bias, le_phdr_vaddr = phdr_va,
                  le_phdr_count = e_phnum hdr, le_phdr_entry_size = e_phentsize hdr,
                  le_load_bias = load_bias, le_is_dynamic = is_interp\<rparr>) r, space, mc) }) }) }"

text \<open>The steps that the program and its interpreter share: parse, validate, choose the bias, map.\<close>

definition load_image ::
  "AddressSpace \<Rightarrow> bytes \<Rightarrow> bool \<Rightarrow> Machine \<Rightarrow> ((ElfError, LoadedElf) result \<times> AddressSpace \<times> Machine) run" where
  "load_image space data is_interp mc =
     (case parse_ehdr data of
        Inl e \<Rightarrow> Some (Inl (elf_error_from e), space, mc)
      | Inr hdr \<Rightarrow>
          (case validate_hdr hdr of
             Inl e \<Rightarrow> Some (Inl (elf_error_from e), space, mc)
           | Inr _ \<Rightarrow> do {
               b \<leftarrow> compute_load_bias data hdr;
               (case b of
                  Inl e \<Rightarrow> Some (Inl e, space, mc)
                | Inr load_bias \<Rightarrow> map_image space data hdr load_bias is_interp mc) }))"

definition load_executable ::
  "(bytes \<Rightarrow> bytes option) \<Rightarrow> AddressSpace \<Rightarrow> bytes \<Rightarrow> Machine \<Rightarrow>
   ((ElfError, LoadedElf) result \<times> AddressSpace \<times> Machine) run" where
  "load_executable read_path space data mc = do {
     (r, space, mc) \<leftarrow> load_image space data False mc;
     (case r of
        Inl e \<Rightarrow> Some (Inl e, space, mc)
      | Inr loaded \<Rightarrow> do {
          p \<leftarrow> extract_interp_path data (ehdr_of (take EHDR_SIZE data));
          (case p of
             Inl e \<Rightarrow> Some (Inl (elf_error_from e), space, mc)
           | Inr None \<Rightarrow> Some (Inr loaded, space, mc)
           | Inr (Some path) \<Rightarrow>
               (case read_path path of
                  None \<Rightarrow> Some (Inl InterpMissing, space, mc)
                | Some interp_data \<Rightarrow> do {
                    (r, space, mc) \<leftarrow> load_image space interp_data True mc;
                    Some (map_sum id (\<lambda>i. loaded\<lparr>le_entry := le_entry i, le_phdr_vaddr := le_phdr_vaddr i,
                      le_phdr_count := le_phdr_count i, le_phdr_entry_size := le_phdr_entry_size i,
                      le_is_dynamic := True\<rparr>) r, space, mc) })) }) }"

definition init_user_heap ::
  "AddressSpace \<Rightarrow> u64 \<Rightarrow> Machine \<Rightarrow> ((ElfError, u64) result \<times> AddressSpace \<times> Machine) run" where
  "init_user_heap space brk_limit mc = (
     let heap_len = align_up (brk_limit - USER_HEAP_BASE) PAGE_SIZE in do {
     (r, t) \<leftarrow> vma_insert (as_vma space) (vma_new USER_HEAP_BASE heap_len (PROT_USER OR PROT_READ OR PROT_WRITE)
       (MAP_PRIVATE OR MAP_ANONYMOUS) Heap);
     (case r of
        Inl _ \<Rightarrow> Some (Inl MapFailed, space\<lparr>as_vma := t\<rparr>, mc)
      | Inr _ \<Rightarrow> do {
          (f, g) \<leftarrow> alloc_frame (as_numa_node space) (mc_frames mc);
          (case f of
             None \<Rightarrow> Some (Inl MapFailed, space\<lparr>as_vma := t\<rparr>, mc\<lparr>mc_frames := g\<rparr>)
           | Some frame \<Rightarrow> do {
               (r, mc) \<leftarrow> map_page (as_page_table space) USER_HEAP_BASE (fd_phys frame)
                 (PF_PRESENT OR PF_USER OR PF_WRITABLE OR PF_NO_EXECUTE) (mc\<lparr>mc_frames := g\<rparr>);
               Some (case r of Inl _ \<Rightarrow> Inl MapFailed | Inr _ \<Rightarrow> Inr (USER_HEAP_BASE + PAGE_SIZE),
                 space\<lparr>as_vma := t\<rparr>, mc) }) }) })"

subsection \<open>The bytes of a page\<close>

lemma unat_minus_nat:
  fixes u :: u64
  assumes "d < 2 ^ 64"
  shows "unat (u - of_nat d) = (if d \<le> unat u then unat u - d else unat u + 2 ^ 64 - d)"
proof -
  have d: "unat (of_nat d :: u64) = d" using assms by (simp add: unat_of_nat)
  show ?thesis unfolding unat_sub_if_size d by (simp add: word_size)
qed

lemma mem_write_inner:
  assumes "d + length ys \<le> length xs" and "length xs < 2 ^ 64"
  shows "mem_write (mem_write m a xs) (a + of_nat d) ys = mem_write m a (take d xs @ ys @ drop (d + length ys) xs)"
proof
  fix x
  have "d < 2 ^ 64" using assms by simp
  then have "unat (x - (a + of_nat d)) =
      (if d \<le> unat (x - a) then unat (x - a) - d else unat (x - a) + 2 ^ 64 - d)"
    unfolding diff_diff_eq [symmetric] by (rule unat_minus_nat)
  then show "mem_write (mem_write m a xs) (a + of_nat d) ys x =
      mem_write m a (take d xs @ ys @ drop (d + length ys) xs) x"
    using assms by (auto simp: mem_write_def nth_append)
qed

lemma agree_bytes:
  assumes "agree m m' {x}" and "j < 4096"
  shows "m' (x + of_nat j) = m (x + of_nat j)"
proof -
  let ?i = "j div 8" and ?r = "j mod 8"
  have i: "?i < PT_ENTRIES" using assms(2) by (simp add: PT_ENTRIES_def)
  have b: "mem_read n (x + of_nat (8 * ?i)) 8 = le_bytes 8 (cell n x ?i)" for n
    using le_bytes_of_le [of "mem_read n (x + of_nat (8 * ?i)) 8", where 'a = 64]
    by (simp add: cell_def rd64_def del: of_nat_mult)
  have "cell m' x ?i = cell m x ?i" using assms(1) i by (simp add: agree_def)
  then have "mem_read m' (x + of_nat (8 * ?i)) 8 ! ?r = mem_read m (x + of_nat (8 * ?i)) 8 ! ?r"
    by (simp only: b)
  moreover have "x + of_nat (8 * ?i) + of_nat ?r = x + of_nat j"
    by (simp only: add.assoc of_nat_add [symmetric] mult_div_mod_eq)
  ultimately show ?thesis by (simp only: mem_read_def) (simp add: nth_map_upt del: of_nat_mult)
qed

lemma patch_zeros:
  assumes "d + length ys \<le> n"
  shows "take d (replicate n 0) @ ys @ drop (d + length ys) (replicate n 0) =
    map (\<lambda>j. if d \<le> j \<and> j < d + length ys then ys ! (j - d) else 0) [0..<n]"
  by (rule nth_equalityI) (use assms in \<open>auto simp: nth_append\<close>)

lemma mem_write_zeros:
  assumes "d + length ys \<le> n" and "n < 2 ^ 64"
  shows "mem_write (mem_write m a (replicate n 0)) (a + of_nat d) ys =
    mem_write m a (map (\<lambda>j. if d \<le> j \<and> j < d + length ys then ys ! (j - d) else 0) [0..<n])"
proof -
  have "mem_write (mem_write m a (replicate n 0)) (a + of_nat d) ys =
      mem_write m a (take d (replicate n 0) @ ys @ drop (d + length ys) (replicate n 0))"
    by (rule mem_write_inner) (use assms in simp_all)
  then show ?thesis by (simp only: patch_zeros [OF assms(1)])
qed

text \<open>The byte of the image at address \<open>a\<close>: a byte of the file, or zero.\<close>

definition image_byte :: "bytes \<Rightarrow> Elf64Phdr \<Rightarrow> u64 \<Rightarrow> nat \<Rightarrow> u8" where
  "image_byte data ph base a =
     (if unat base \<le> a \<and> a < unat base + unat (p_filesz ph) then data ! (unat (p_offset ph) + (a - unat base)) else 0)"

definition image_page :: "bytes \<Rightarrow> Elf64Phdr \<Rightarrow> u64 \<Rightarrow> nat \<Rightarrow> bytes" where
  "image_page data ph base a = map (\<lambda>j. image_byte data ph base (a + j)) [0..<4096]"

text \<open>A segment whose bytes are in the file and whose addresses do not wrap around.\<close>

definition segment_fits :: "bytes \<Rightarrow> Elf64Phdr \<Rightarrow> u64 \<Rightarrow> bool" where
  "segment_fits data ph base \<longleftrightarrow> length data < 2 ^ 63 \<and> unat (p_offset ph) + unat (p_filesz ph) \<le> length data \<and>
     unat base + unat (p_filesz ph) < 2 ^ 47"

lemma copy_page_image:
  assumes "segment_fits data ph base" and "unat vaddr < 2 ^ 47"
  shows "copy_page data ph base vaddr phys (zero_page m phys) =
    Some (mem_write m phys (image_page data ph base (unat vaddr)))"
proof -
  let ?B = "unat base" and ?F = "unat (p_filesz ph)" and ?O = "unat (p_offset ph)" and ?V = "unat vaddr"
  have fits: "length data < 2 ^ 63" "?O + ?F \<le> length data" "?B + ?F < 2 ^ 47"
    using assms(1) by (simp_all add: segment_fits_def)
  have BF: "unat (base + p_filesz ph) = ?B + ?F" using fits unat_add_small [of base "p_filesz ph"] by simp
  have hi: "unat (vaddr + PAGE_SIZE) = ?V + 4096"
    using assms(2) unat_add_small [of vaddr PAGE_SIZE] by (simp add: PAGE_SIZE_def)
  let ?lo = "max base vaddr" and ?hi = "min (base + p_filesz ph) (vaddr + PAGE_SIZE)"
  have lo: "unat ?lo = max ?B ?V" by (auto simp: max_def word_le_nat_alt)
  have hi': "unat ?hi = min (?B + ?F) (?V + 4096)" by (auto simp: min_def word_le_nat_alt BF hi)
  show ?thesis
  proof (cases "?lo < ?hi")
    case False
    then have "image_byte data ph base (?V + j) = 0" if "j < 4096" for j
      using that by (auto simp: image_byte_def word_less_nat_alt lo hi')
    then have "image_page data ph base ?V = map (\<lambda>_. 0) [0..<4096]"
      unfolding image_page_def by (intro map_cong refl) (simp only: set_upt atLeastLessThan_iff)
    then have "image_page data ph base ?V = replicate 4096 0" by (simp only: map_replicate_const length_upt diff_zero)
    then show ?thesis unfolding copy_page_def Let_def if_not_P [OF False] by (simp add: zero_page_def)
  next
    case True
    define d where "d = max ?B ?V - ?V"
    define n where "n = min (?B + ?F) (?V + 4096) - max ?B ?V"
    define k where "k = ?O + (max ?B ?V - ?B)"
    have lt: "max ?B ?V < min (?B + ?F) (?V + 4096)" using True by (simp add: word_less_nat_alt lo hi')
    have dn: "d + n \<le> 4096" "k + n \<le> length data" using lt fits(2) by (auto simp: d_def n_def k_def)
    have len: "unat (?hi - ?lo) = n" using True by (simp add: unat_sub n_def lo hi' less_imp_le)
    have "unat (?lo - base) = max ?B ?V - ?B" by (simp add: unat_sub lo)
    then have src: "unat (p_offset ph + (?lo - base)) = k"
      using unat_add_small [of "p_offset ph" "?lo - base"] dn fits(1) by (simp add: k_def)
    have "unat (p_offset ph + (?lo - base) + (?hi - ?lo)) = k + n"
      using unat_add_small [of "p_offset ph + (?lo - base)" "?hi - ?lo"] dn fits(1) by (simp add: src len)
    moreover have "unat (of_nat (length data) :: u64) = length data" using fits(1) by (simp add: unat_of_nat)
    ultimately have le: "p_offset ph + (?lo - base) + (?hi - ?lo) \<le> of_nat (length data)"
      using dn by (simp add: word_le_nat_alt)
    have "of_nat (unat (?lo - vaddr)) = ?lo - vaddr" by simp
    moreover have "unat (?lo - vaddr) = d" by (simp add: unat_sub lo d_def)
    ultimately have off: "?lo - vaddr = of_nat d" by simp
    have "read_at data (p_offset ph + (?lo - base)) (unat (?hi - ?lo)) = Some (take n (drop k data))"
      unfolding len using dn by (simp add: read_at_in src)
    then have c: "copy_page data ph base vaddr phys (zero_page m phys) =
        Some (mem_write (zero_page m phys) (phys + of_nat d) (take n (drop k data)))"
      using True le by (simp add: copy_page_def Let_def off)
    have l: "length (take n (drop k data)) = n" using dn by simp
    have "image_byte data ph base (?V + j) = (if d \<le> j \<and> j < d + n then take n (drop k data) ! (j - d) else 0)"
      if "j < 4096" for j
    proof (cases "d \<le> j \<and> j < d + n")
      case True
      then have "k + (j - d) = ?O + (?V + j - ?B)" "?B \<le> ?V + j" "?V + j < ?B + ?F"
        using lt by (auto simp: d_def n_def k_def max_def split: if_splits)
      moreover have "take n (drop k data) ! (j - d) = data ! (k + (j - d))"
      proof -
        have "j - d < n" "k \<le> length data" using True dn by auto
        then show ?thesis by (simp only: nth_take nth_drop)
      qed
      ultimately show ?thesis using True by (simp add: image_byte_def)
    next
      case False
      then have "\<not> (?B \<le> ?V + j \<and> ?V + j < ?B + ?F)" using lt that by (auto simp: d_def n_def)
      then show ?thesis using False by (auto simp: image_byte_def)
    qed
    then have "image_page data ph base ?V =
        map (\<lambda>j. if d \<le> j \<and> j < d + n then take n (drop k data) ! (j - d) else 0) [0..<4096]"
      unfolding image_page_def by (intro map_cong refl) (simp only: set_upt atLeastLessThan_iff)
    note img = this
    have "d + length (take n (drop k data)) \<le> 4096" unfolding l by (rule dn)
    moreover have "(4096 :: nat) < 2 ^ 64" by simp
    ultimately have w: "mem_write (mem_write m phys (replicate 4096 0)) (phys + of_nat d) (take n (drop k data)) =
        mem_write m phys (map (\<lambda>j. if d \<le> j \<and> j < d + n then take n (drop k data) ! (j - d) else 0) [0..<4096])"
      using mem_write_zeros [of d "take n (drop k data)" 4096 m phys] unfolding l by blast
    show ?thesis using c unfolding zero_page_def w img .
  qed
qed

end
