(* ===== verification/Elf_Image.thy ===== *)
theory Elf_Image
  imports Elf_Load
begin

text \<open>
  What loading a segment does to the memory of the process (\<open>map_segment\<close> of
  \<^verbatim>\<open>src/kernel/src/mm/elf/load.rs\<close>): one round of the loop, then the loop by induction on the number of
  pages, then the whole segment, stated for every byte address.
\<close>

subsection \<open>Pages of the lower half\<close>

lemma index_div: "unat (drop_bit k v AND 0x1FF) = unat v div 2 ^ k mod 512" for v :: u64
proof -
  have "drop_bit k v AND 0x1FF = take_bit 9 (drop_bit k v)"
    by (simp add: take_bit_eq_mask mask_eq_exp_minus_1)
  moreover have t: "take_bit LENGTH(64) (unat v) = unat v"
    using unat_bound [of v] by (simp add: take_bit_nat_eq_self_iff)
  ultimately have "unat (drop_bit k v AND 0x1FF) = take_bit 9 (drop_bit k (unat v))"
    by (simp only: unsigned_take_bit_eq unsigned_drop_bit_eq)
  then show ?thesis by (simp add: take_bit_eq_mod drop_bit_eq_div)
qed

lemma page_indices_unat:
  "page_indices v = page_indices w \<longleftrightarrow>
    (\<forall>k \<in> {39, 30, 21, 12}. unat v div 2 ^ k mod 512 = unat w div 2 ^ k mod 512)"
  by (auto simp: page_indices_def index_div [symmetric] dest: unsigned_word_eqI)

lemma page_indices_low:
  assumes "unat v < 2 ^ 48" and "unat w < 2 ^ 48"
  shows "page_indices v = page_indices w \<longleftrightarrow> unat v div 4096 = unat w div 4096"
proof
  assume "unat v div 4096 = unat w div 4096"
  moreover have "n div 2 ^ 39 = n div 4096 div 2 ^ 27" "n div 2 ^ 30 = n div 4096 div 2 ^ 18"
    "n div 2 ^ 21 = n div 4096 div 2 ^ 9" "n div 2 ^ 12 = n div 4096" for n :: nat
    by (simp_all add: div_mult2_eq [symmetric])
  ultimately show "page_indices v = page_indices w" unfolding page_indices_unat by auto
next
  assume "page_indices v = page_indices w"
  then have e: "unat v div 2 ^ k mod 512 = unat w div 2 ^ k mod 512" if "k \<in> {39, 30, 21, 12}" for k
    using that unfolding page_indices_unat by blast
  have split: "n div 4096 = ((n div 2 ^ 39 mod 512 * 512 + n div 2 ^ 30 mod 512) * 512 + n div 2 ^ 21 mod 512) * 512
      + n div 2 ^ 12 mod 512" if "n < 2 ^ 48" for n :: nat
  proof -
    have "n div 2 ^ 39 < 512" using that by (simp add: less_mult_imp_div_less)
    then have a: "n div 2 ^ 39 mod 512 = n div 2 ^ 39" by simp
    have "n div 2 ^ 30 = n div 2 ^ 39 * 512 + n div 2 ^ 30 mod 512"
      using div_mult_mod_eq [of "n div 2 ^ 30" 512] by (simp add: div_mult2_eq [symmetric])
    moreover have "n div 2 ^ 21 = n div 2 ^ 30 * 512 + n div 2 ^ 21 mod 512"
      using div_mult_mod_eq [of "n div 2 ^ 21" 512] by (simp add: div_mult2_eq [symmetric])
    moreover have "n div 4096 = n div 2 ^ 21 * 512 + n div 2 ^ 12 mod 512"
      using div_mult_mod_eq [of "n div 2 ^ 12" 512] by (simp add: div_mult2_eq [symmetric])
    ultimately show ?thesis unfolding a by simp
  qed
  show "unat v div 4096 = unat w div 4096"
    unfolding split [OF assms(1)] split [OF assms(2)] by (simp only: e insert_iff simp_thms)
qed

subsection \<open>One page\<close>

text \<open>The frame at \<open>phys\<close> holds the page of the image at address \<open>a\<close>.\<close>

definition holds_page :: "mem \<Rightarrow> u64 \<Rightarrow> bytes \<Rightarrow> Elf64Phdr \<Rightarrow> u64 \<Rightarrow> nat \<Rightarrow> bool" where
  "holds_page m phys data ph base a \<longleftrightarrow> (\<forall>j < 4096. m (phys + of_nat j) = image_byte data ph base (a + j))"

lemma holds_page_agree:
  "holds_page m phys data ph base a \<Longrightarrow> agree m m' {phys} \<Longrightarrow> holds_page m' phys data ph base a"
  unfolding holds_page_def using agree_bytes by metis

lemma holds_page_write: "holds_page (mem_write m phys (image_page data ph base a)) phys data ph base a"
proof -
  have l: "length (image_page data ph base a) = 4096"
    unfolding image_page_def by (simp only: length_map length_upt diff_zero)
  have "mem_write m phys (image_page data ph base a) (phys + of_nat j) = image_byte data ph base (a + j)"
    if j: "j < 4096" for j
  proof -
    have u: "unat (phys + of_nat j - phys) = j" using j by (simp add: unat_of_nat)
    have "image_page data ph base a ! j = image_byte data ph base (a + j)"
      unfolding image_page_def using j by (simp only: nth_map length_upt nth_upt) simp
    then show ?thesis unfolding mem_write_def u l using j by (simp only: if_True)
  qed
  then show ?thesis unfolding holds_page_def by blast
qed

lemma segment_flags_ok: "valid_flags (segment_flags ph)" "segment_flags ph AND PF_PRESENT \<noteq> 0"
  by (auto simp: segment_flags_def valid_flags_def Let_def page_flag_defs PAGE_FLAGS_ALL_def)

text \<open>
  A round of the loop either fails, for lack of memory or because the page is mapped already, or
  maps a fresh frame that holds the page and goes on.
\<close>

lemma segment_round:
  fixes space :: AddressSpace
  defines "t \<equiv> as_page_table space"
  assumes ok: "vm_ok t mc" and fits: "segment_fits data ph base" and v: "unat vaddr < 2 ^ 47" "vaddr < seg_end"
  obtains (fail) mc' where "segment_loop space data ph base seg_end vaddr mc = Some (Inl MapFailed, mc')"
      "vm_ok t mc'" "card (frames_avail (mc_frames mc)) < 4 \<or> pte (mc_ram mc) t vaddr AND PF_PRESENT \<noteq> 0"
  | (mapped) phys mc' where
      "segment_loop space data ph base seg_end vaddr mc = segment_loop space data ph base seg_end (vaddr + PAGE_SIZE) mc'"
      "vm_ok t mc'" "is_page phys" "data_page t mc' phys" "pte (mc_ram mc) t vaddr AND PF_PRESENT = 0"
      "card (frames_avail (mc_frames mc)) \<le> card (frames_avail (mc_frames mc')) + 4"
      "holds_page (mc_ram mc') phys data ph base (unat vaddr)"
      "\<And>w. pte (mc_ram mc') t w = (if page_indices w = page_indices vaddr then phys OR segment_flags ph else pte (mc_ram mc) t w)"
      "\<And>x. data_page t mc x \<Longrightarrow> agree (mc_ram mc) (mc_ram mc') {x} \<and> data_page t mc' x"
proof -
  have ready: "frames_ready (mc_frames mc)" using ok by (simp add: vm_ok_def)
  from alloc_frame_cases [OF this, of "as_numa_node space"] obtain f g where
    al: "alloc_frame (as_numa_node space) (mc_frames mc) = Some (f, g)"
    and none: "f = None \<Longrightarrow> g = mc_frames mc \<and> frames_avail (mc_frames mc) = {}"
    by (auto split: option.splits)
  show thesis
  proof (cases f)
    case None
    then have "segment_loop space data ph base seg_end vaddr mc = Some (Inl MapFailed, mc)"
      using v(2) al none by (subst segment_loop.simps) simp
    then show thesis using ok none [OF None] by (intro fail [of mc]) simp_all
  next
    case (Some d)
    let ?p = "fd_phys d" and ?i = "image_page data ph base (unat vaddr)"
    define mcb where "mcb = mc\<lparr>mc_frames := g, mc_ram := mem_write (mc_ram mc) (fd_phys d) ?i\<rparr>"
    have l: "length ?i = 4096" unfolding image_page_def by (simp only: length_map length_upt diff_zero)
    note fr = fresh_frame [OF ok al [unfolded Some] l, folded mcb_def]
    from map_page_pte [OF fr(1), of vaddr ?p "segment_flags ph"] obtain r mc' where
      m: "map_page t vaddr ?p (segment_flags ph) mcb = Some (r, mc')" "vm_ok t mc'"
        "frames_avail (mc_frames mc') \<subseteq> frames_avail (mc_frames mcb)"
      and r: "case r of
         Inr _ \<Rightarrow> pte (mc_ram mcb) t vaddr AND PF_PRESENT = 0 \<and>
           (\<forall>w. pte (mc_ram mc') t w =
              (if page_indices w = page_indices vaddr then ?p OR segment_flags ph else pte (mc_ram mcb) t w)) \<and>
           (\<forall>x. data_page t mcb x \<longrightarrow> agree (mc_ram mcb) (mc_ram mc') {x} \<and> data_page t mc' x)
       | Inl e \<Rightarrow> (\<forall>w. pte (mc_ram mc') t w = pte (mc_ram mcb) t w) \<and>
           (e = NoMemory \<and> card (frames_avail (mc_frames mcb)) < 3 \<or>
            e = AlreadyMapped \<and> pte (mc_ram mcb) t vaddr AND PF_PRESENT \<noteq> 0)"
      by blast
    have loop: "segment_loop space data ph base seg_end vaddr mc = (case r of
        Inl _ \<Rightarrow> Some (Inl MapFailed, mc')
      | Inr _ \<Rightarrow> segment_loop space data ph base seg_end (vaddr + PAGE_SIZE) mc')"
      using v(2) al Some m(1) copy_page_image [OF fits v(1), of ?p "mc_ram mc"]
      by (subst segment_loop.simps) (simp add: t_def mcb_def)
    have c: "card (frames_avail (mc_frames mc)) = card (frames_avail (mc_frames mcb)) + 1"
    proof -
      have "finite (frames_avail (mc_frames mc))" using ready by (rule fs.avail_finite)
      then show ?thesis using card_Suc_Diff1 [OF _ fr(4)] fr(5) by (simp add: mcb_def del: card_Diff_insert)
    qed
    show thesis
    proof (cases r)
      case (Inl e)
      then show thesis using r loop m(2) fr(2) c by (intro fail [of mc']) auto
    next
      case (Inr u)
      have "holds_page (mc_ram mc') ?p data ph base (unat vaddr)"
      proof (rule holds_page_agree)
        show "holds_page (mc_ram mcb) ?p data ph base (unat vaddr)"
          unfolding mcb_def using holds_page_write by simp
        show "agree (mc_ram mcb) (mc_ram mc') {?p}" using Inr r fr(6) by simp
      qed
      moreover have "agree (mc_ram mc) (mc_ram mc') {x} \<and> data_page t mc' x" if "data_page t mc x" for x
        using fr(7) [OF that] Inr r by (simp add: agree_def)
      moreover have "card (frames_avail (mc_frames mc)) \<le> card (frames_avail (mc_frames mc')) + 4"
        using map_page_uses [OF fr(1) m(1)] c by simp
      ultimately show thesis using Inr r loop m(2) fr(2,3,6) by (intro mapped [of mc' ?p]) auto
    qed
  qed
qed

subsection \<open>The loop over the pages\<close>

definition page_addr :: "nat \<Rightarrow> nat \<Rightarrow> u64" where
  "page_addr a i = of_nat (a + 4096 * i)"

lemma page_addr_0: "page_addr a 0 = of_nat a"
  by (simp add: page_addr_def)

lemma page_addr_Suc: "page_addr a (Suc i) = page_addr (a + 4096) i"
  by (simp add: page_addr_def add.assoc)

lemma page_addr_next: "page_addr a 0 + PAGE_SIZE = page_addr (a + 4096) 0"
  by (simp add: page_addr_def PAGE_SIZE_def)

lemma unat_page_addr: "a + 4096 * i < 2 ^ 64 \<Longrightarrow> unat (page_addr a i) = a + 4096 * i"
  unfolding page_addr_def by (simp only: unat_of_nat) simp

lemma low_page_neq:
  assumes "a + 4096 * i < 2 ^ 48" and "i \<noteq> j" and "a + 4096 * j < 2 ^ 48"
  shows "page_indices (page_addr a i) \<noteq> page_indices (page_addr a j)"
proof -
  have u: "unat (page_addr a i) = a + 4096 * i" "unat (page_addr a j) = a + 4096 * j"
    using assms by (simp_all add: unat_page_addr)
  show ?thesis
    using page_indices_low [of "page_addr a i" "page_addr a j"] assms unfolding u by simp
qed

text \<open>The \<open>n\<close> pages from \<open>a\<close> on are mapped with the flags of the segment and hold the image.\<close>

definition page_loaded :: "u64 \<Rightarrow> Machine \<Rightarrow> bytes \<Rightarrow> Elf64Phdr \<Rightarrow> u64 \<Rightarrow> u64 \<Rightarrow> bool" where
  "page_loaded t mc data ph base v \<longleftrightarrow> (\<exists>phys. is_page phys \<and> data_page t mc phys \<and>
     pte (mc_ram mc) t v = phys OR segment_flags ph \<and> holds_page (mc_ram mc) phys data ph base (unat v))"

lemma page_loaded_kept:
  assumes "page_loaded t mc data ph base v" and "pte (mc_ram mc') t v = pte (mc_ram mc) t v"
    and "\<And>x. data_page t mc x \<Longrightarrow> agree (mc_ram mc) (mc_ram mc') {x} \<and> data_page t mc' x"
  shows "page_loaded t mc' data ph base v"
  using assms holds_page_agree unfolding page_loaded_def by metis

text \<open>What the loop has done, or why it stopped.\<close>

definition loop_result ::
  "u64 \<Rightarrow> bytes \<Rightarrow> Elf64Phdr \<Rightarrow> u64 \<Rightarrow> nat \<Rightarrow> nat \<Rightarrow> Machine \<Rightarrow> (ElfError, unit) result \<Rightarrow> Machine \<Rightarrow> bool" where
  "loop_result t data ph base a n mc r mc' \<longleftrightarrow> vm_ok t mc' \<and>
    (case r of
       Inl e \<Rightarrow> e = MapFailed \<and> (card (frames_avail (mc_frames mc)) < 4 * n \<or>
         (\<exists>i < n. pte (mc_ram mc) t (page_addr a i) AND PF_PRESENT \<noteq> 0))
     | Inr _ \<Rightarrow> (\<forall>i < n. page_loaded t mc' data ph base (page_addr a i) \<and>
           pte (mc_ram mc) t (page_addr a i) AND PF_PRESENT = 0) \<and>
         (\<forall>w. (\<forall>i < n. page_indices w \<noteq> page_indices (page_addr a i)) \<longrightarrow>
            pte (mc_ram mc') t w = pte (mc_ram mc) t w) \<and>
         (\<forall>x. data_page t mc x \<longrightarrow> agree (mc_ram mc) (mc_ram mc') {x} \<and> data_page t mc' x))"

lemma loop_result_step:
  assumes low: "a + 4096 * Suc n \<le> 2 ^ 47"
    and first: "page_loaded t mc1 data ph base (page_addr a 0)" "pte (mc_ram mc) t (page_addr a 0) AND PF_PRESENT = 0"
    and pt: "\<And>w. page_indices w \<noteq> page_indices (page_addr a 0) \<Longrightarrow> pte (mc_ram mc1) t w = pte (mc_ram mc) t w"
    and frames: "card (frames_avail (mc_frames mc)) \<le> card (frames_avail (mc_frames mc1)) + 4"
    and dp: "\<And>x. data_page t mc x \<Longrightarrow> agree (mc_ram mc) (mc_ram mc1) {x} \<and> data_page t mc1 x"
    and rest: "loop_result t data ph base (a + 4096) n mc1 r mc'"
  shows "loop_result t data ph base a (Suc n) mc r mc'"
proof -
  have neq: "page_indices (page_addr (a + 4096) i) \<noteq> page_indices (page_addr a 0)" if "i < n" for i
    unfolding page_addr_Suc [symmetric] using that low by (intro low_page_neq) auto
  have later: "pte (mc_ram mc1) t (page_addr (a + 4096) i) = pte (mc_ram mc) t (page_addr (a + 4096) i)" if "i < n" for i
    by (rule pt) (rule neq [OF that])
  have ok: "vm_ok t mc'" using rest by (simp add: loop_result_def)
  show ?thesis
  proof (cases r)
    case (Inl e)
    then show ?thesis using rest later frames
      unfolding loop_result_def Ex_less_Suc2 page_addr_Suc by auto
  next
    case (Inr u)
    have pages: "\<forall>i < n. page_loaded t mc' data ph base (page_addr (a + 4096) i) \<and>
        pte (mc_ram mc1) t (page_addr (a + 4096) i) AND PF_PRESENT = 0"
      and other: "\<And>w. \<forall>i < n. page_indices w \<noteq> page_indices (page_addr (a + 4096) i) \<Longrightarrow>
        pte (mc_ram mc') t w = pte (mc_ram mc1) t w"
      and kept: "\<And>x. data_page t mc1 x \<Longrightarrow> agree (mc_ram mc1) (mc_ram mc') {x} \<and> data_page t mc' x"
      using rest Inr by (auto simp: loop_result_def)
    have "pte (mc_ram mc') t (page_addr a 0) = pte (mc_ram mc1) t (page_addr a 0)"
      using neq by (intro other) metis
    then have "page_loaded t mc' data ph base (page_addr a 0)"
      using page_loaded_kept [OF first(1)] kept by blast
    moreover have "agree (mc_ram mc) (mc_ram mc') {x} \<and> data_page t mc' x" if "data_page t mc x" for x
      using dp [OF that] kept [of x] by (simp add: agree_def)
    ultimately show ?thesis using Inr ok pages later first(2) other pt
      unfolding loop_result_def All_less_Suc2 page_addr_Suc by auto
  qed
qed

lemma segment_loop_loads:
  fixes space :: AddressSpace
  defines "t \<equiv> as_page_table space"
  assumes "vm_ok t mc" and "segment_fits data ph base" and "a + 4096 * n \<le> 2 ^ 47"
  shows "\<exists>r mc'. segment_loop space data ph base (page_addr a n) (page_addr a 0) mc = Some (r, mc') \<and>
    loop_result t data ph base a n mc r mc'"
  using assms(2,4)
proof (induction n arbitrary: a mc)
  case 0
  have "segment_loop space data ph base (page_addr a 0) (page_addr a 0) mc = Some (Inr (), mc)"
    by (subst segment_loop.simps) simp
  then show ?case using 0 by (simp add: loop_result_def agree_def)
next
  case (Suc n)
  have "a < 2 ^ 47" "a + 4096 * Suc n < 2 ^ 64" using Suc.prems(2) by simp_all
  then have u: "unat (page_addr a 0) = a" "unat (page_addr a (Suc n)) = a + 4096 * Suc n"
    using unat_page_addr [of a 0] unat_page_addr [of a "Suc n"] by simp_all
  have v: "unat (page_addr a 0) < 2 ^ 47" "page_addr a 0 < page_addr a (Suc n)"
    unfolding word_less_nat_alt u using \<open>a < 2 ^ 47\<close> by simp_all
  show ?case
  proof (rule segment_round [OF Suc.prems(1) [unfolded t_def] assms(3) v, folded t_def], goal_cases)
    case (1 mc')
    then have "loop_result t data ph base a (Suc n) mc (Inl MapFailed) mc'"
      unfolding loop_result_def Ex_less_Suc2 by auto
    with 1(1) show ?case by blast
  next
    case (2 phys mc1)
    have "a + 4096 + 4096 * n \<le> 2 ^ 47" using Suc.prems(2) by simp
    from Suc.IH [OF 2(2) this] obtain r mc' where
      IH: "segment_loop space data ph base (page_addr (a + 4096) n) (page_addr (a + 4096) 0) mc1 = Some (r, mc')"
        "loop_result t data ph base (a + 4096) n mc1 r mc'" by blast
    have "page_loaded t mc1 data ph base (page_addr a 0)"
      using 2(3,4,7,8) unfolding page_loaded_def by auto
    then have "loop_result t data ph base a (Suc n) mc r mc'"
      using Suc.prems(2) 2(5,6,8,9) IH(2) by (intro loop_result_step) auto
    moreover have "segment_loop space data ph base (page_addr a (Suc n)) (page_addr a 0) mc = Some (r, mc')"
      using 2(1) IH(1) unfolding page_addr_next page_addr_Suc by simp
    ultimately show ?case by blast
  qed
qed

subsection \<open>The segment\<close>

text \<open>First and last page of a segment, and the number of its pages.\<close>

definition seg_first :: "u64 \<Rightarrow> nat" where
  "seg_first base = unat base div 4096 * 4096"

definition seg_last :: "Elf64Phdr \<Rightarrow> u64 \<Rightarrow> nat" where
  "seg_last ph base = (unat base + unat (p_memsz ph) + 4095) div 4096 * 4096"

lemma segment_ends:
  assumes "unat base + unat (p_memsz ph) + 4095 < 2 ^ 47"
  obtains n where "seg_last ph base = seg_first base + 4096 * n"
    "align_down base PAGE_SIZE = page_addr (seg_first base) 0"
    "align_up (base + p_memsz ph) PAGE_SIZE = page_addr (seg_first base) n" "seg_last ph base \<le> 2 ^ 47"
proof -
  define n where "n = (unat base + unat (p_memsz ph) + 4095) div 4096 - unat base div 4096"
  have le: "unat base div 4096 \<le> (unat base + unat (p_memsz ph) + 4095) div 4096" by (rule div_le_mono) simp
  then have l: "seg_last ph base = seg_first base + 4096 * n" by (simp add: seg_last_def seg_first_def n_def algebra_simps)
  have b: "seg_last ph base \<le> 2 ^ 47" "seg_last ph base < 2 ^ 64" using assms by (simp_all add: seg_last_def)
  have "unat (align_down base PAGE_SIZE) = unat (page_addr (seg_first base) 0)"
    using unat_page_addr [of "seg_first base" 0] b(2) l by (simp add: unat_page seg_first_def)
  then have d: "align_down base PAGE_SIZE = page_addr (seg_first base) 0" by (rule unsigned_word_eqI)
  have "unat (base + p_memsz ph) = unat base + unat (p_memsz ph)"
    using assms unat_add_small [of base "p_memsz ph"] by simp
  then have "unat (align_up (base + p_memsz ph) PAGE_SIZE) = seg_last ph base"
    using unat_align_up [of 12 "base + p_memsz ph"] assms by (simp add: PAGE_SIZE_def seg_last_def)
  also have "\<dots> = unat (page_addr (seg_first base) n)"
    using unat_page_addr [of "seg_first base" n] b(2) l by simp
  finally have "align_up (base + p_memsz ph) PAGE_SIZE = page_addr (seg_first base) n" by (rule unsigned_word_eqI)
  with l d b(1) show thesis by (intro that)
qed

lemma page_of:
  assumes "4096 dvd s" and "s \<le> unat a" and "unat a < s + 4096 * n"
  obtains i where "i < n" "align_down a PAGE_SIZE = page_addr s i"
proof -
  define i where "i = unat a div 4096 - s div 4096"
  have "s div 4096 \<le> unat a div 4096" using assms(2) by (rule div_le_mono)
  then have e: "unat a div 4096 * 4096 = s + 4096 * i" using assms(1) by (auto simp: i_def algebra_simps)
  have "unat a div 4096 * 4096 \<le> unat a" by simp
  then have "s + 4096 * i < s + 4096 * n" "s + 4096 * i < 2 ^ 64"
    using assms(3) unat_bound [of a] unfolding e by simp_all
  moreover from this have "unat (align_down a PAGE_SIZE) = unat (page_addr s i)"
    using unat_page_addr [of s i] e by (simp add: unat_page)
  ultimately show thesis by (intro that [of i]) (simp_all add: unsigned_word_eqI)
qed

lemma page_loaded_byte:
  assumes "page_loaded t mc data ph base (align_down a PAGE_SIZE)"
  shows "\<exists>phys. resolve t (align_down a PAGE_SIZE) mc = Some (Some (phys, segment_flags ph)) \<and>
    mc_ram mc (phys + (a - align_down a PAGE_SIZE)) = image_byte data ph base (unat a)"
proof -
  obtain phys where p: "is_page phys" "pte (mc_ram mc) t (align_down a PAGE_SIZE) = phys OR segment_flags ph"
    "holds_page (mc_ram mc) phys data ph base (unat (align_down a PAGE_SIZE))"
    using assms by (auto simp: page_loaded_def)
  have "resolve t (align_down a PAGE_SIZE) mc = Some (Some (phys, segment_flags ph))"
    using p(2) entry_fields [OF p(1) segment_flags_ok(1)] segment_flags_ok(2) by (simp add: resolve_pte Let_def)
  moreover have "of_nat (unat (a - align_down a PAGE_SIZE)) = a - align_down a PAGE_SIZE" by simp
  then have o: "a - align_down a PAGE_SIZE = of_nat (unat a mod 4096)" by (simp only: unat_page_off)
  have "mc_ram mc (phys + of_nat (unat a mod 4096)) = image_byte data ph base (unat a div 4096 * 4096 + unat a mod 4096)"
    using p(3) unfolding holds_page_def unat_page by simp
  then have "mc_ram mc (phys + (a - align_down a PAGE_SIZE)) = image_byte data ph base (unat a)"
    unfolding o by (simp only: div_mult_mod_eq)
  ultimately show ?thesis by blast
qed

lemma page_outside:
  assumes "unat a < 2 ^ 48" and "\<not> (seg_first base \<le> unat a \<and> unat a < seg_first base + 4096 * n)"
    and "seg_first base + 4096 * n \<le> 2 ^ 47" and i: "i < n"
  shows "page_indices a \<noteq> page_indices (page_addr (seg_first base) i)"
proof -
  let ?s = "seg_first base"
  have u: "unat (page_addr ?s i) = ?s + 4096 * i" using i assms(3) by (intro unat_page_addr) simp
  have "(unat base div 4096 * 4096 + 4096 * i) div 4096 = unat base div 4096 + i" by simp
  then have "unat a div 4096 \<noteq> (?s + 4096 * i) div 4096"
    using assms(2) i unfolding seg_first_def by (auto simp: div_nat_eqI not_le not_less dividend_less_times_div)
  then show ?thesis using page_indices_low [of a "page_addr ?s i"] assms(1,3) i unfolding u by simp
qed

lemma pages_of_segment:
  assumes "loop_result t data ph base (seg_first base) n mc (Inr ()) mc'" and "seg_first base + 4096 * n \<le> 2 ^ 47"
  shows "seg_first base \<le> unat a \<Longrightarrow> unat a < seg_first base + 4096 * n \<Longrightarrow>
      \<exists>phys. resolve t (align_down a PAGE_SIZE) mc' = Some (Some (phys, segment_flags ph)) \<and>
        mc_ram mc' (phys + (a - align_down a PAGE_SIZE)) = image_byte data ph base (unat a)"
    and "unat a < 2 ^ 48 \<Longrightarrow> \<not> (seg_first base \<le> unat a \<and> unat a < seg_first base + 4096 * n) \<Longrightarrow>
      resolve t a mc' = resolve t a mc"
proof -
  assume "seg_first base \<le> unat a" "unat a < seg_first base + 4096 * n"
  moreover have "4096 dvd seg_first base" by (simp add: seg_first_def)
  ultimately obtain i where "i < n" "align_down a PAGE_SIZE = page_addr (seg_first base) i" by (metis page_of)
  then show "\<exists>phys. resolve t (align_down a PAGE_SIZE) mc' = Some (Some (phys, segment_flags ph)) \<and>
      mc_ram mc' (phys + (a - align_down a PAGE_SIZE)) = image_byte data ph base (unat a)"
    using assms(1) by (intro page_loaded_byte) (simp add: loop_result_def)
next
  assume "unat a < 2 ^ 48" "\<not> (seg_first base \<le> unat a \<and> unat a < seg_first base + 4096 * n)"
  then show "resolve t a mc' = resolve t a mc"
    using assms page_outside by (simp add: loop_result_def resolve_pte)
qed

text \<open>
  The bytes of a segment have to be in the file. For a segment whose file offset is so large that
  the end of its first page wraps around, the check of the copy passes and the copy reads outside
  the file.
\<close>

lemma copy_page_wraps:
  assumes "unat base + 4096 < 2 ^ 64" and "0 < unat (p_filesz ph)" "unat (p_filesz ph) \<le> 4096"
    and "2 ^ 64 \<le> unat (p_offset ph) + unat (p_filesz ph)"
    and "unat (p_offset ph) + unat (p_filesz ph) - 2 ^ 64 \<le> length data" "length data < unat (p_offset ph)"
  shows "copy_page data ph base base phys m = None"
proof -
  have u: "unat (base + p_filesz ph) = unat base + unat (p_filesz ph)" "unat (base + PAGE_SIZE) = unat base + 4096"
    using assms(1-3) unat_add_small [of base "p_filesz ph"] unat_add_small [of base PAGE_SIZE]
    by (simp_all add: PAGE_SIZE_def)
  have hi: "min (base + p_filesz ph) (base + PAGE_SIZE) = base + p_filesz ph"
    by (rule min_absorb1) (simp only: word_le_nat_alt u add_le_cancel_left assms(3))
  have lt: "base < base + p_filesz ph" using assms(2) by (simp only: word_less_nat_alt u less_add_same_cancel1)
  have lo: "max base base = base" by simp
  have "unat (p_offset ph + p_filesz ph) = unat (p_offset ph) + unat (p_filesz ph) - 2 ^ 64"
    using assms(4) unat_bound [of "p_offset ph"] unat_bound [of "p_filesz ph"]
    by (simp add: unat_word_ariths(1) mod_nat_eqI)
  moreover have "unat (of_nat (length data) :: u64) = length data"
    using assms(6) unat_bound [of "p_offset ph"] by (simp add: unat_of_nat)
  ultimately have le: "p_offset ph + p_filesz ph \<le> of_nat (length data)" using assms(5) by (simp add: word_le_nat_alt)
  have "read_at data (p_offset ph) (unat (p_filesz ph)) = None" using assms(6) by (intro read_at_out) simp
  then show ?thesis unfolding copy_page_def Let_def lo hi if_P [OF lt] using le by simp
qed

lemma map_segment_wraps:
  assumes "base = p_vaddr ph + load_bias" and "unat base mod 4096 = 0"
    and "unat base + unat (p_memsz ph) + 4095 < 2 ^ 47" and "p_filesz ph \<le> p_memsz ph"
    and "0 < unat (p_filesz ph)" "unat (p_filesz ph) \<le> 4096"
    and "2 ^ 64 \<le> unat (p_offset ph) + unat (p_filesz ph)"
    and "unat (p_offset ph) + unat (p_filesz ph) - 2 ^ 64 \<le> length data" "length data < unat (p_offset ph)"
    and "alloc_frame (as_numa_node space) (mc_frames mc) = Some (Some f, g)"
  shows "map_segment space data ph load_bias mc = None"
proof -
  obtain n where n: "seg_last ph base = seg_first base + 4096 * n" "align_down base PAGE_SIZE = page_addr (seg_first base) 0"
    "align_up (base + p_memsz ph) PAGE_SIZE = page_addr (seg_first base) n" "seg_last ph base \<le> 2 ^ 47"
    using assms(3) by (rule segment_ends)
  have s: "seg_first base = unat base" using div_mult_mod_eq [of "unat base" 4096] assms(2) by (simp add: seg_first_def)
  then have b: "align_down base PAGE_SIZE = base" using n(2) by (simp add: page_addr_def)
  have m: "0 < unat (p_memsz ph)" using assms(4,5) by (simp add: word_le_nat_alt)
  have "unat base + unat (p_memsz ph) \<le> seg_last ph base" by (simp add: seg_last_def)
  then have "unat base < unat (page_addr (seg_first base) n)"
    using n(1,4) m s unat_page_addr [of "seg_first base" n] by simp
  then have lt: "base < align_up (base + p_memsz ph) PAGE_SIZE" by (simp only: n(3) word_less_nat_alt)
  have "copy_page data ph base base p' m' = None" for p' m'
    using assms(3,5-9) by (intro copy_page_wraps) simp_all
  then have "segment_loop space data ph base (align_up (base + p_memsz ph) PAGE_SIZE) base mc = None"
    using lt assms(10) by (subst segment_loop.simps) simp
  then show ?thesis by (simp add: map_segment_def Let_def b assms(1) [symmetric])
qed

text \<open>
  C3: Loading a segment puts the file into memory. For a segment whose bytes are in the file and whose
  addresses are in the lower half, \<open>map_segment\<close> always returns, keeps the page tables and the areas
  well formed, and either fails with \<open>MapFailed\<close>, which happens only when one of its pages was mapped
  before or when fewer than four frames per page are free, or succeeds. Then every address of its
  pages is mapped with the flags of the segment and holds the byte of the file that belongs there,
  or zero where the file has none, every other address translates as before, and every byte of a
  page frame that was in use for data (neither free nor a table of this address space) is unchanged.
\<close>

theorem map_segment_loads:
  fixes space :: AddressSpace
  assumes "base = p_vaddr ph + load_bias" and "t = as_page_table space"
    and "vm_ok t mc" and "vt_ok (as_vma space)"
    and "length data < 2 ^ 63" and "unat (p_offset ph) + unat (p_filesz ph) \<le> length data"
    and "unat base + unat (p_filesz ph) < 2 ^ 47" and "unat base + unat (p_memsz ph) + 4095 < 2 ^ 47"
  shows "\<exists>r space' mc'. map_segment space data ph load_bias mc = Some (r, space', mc') \<and>
    vm_ok t mc' \<and> vt_ok (as_vma space') \<and>
    (case r of
       Inl e \<Rightarrow> e = MapFailed \<and>
         (4 * (seg_last ph base - seg_first base) > 4096 * card (frames_avail (mc_frames mc)) \<or>
          (\<exists>a. seg_first base \<le> unat a \<and> unat a < seg_last ph base \<and> resolve t a mc \<noteq> Some None))
     | Inr _ \<Rightarrow>
         (\<forall>a. seg_first base \<le> unat a \<and> unat a < seg_last ph base \<longrightarrow>
            (\<exists>phys. resolve t (align_down a PAGE_SIZE) mc' = Some (Some (phys, segment_flags ph)) \<and>
               mc_ram mc' (phys + (a - align_down a PAGE_SIZE)) =
                 (if unat base \<le> unat a \<and> unat a < unat base + unat (p_filesz ph)
                  then data ! (unat (p_offset ph) + (unat a - unat base)) else 0))) \<and>
         (\<forall>a. unat a < 2 ^ 48 \<and> \<not> (seg_first base \<le> unat a \<and> unat a < seg_last ph base) \<longrightarrow>
            resolve t a mc' = resolve t a mc) \<and>
         (\<forall>x j. data_page t mc x \<and> j < 4096 \<longrightarrow> mc_ram mc' (x + of_nat j) = mc_ram mc (x + of_nat j)))"
proof -
  let ?s = "seg_first base"
  have fits: "segment_fits data ph base" using assms(5-7) by (simp add: segment_fits_def)
  obtain n where n: "seg_last ph base = ?s + 4096 * n" "align_down base PAGE_SIZE = page_addr ?s 0"
    "align_up (base + p_memsz ph) PAGE_SIZE = page_addr ?s n" "seg_last ph base \<le> 2 ^ 47"
    using assms(8) by (rule segment_ends)
  have low: "?s + 4096 * n \<le> 2 ^ 47" using n(1,4) by simp
  obtain r mc' where l: "segment_loop space data ph base (page_addr ?s n) (page_addr ?s 0) mc = Some (r, mc')"
    and res: "loop_result t data ph base ?s n mc r mc'"
    using segment_loop_loads [OF assms(3) [unfolded assms(2)] fits low] unfolding assms(2) by blast
  have ok: "vm_ok t mc'" using res by (simp add: loop_result_def)
  show ?thesis
  proof (cases r)
    case (Inl e)
    then have "map_segment space data ph load_bias mc = Some (Inl e, space, mc')"
      using l by (simp add: map_segment_def Let_def assms(1) [symmetric] n(2,3))
    moreover have "resolve t (page_addr ?s i) mc \<noteq> Some None \<and> ?s \<le> unat (page_addr ?s i) \<and> unat (page_addr ?s i) < seg_last ph base"
      if "i < n" "pte (mc_ram mc) t (page_addr ?s i) AND PF_PRESENT \<noteq> 0" for i
      using that low unat_page_addr [of ?s i] by (simp add: resolve_pte Let_def n(1))
    ultimately show ?thesis using res Inl ok assms(4) n(1) unfolding loop_result_def by fastforce
  next
    case (Inr u)
    obtain q vt where q: "vma_insert (as_vma space) (vma_new (page_addr ?s 0) (page_addr ?s n - page_addr ?s 0)
        (segment_prot ph) MAP_PRIVATE FileBacked) = Some (q, vt)" "vt_ok vt"
      using vma_insert_cases [OF assms(4)] by blast
    then have m: "map_segment space data ph load_bias mc = Some (Inr (), space\<lparr>as_vma := vt\<rparr>, mc')"
      using l Inr by (simp add: map_segment_def Let_def assms(1) [symmetric] n(2,3))
    have "loop_result t data ph base ?s n mc (Inr ()) mc'" using res Inr by simp
    note pages = pages_of_segment [OF this low]
    have "mc_ram mc' (x + of_nat j) = mc_ram mc (x + of_nat j)" if "data_page t mc x" "j < 4096" for x j
      using res Inr that by (intro agree_bytes) (simp_all add: loop_result_def)
    then show ?thesis
      using m ok q(2) pages unfolding n(1) image_byte_def by auto
  qed
qed

definition loader_space :: AddressSpace where
  "loader_space = \<lparr>as_id = 1, as_page_table = 0x1000, as_vma = vma_tree_new, as_numa_node = 0\<rparr>"

theorem map_segment_loads_witness:
  "\<exists>space' mc' phys. map_segment loader_space [0xEB, 0xFE] (tiny_phdr\<lparr>p_offset := 0\<rparr>) 0 fresh_machine =
      Some (Inr (), space', mc') \<and>
    resolve 0x1000 0x400000 mc' = Some (Some (phys, segment_flags (tiny_phdr\<lparr>p_offset := 0\<rparr>))) \<and>
    mc_ram mc' (phys + 1) = 0xFE"
proof -
  let ?ph = "tiny_phdr\<lparr>p_offset := 0\<rparr>"
  have f: "seg_first 0x400000 = 0x400000" "seg_last ?ph 0x400000 = 0x401000"
    by (simp_all add: seg_first_def seg_last_def tiny_phdr_def)
  have t: "as_page_table loader_space = 0x1000" "vt_ok (as_vma loader_space)"
    by (simp_all add: loader_space_def vma_tree_new_ok)
  have p: "align_down 0x400001 PAGE_SIZE = 0x400000" by (simp add: align_down_def PAGE_SIZE_def)
  have none: "resolve 0x1000 a fresh_machine = Some None" for a by (simp add: resolve_pte fresh_machine_pte)
  have h: "0x400000 = p_vaddr ?ph + 0" "0x1000 = as_page_table loader_space" "length [0xEB, 0xFE :: u8] < 2 ^ 63"
    "unat (p_offset ?ph) + unat (p_filesz ?ph) \<le> length [0xEB, 0xFE :: u8]"
    "unat (0x400000 :: u64) + unat (p_filesz ?ph) < 2 ^ 47" "unat (0x400000 :: u64) + unat (p_memsz ?ph) + 4095 < 2 ^ 47"
    by (simp_all add: tiny_phdr_def loader_space_def)
  note seg = map_segment_loads [OF h(1,2) fresh_machine_ok t(2) h(3-6), unfolded f]
  from seg obtain r space' mc' where m: "map_segment loader_space [0xEB, 0xFE] ?ph 0 fresh_machine = Some (r, space', mc')"
    and r: "case r of
       Inl e \<Rightarrow> e = MapFailed \<and> (4 * (0x401000 - 0x400000) > 4096 * card (frames_avail (mc_frames fresh_machine)) \<or>
          (\<exists>a. 0x400000 \<le> unat a \<and> unat a < 0x401000 \<and> resolve 0x1000 a fresh_machine \<noteq> Some None))
     | Inr _ \<Rightarrow> (\<forall>a. 0x400000 \<le> unat a \<and> unat a < 0x401000 \<longrightarrow>
         (\<exists>phys. resolve 0x1000 (align_down a PAGE_SIZE) mc' = Some (Some (phys, segment_flags ?ph)) \<and>
            mc_ram mc' (phys + (a - align_down a PAGE_SIZE)) =
              (if unat (0x400000 :: u64) \<le> unat a \<and> unat a < unat (0x400000 :: u64) + unat (p_filesz ?ph)
               then [0xEB, 0xFE] ! (unat (p_offset ?ph) + (unat a - unat (0x400000 :: u64))) else 0))) \<and>
         (\<forall>a. unat a < 2 ^ 48 \<and> \<not> (0x400000 \<le> unat a \<and> unat a < 0x401000) \<longrightarrow>
            resolve 0x1000 a mc' = resolve 0x1000 a fresh_machine) \<and>
         (\<forall>x j. data_page 0x1000 fresh_machine x \<and> j < 4096 \<longrightarrow>
            mc_ram mc' (x + of_nat j) = mc_ram fresh_machine (x + of_nat j))"
    by blast
  show ?thesis
  proof (cases r)
    case (Inl e)
    then show ?thesis using r fresh_machine_avail by (simp add: none)
  next
    case (Inr u)
    have "0x400000 \<le> unat (0x400001 :: u64) \<and> unat (0x400001 :: u64) < 0x401000" by simp
    then obtain phys where "resolve 0x1000 (align_down 0x400001 PAGE_SIZE) mc' = Some (Some (phys, segment_flags ?ph))"
      "mc_ram mc' (phys + (0x400001 - align_down 0x400001 PAGE_SIZE)) = (if unat (0x400000 :: u64) \<le> unat (0x400001 :: u64) \<and>
           unat (0x400001 :: u64) < unat (0x400000 :: u64) + unat (p_filesz ?ph)
         then [0xEB, 0xFE] ! (unat (p_offset ?ph) + (unat (0x400001 :: u64) - unat (0x400000 :: u64))) else 0)"
      using r unfolding Inr sum.case by blast
    then have "resolve 0x1000 0x400000 mc' = Some (Some (phys, segment_flags ?ph)) \<and> mc_ram mc' (phys + 1) = 0xFE"
      unfolding p by (simp add: tiny_phdr_def)
    then show ?thesis using m Inr by auto
  qed
qed

end
