(* ===== verification/Ring.thy ===== *)
theory Ring
  imports Bytes
begin

text \<open>
  Ring buffers. Pipes and Unix sockets each have their own copy of the same ring: an array, a
  head, a tail and a length, a loop that appends bytes while there is room, and a loop that takes
  bytes while there are any. The locale \<open>ring\<close> is what their code has in common, the locale \<open>fifo\<close>
  is what a byte queue promises; every ring is such a queue.
\<close>

subsection \<open>Byte queues\<close>

datatype fifo_op = Put bytes | Get nat

text \<open>Running a sequence of operations on a queue: the bytes that went in and the bytes that came
  out, in order.\<close>

fun fifo_run ::
  "('r \<Rightarrow> bytes \<Rightarrow> (nat \<times> 'r) run) \<Rightarrow> ('r \<Rightarrow> bytes \<Rightarrow> ((nat \<times> bytes) \<times> 'r) run) \<Rightarrow> 'r \<Rightarrow> fifo_op list \<Rightarrow>
   (bytes \<times> bytes \<times> 'r) run" where
  "fifo_run put get r [] = Some ([], [], r)"
| "fifo_run put get r (Put bs # ops) = do {
     (n, r) \<leftarrow> put r bs;
     (is, os, r) \<leftarrow> fifo_run put get r ops;
     Some (take n bs @ is, os, r) }"
| "fifo_run put get r (Get n # ops) = do {
     ((n, out), r) \<leftarrow> get r (replicate n 0);
     (is, os, r) \<leftarrow> fifo_run put get r ops;
     Some (is, take n out @ os, r) }"

locale fifo =
  fixes cap :: nat
    and ok :: "'r \<Rightarrow> bool"
    and contents :: "'r \<Rightarrow> bytes"
    and put :: "'r \<Rightarrow> bytes \<Rightarrow> (nat \<times> 'r) run"
    and get :: "'r \<Rightarrow> bytes \<Rightarrow> ((nat \<times> bytes) \<times> 'r) run"
  assumes bounded: "ok r \<Longrightarrow> length (contents r) \<le> cap"
    and put_law: "ok r \<Longrightarrow> n = min (length bs) (cap - length (contents r)) \<Longrightarrow>
      \<exists>r'. put r bs = Some (n, r') \<and> ok r' \<and> contents r' = contents r @ take n bs"
    and get_law: "ok r \<Longrightarrow> n = min (length out) (length (contents r)) \<Longrightarrow>
      \<exists>r'. get r out = Some ((n, take n (contents r) @ drop n out), r') \<and> ok r' \<and> contents r' = drop n (contents r)"
begin

text \<open>First in, first out: what came out and what is still inside is what was inside and what
  went in, in this order.\<close>

lemma run_fifo:
  assumes "ok r"
  shows "\<exists>is os r'. fifo_run put get r ops = Some (is, os, r') \<and> ok r' \<and>
    os @ contents r' = contents r @ is"
  using assms
proof (induction ops arbitrary: r)
  case Nil
  then show ?case by simp
next
  case (Cons op ops)
  show ?case
  proof (cases op)
    case (Put bs)
    obtain n r1 where p: "put r bs = Some (n, r1)" "ok r1" "contents r1 = contents r @ take n bs"
      using put_law [OF Cons.prems refl] by blast
    obtain "is" os r' where "fifo_run put get r1 ops = Some (is, os, r')" "ok r'" "os @ contents r' = contents r1 @ is"
      using Cons.IH [OF p(2)] by blast
    then show ?thesis using p Put by simp
  next
    case (Get m)
    let ?n = "min m (length (contents r))"
    obtain r1 where g: "get r (replicate m 0) = Some ((?n, take ?n (contents r) @ drop ?n (replicate m 0)), r1)"
      "ok r1" "contents r1 = drop ?n (contents r)"
      using get_law [OF Cons.prems, of ?n "replicate m 0"] by auto
    obtain "is" os r' where "fifo_run put get r1 ops = Some (is, os, r')" "ok r'" "os @ contents r' = contents r1 @ is"
      using Cons.IH [OF g(2)] by blast
    then show ?thesis using g Get by simp
  qed
qed

end

subsection \<open>Rings\<close>

locale ring =
  fixes cap :: nat
    and buf :: "'r \<Rightarrow> bytes" and hd_pos tl_pos len :: "'r \<Rightarrow> nat"
    and upd :: "'r \<Rightarrow> bytes \<Rightarrow> nat \<Rightarrow> nat \<Rightarrow> nat \<Rightarrow> 'r"
    and put_loop :: "'r \<Rightarrow> bytes \<Rightarrow> nat \<Rightarrow> (nat \<times> 'r) run"
    and get_loop :: "'r \<Rightarrow> bytes \<Rightarrow> nat \<Rightarrow> ((nat \<times> bytes) \<times> 'r) run"
  assumes cap: "0 < cap"
    and upd_fields: "buf (upd r b h t l) = b" "hd_pos (upd r b h t l) = h" "tl_pos (upd r b h t l) = t" "len (upd r b h t l) = l"
    and put_loop_eq: "put_loop r bs w = (case bs of [] \<Rightarrow> Some (w, r) | b # bs' \<Rightarrow>
       if len r \<ge> cap then Some (w, r)
       else do {
         bf \<leftarrow> set_idx (buf r) (tl_pos r) b;
         put_loop (upd r bf (hd_pos r) ((tl_pos r + 1) mod cap) (len r + 1)) bs' (w + 1) })"
    and get_loop_eq: "get_loop r out n =
       (if n < length out \<and> len r > 0 then do {
          b \<leftarrow> idx (buf r) (hd_pos r);
          out \<leftarrow> set_idx out n b;
          get_loop (upd r (buf r) ((hd_pos r + 1) mod cap) (tl_pos r) (len r - 1)) out (n + 1) }
        else Some ((n, out), r))"
begin

definition ok :: "'r \<Rightarrow> bool" where
  "ok r \<longleftrightarrow> length (buf r) = cap \<and> hd_pos r < cap \<and> len r \<le> cap \<and> tl_pos r = (hd_pos r + len r) mod cap"

definition contents :: "'r \<Rightarrow> bytes" where
  "contents r = map (\<lambda>i. buf r ! ((hd_pos r + i) mod cap)) [0..<len r]"

lemma length_contents: "length (contents r) = len r"
  by (simp add: contents_def)

lemma mod_less_neq:
  assumes "i < j" and "j < cap"
  shows "(h + i) mod cap \<noteq> (h + j) mod cap"
proof
  assume "(h + i) mod cap = (h + j) mod cap"
  then have "cap dvd (h + j) - (h + i)" using assms(1) mod_eq_dvd_iff_nat [of "h + i" "h + j" cap] by simp
  then show False using assms by (auto dest: dvd_imp_le)
qed

lemma put_one:
  fixes b :: u8
  assumes "ok r" and "len r < cap"
  defines "r' \<equiv> upd r ((buf r)[tl_pos r := b]) (hd_pos r) ((tl_pos r + 1) mod cap) (len r + 1)"
  shows "ok r'" and "contents r' = contents r @ [b]"
proof -
  have r: "length (buf r) = cap" "hd_pos r < cap" "tl_pos r = (hd_pos r + len r) mod cap"
    using assms(1) by (simp_all add: ok_def)
  have t: "tl_pos r < cap" using r(3) cap by simp
  have "(tl_pos r + 1) mod cap = (hd_pos r + (len r + 1)) mod cap"
    unfolding r(3) by (simp add: mod_simps)
  then show "ok r'" using r assms(2) by (simp add: ok_def r'_def upd_fields)
  have "(buf r)[tl_pos r := b] ! ((hd_pos r + i) mod cap) = buf r ! ((hd_pos r + i) mod cap)" if "i < len r" for i
    using mod_less_neq [OF that assms(2)] unfolding r(3) by (metis nth_list_update_neq)
  then show "contents r' = contents r @ [b]"
    using r t by (simp add: contents_def r'_def upd_fields)
qed

lemma get_one:
  assumes "ok r" and "0 < len r"
  defines "r' \<equiv> upd r (buf r) ((hd_pos r + 1) mod cap) (tl_pos r) (len r - 1)"
  shows "ok r'" and "contents r = buf r ! hd_pos r # contents r'"
proof -
  have r: "length (buf r) = cap" "hd_pos r < cap" "len r \<le> cap" "tl_pos r = (hd_pos r + len r) mod cap"
    using assms(1) by (simp_all add: ok_def)
  have "((hd_pos r + 1) mod cap + (len r - 1)) mod cap = (hd_pos r + len r) mod cap"
    using mod_add_left_eq [of "hd_pos r + 1" cap "len r - 1"] assms(2) by simp
  then show "ok r'" using r cap by (simp add: ok_def r'_def upd_fields)
  have "[0..<len r] = 0 # map Suc [0..<len r - 1]"
    using assms(2) by (simp add: upt_conv_Cons map_Suc_upt)
  moreover have "(Suc (hd_pos r) mod cap + i) mod cap = Suc (hd_pos r + i) mod cap" for i
    by (metis add_Suc mod_add_left_eq)
  ultimately show "contents r = buf r ! hd_pos r # contents r'"
    using r by (simp add: contents_def r'_def upd_fields)
qed

lemma put_loop_spec:
  assumes "ok r"
  shows "\<exists>r'. put_loop r bs w = Some (w + min (length bs) (cap - len r), r') \<and> ok r' \<and>
    contents r' = contents r @ take (min (length bs) (cap - len r)) bs"
  using assms
proof (induction bs arbitrary: r w)
  case Nil
  then show ?case by (simp add: put_loop_eq [of _ "[]"])
next
  case (Cons b bs)
  show ?case
  proof (cases "len r < cap")
    case False
    then show ?thesis using Cons.prems by (simp add: put_loop_eq [of _ "b # bs"])
  next
    case True
    let ?r = "upd r ((buf r)[tl_pos r := b]) (hd_pos r) ((tl_pos r + 1) mod cap) (len r + 1)"
    note one = put_one [OF Cons.prems True, of b]
    have "tl_pos r < length (buf r)" using Cons.prems cap by (simp add: ok_def)
    then have "put_loop r (b # bs) w = put_loop ?r bs (w + 1)"
      using True by (simp add: put_loop_eq [of _ "b # bs"])
    moreover have "cap - len r = Suc (cap - len ?r)" using True by (simp add: upd_fields)
    ultimately show ?thesis using Cons.IH [OF one(1), of "w + 1"] one(2) by simp
  qed
qed

lemma get_loop_spec:
  assumes "ok r" and "n \<le> length out"
  shows "\<exists>r'. get_loop r out n = Some ((n + min (length out - n) (len r),
      take n out @ take (length out - n) (contents r) @ drop (n + len r) out), r') \<and> ok r' \<and>
    contents r' = drop (length out - n) (contents r)"
  using assms
proof (induction "len r" arbitrary: r out n)
  case 0
  then show ?case by (simp add: get_loop_eq [of r] contents_def)
next
  case (Suc l)
  show ?case
  proof (cases "n < length out")
    case False
    then show ?thesis using Suc.prems by (simp add: get_loop_eq [of r])
  next
    case True
    define r1 where "r1 = upd r (buf r) ((hd_pos r + 1) mod cap) (tl_pos r) (len r - 1)"
    let ?out = "out[n := buf r ! hd_pos r]"
    have pos: "0 < len r" using Suc.hyps(2) by simp
    note one = get_one [OF Suc.prems(1) pos, folded r1_def]
    have l: "l = len r1" "len r = Suc (len r1)" using Suc.hyps(2) by (simp_all add: r1_def upd_fields)
    have "hd_pos r < length (buf r)" using Suc.prems(1) by (simp add: ok_def)
    then have "get_loop r out n = get_loop r1 ?out (n + 1)"
      using True pos by (simp add: get_loop_eq [of r] r1_def)
    moreover have "take (n + 1) ?out = take n out @ [buf r ! hd_pos r]"
      using True by (simp add: take_Suc_conv_app_nth)
    moreover have "length out - n = Suc (length out - Suc n)" using True by simp
    ultimately show ?thesis
      using Suc.hyps(1) [OF l(1) one(1), of "n + 1" ?out] one(2) True l(2) by simp
  qed
qed

end

sublocale ring \<subseteq> queue: fifo cap ok contents "\<lambda>r bs. put_loop r bs 0" "\<lambda>r out. get_loop r out 0"
proof unfold_locales
  fix r n and bs out :: bytes
  assume r: "ok r"
  then show "length (contents r) \<le> cap" by (simp add: length_contents ok_def)
  show "\<exists>r'. put_loop r bs 0 = Some (n, r') \<and> ok r' \<and> contents r' = contents r @ take n bs"
    if "n = min (length bs) (cap - length (contents r))"
    using put_loop_spec [OF r, of bs 0] that by (simp add: length_contents)
  show "\<exists>r'. get_loop r out 0 = Some ((n, take n (contents r) @ drop n out), r') \<and> ok r' \<and>
      contents r' = drop n (contents r)"
    if "n = min (length out) (length (contents r))"
    using get_loop_spec [OF r, of 0 out] that by (cases "length out \<le> len r") (simp_all add: length_contents min_def)
qed

end
