(* ===== verification/Pipe.thy ===== *)
theory Pipe
  imports Ring Sched Errno
begin

text \<open>
  Anonymous pipes and named FIFOs: \<^verbatim>\<open>src/kernel/src/ipc/pipe.rs\<close> and \<^verbatim>\<open>src/kernel/src/ipc/fifo.rs\<close>, over
  the scheduler and the wait queues. The statics \<open>PIPES\<close>, \<open>NEXT_PIPE\<close> and \<open>FIFOS\<close> extend the kernel
  record. The lemmas show that the bytes of a pipe come out in the order they went in, what a read
  and a write return on every branch that does not wait, and that a read or a write that has to
  wait never returns.
\<close>

subsection \<open>One pipe\<close>

definition PIPE_BUF :: nat where "PIPE_BUF = 4096"

record PipeInner =
  pi_buf :: bytes
  pi_head :: nat
  pi_tail :: nat
  pi_len :: nat
  pi_read_refs :: u32
  pi_write_refs :: u32
  pi_read_waiters :: WaitQueue
  pi_write_waiters :: WaitQueue

definition pipe_inner_new :: PipeInner where
  "pipe_inner_new = \<lparr>pi_buf = replicate PIPE_BUF 0, pi_head = 0, pi_tail = 0, pi_len = 0,
     pi_read_refs = 0, pi_write_refs = 0, pi_read_waiters = wq_new, pi_write_waiters = wq_new\<rparr>"

fun write_once_loop :: "PipeInner \<Rightarrow> bytes \<Rightarrow> nat \<Rightarrow> (nat \<times> PipeInner) run" where
  "write_once_loop p [] written = Some (written, p)"
| "write_once_loop p (b # bs) written =
     (if pi_len p \<ge> PIPE_BUF then Some (written, p)
      else do {
        bf \<leftarrow> set_idx (pi_buf p) (pi_tail p) b;
        write_once_loop (p\<lparr>pi_buf := bf, pi_tail := (pi_tail p + 1) mod PIPE_BUF, pi_len := pi_len p + 1\<rparr>)
          bs (written + 1) })"

definition write_once :: "PipeInner \<Rightarrow> bytes \<Rightarrow> (nat \<times> PipeInner) run" where
  "write_once p data = write_once_loop p data 0"

function read_once_loop :: "PipeInner \<Rightarrow> bytes \<Rightarrow> nat \<Rightarrow> ((nat \<times> bytes) \<times> PipeInner) run" where
  "read_once_loop p out n =
     (if n < length out \<and> pi_len p > 0 then do {
        b \<leftarrow> idx (pi_buf p) (pi_head p);
        out \<leftarrow> set_idx out n b;
        read_once_loop (p\<lparr>pi_head := (pi_head p + 1) mod PIPE_BUF, pi_len := pi_len p - 1\<rparr>) out (n + 1) }
      else Some ((n, out), p))"
  by pat_completeness auto
termination
  by (relation "measure (\<lambda>(p, out, n). pi_len p)") auto

declare read_once_loop.simps [simp del]

definition read_once :: "PipeInner \<Rightarrow> bytes \<Rightarrow> ((nat \<times> bytes) \<times> PipeInner) run" where
  "read_once p out = read_once_loop p out 0"

subsection \<open>The table of pipes\<close>

definition MAX_PIPES :: nat where "MAX_PIPES = 64"
definition MAX_FIFOS :: nat where "MAX_FIFOS = 32"

type_synonym PipeId = u32

record FifoEntry =
  fe_path :: bytes
  fe_path_len :: nat
  fe_pipe :: PipeId

record Pipes = Kernel +
  kn_pipes :: "PipeInner option list"
  kn_next_pipe :: u32
  kn_fifos :: "FifoEntry option list"

type_synonym ('a, 'z) pipe_op = "'z Pipes_scheme \<Rightarrow> ('a \<times> 'z Pipes_scheme) run"

datatype PipeError = BadFd | Epipe | WouldBlock

definition with_pipe :: "PipeId \<Rightarrow> (PipeInner \<Rightarrow> ('a \<times> PipeInner, 'z) pipe_op) \<Rightarrow> ('a option, 'z) pipe_op" where
  "with_pipe pid f k = do {
     k \<leftarrow> acquire PIPES k;
     slot \<leftarrow> idx (kn_pipes k) (unat pid);
     (case slot of
        None \<Rightarrow> Some (None, release PIPES k)
      | Some p \<Rightarrow> do {
          ((a, p), k) \<leftarrow> f p k;
          ps \<leftarrow> set_idx (kn_pipes k) (unat pid) (Some p);
          Some (Some a, release PIPES (k\<lparr>kn_pipes := ps\<rparr>)) }) }"

definition pipe_create :: "((unit, PipeId \<times> PipeId) result, 'z) pipe_op" where
  "pipe_create k = do {
     k \<leftarrow> acquire NEXT_PIPE k;
     let pid = kn_next_pipe k;
     let k = k\<lparr>kn_next_pipe := kn_next_pipe k + 1\<rparr>;
     (if unat pid \<ge> MAX_PIPES then Some (Inl (), release NEXT_PIPE k)
      else do {
        k \<leftarrow> acquire PIPES k;
        let inner = pipe_inner_new\<lparr>pi_read_refs := 1, pi_write_refs := 1\<rparr>;
        ps \<leftarrow> set_idx (kn_pipes k) (unat pid) (Some inner);
        Some (Inr (pid, pid), release NEXT_PIPE (release PIPES (k\<lparr>kn_pipes := ps\<rparr>))) }) }"

definition dup_read :: "PipeId \<Rightarrow> (unit, 'z) pipe_op" where
  "dup_read pid k = do {
     (_, k) \<leftarrow> with_pipe pid (\<lambda>p k. Some (((), p\<lparr>pi_read_refs := pi_read_refs p + 1\<rparr>), k)) k;
     Some ((), k) }"

definition dup_write :: "PipeId \<Rightarrow> (unit, 'z) pipe_op" where
  "dup_write pid k = do {
     (_, k) \<leftarrow> with_pipe pid (\<lambda>p k. Some (((), p\<lparr>pi_write_refs := pi_write_refs p + 1\<rparr>), k)) k;
     Some ((), k) }"

definition close_read :: "PipeId \<Rightarrow> (unit, 'z) pipe_op" where
  "close_read pid k = do {
     (_, k) \<leftarrow> with_pipe pid (\<lambda>p k. do {
         let p = (if pi_read_refs p > 0 then p\<lparr>pi_read_refs := pi_read_refs p - 1\<rparr> else p);
         (if pi_read_refs p = 0 then do {
            (q, k) \<leftarrow> wq_wake_all (pi_write_waiters p) k;
            Some (((), p\<lparr>pi_write_waiters := q\<rparr>), k) }
          else Some (((), p), k)) }) k;
     Some ((), k) }"

definition close_write :: "PipeId \<Rightarrow> (unit, 'z) pipe_op" where
  "close_write pid k = do {
     (_, k) \<leftarrow> with_pipe pid (\<lambda>p k. do {
         let p = (if pi_write_refs p > 0 then p\<lparr>pi_write_refs := pi_write_refs p - 1\<rparr> else p);
         (if pi_write_refs p = 0 then do {
            (q, k) \<leftarrow> wq_wake_all (pi_read_waiters p) k;
            Some (((), p\<lparr>pi_read_waiters := q\<rparr>), k) }
          else Some (((), p), k)) }) k;
     Some ((), k) }"

definition write_attempt :: "PipeId \<Rightarrow> bytes \<Rightarrow> ((PipeError, nat) result option, 'z) pipe_op" where
  "write_attempt pid data = with_pipe pid (\<lambda>p k.
     if pi_read_refs p = 0 then Some ((Inl Epipe, p), k)
     else do {
       (wrote, p) \<leftarrow> write_once p data;
       (if wrote > 0 then do {
          (q, k) \<leftarrow> wq_wake_one (pi_read_waiters p) k;
          Some ((Inr wrote, p\<lparr>pi_read_waiters := q\<rparr>), k) }
        else if pi_len p \<ge> PIPE_BUF then Some ((Inl WouldBlock, p), k)
        else Some ((Inr 0, p), k)) })"

definition write_wait :: "CpuContext \<Rightarrow> PipeId \<Rightarrow> (unit option, 'z) pipe_op" where
  "write_wait saved pid = with_pipe pid (\<lambda>p k.
     if pi_read_refs p = 0 then Some (((), p), k)
     else do {
       (q, k) \<leftarrow> block_on saved (pi_write_waiters p) k;
       Some (((), p\<lparr>pi_write_waiters := q\<rparr>), k) })"

partial_function (option) pipe_write ::
  "CpuContext \<Rightarrow> PipeId \<Rightarrow> bytes \<Rightarrow> ((PipeError, nat) result, 'z) pipe_op" where
  "pipe_write saved pid data k = do {
     (status, k) \<leftarrow> write_attempt pid data k;
     (case status of
        None \<Rightarrow> Some (Inl BadFd, k)
      | Some (Inr n) \<Rightarrow> Some (Inr n, k)
      | Some (Inl e) \<Rightarrow>
          if e = WouldBlock then do { (_, k) \<leftarrow> write_wait saved pid k; pipe_write saved pid data k }
          else Some (Inl e, k)) }"

definition read_attempt :: "PipeId \<Rightarrow> bytes \<Rightarrow> ((PipeError, nat) result option \<times> bytes, 'z) pipe_op" where
  "read_attempt pid out k = do {
     (r, k) \<leftarrow> with_pipe pid (\<lambda>p k.
         if pi_len p > 0 then do {
           ((n, out), p) \<leftarrow> read_once p out;
           (if n > 0 then do {
              (q, k) \<leftarrow> wq_wake_one (pi_write_waiters p) k;
              Some (((Inr n, out), p\<lparr>pi_write_waiters := q\<rparr>), k) }
            else Some (((Inr n, out), p), k)) }
         else if pi_write_refs p = 0 then Some (((Inr 0, out), p), k)
         else Some (((Inl WouldBlock, out), p), k)) k;
     Some (case r of None \<Rightarrow> (None, out) | Some (s, out) \<Rightarrow> (Some s, out), k) }"

definition read_wait :: "CpuContext \<Rightarrow> PipeId \<Rightarrow> (unit option, 'z) pipe_op" where
  "read_wait saved pid = with_pipe pid (\<lambda>p k.
     if pi_len p > 0 \<or> pi_write_refs p = 0 then Some (((), p), k)
     else do {
       (q, k) \<leftarrow> block_on saved (pi_read_waiters p) k;
       Some (((), p\<lparr>pi_read_waiters := q\<rparr>), k) })"

partial_function (option) pipe_read ::
  "CpuContext \<Rightarrow> PipeId \<Rightarrow> bytes \<Rightarrow> ((PipeError, nat) result \<times> bytes, 'z) pipe_op" where
  "pipe_read saved pid out k = do {
     ((status, out), k) \<leftarrow> read_attempt pid out k;
     (case status of
        None \<Rightarrow> Some ((Inl BadFd, out), k)
      | Some (Inr n) \<Rightarrow> Some ((Inr n, out), k)
      | Some (Inl e) \<Rightarrow>
          if e = WouldBlock then do { (_, k) \<leftarrow> read_wait saved pid k; pipe_read saved pid out k }
          else Some ((Inl e, out), k)) }"

fun pipe_err_to_errno :: "PipeError \<Rightarrow> Errno" where
  "pipe_err_to_errno BadFd = EBADF"
| "pipe_err_to_errno Epipe = EPIPE"
| "pipe_err_to_errno WouldBlock = EAGAIN"

subsection \<open>Named pipes\<close>

definition fifo_entry :: "bytes \<Rightarrow> PipeId \<Rightarrow> FifoEntry run" where
  "fifo_entry path pid = do {
     let n = min (length path) 256;
     src \<leftarrow> slice path 0 n;
     dst \<leftarrow> copy_into (replicate 256 0) 0 src;
     Some \<lparr>fe_path = dst, fe_path_len = n, fe_pipe = pid\<rparr> }"

definition mkfifo :: "bytes \<Rightarrow> ((unit, PipeId) result, 'z) pipe_op" where
  "mkfifo path k = do {
     (r, k) \<leftarrow> pipe_create k;
     (case r of
        Inl _ \<Rightarrow> Some (Inl (), k)
      | Inr (read_id, _) \<Rightarrow> do {
          k \<leftarrow> acquire FIFOS k;
          (case position (\<lambda>s. s = None) (kn_fifos k) of
             None \<Rightarrow> Some (Inl (), release FIFOS k)
           | Some i \<Rightarrow> do {
               e \<leftarrow> fifo_entry path read_id;
               Some (Inr read_id, release FIFOS (k\<lparr>kn_fifos := (kn_fifos k)[i := Some e]\<rparr>)) }) }) }"

definition fifo_matches :: "bytes \<Rightarrow> FifoEntry \<Rightarrow> bool" where
  "fifo_matches path e \<longleftrightarrow> fe_path_len e = length path \<and> take (fe_path_len e) (fe_path e) = path"

definition fifo_lookup :: "bytes \<Rightarrow> (PipeId option, 'z) pipe_op" where
  "fifo_lookup path k = do {
     k \<leftarrow> acquire FIFOS k;
     Some (map_option fe_pipe (List.find (fifo_matches path) (List.map_filter id (kn_fifos k))), release FIFOS k) }"

definition fifo_register :: "bytes \<Rightarrow> PipeId \<Rightarrow> (unit, 'z) pipe_op" where
  "fifo_register path pid k = do {
     (r, k) \<leftarrow> fifo_lookup path k;
     (if r \<noteq> None then Some ((), k)
      else do {
        k \<leftarrow> acquire FIFOS k;
        (case position (\<lambda>s. s = None) (kn_fifos k) of
           None \<Rightarrow> Some ((), release FIFOS k)
         | Some i \<Rightarrow> do {
             e \<leftarrow> fifo_entry path pid;
             Some ((), release FIFOS (k\<lparr>kn_fifos := (kn_fifos k)[i := Some e]\<rparr>)) }) }) }"

definition encode_rdev :: "PipeId \<Rightarrow> u32" where
  "encode_rdev pid = 0x1000 OR pid"

definition decode_rdev :: "u32 \<Rightarrow> PipeId option" where
  "decode_rdev rdev = (if rdev AND 0x1000 \<noteq> 0 then Some (rdev AND 0x0FFF) else None)"

subsection \<open>A pipe is a byte queue\<close>

definition pipe_ok :: "PipeInner \<Rightarrow> bool" where
  "pipe_ok p \<longleftrightarrow> length (pi_buf p) = PIPE_BUF \<and> pi_head p < PIPE_BUF \<and> pi_len p \<le> PIPE_BUF \<and>
     pi_tail p = (pi_head p + pi_len p) mod PIPE_BUF"

definition pipe_contents :: "PipeInner \<Rightarrow> bytes" where
  "pipe_contents p = map (\<lambda>i. pi_buf p ! ((pi_head p + i) mod PIPE_BUF)) [0..<pi_len p]"

interpretation pr: ring PIPE_BUF pi_buf pi_head pi_tail pi_len
  "\<lambda>p b h t l. p\<lparr>pi_buf := b, pi_head := h, pi_tail := t, pi_len := l\<rparr>" write_once_loop read_once_loop
proof unfold_locales
  show "write_once_loop p bs w = (case bs of [] \<Rightarrow> Some (w, p) | b # bs' \<Rightarrow>
       if pi_len p \<ge> PIPE_BUF then Some (w, p)
       else do {
         bf \<leftarrow> set_idx (pi_buf p) (pi_tail p) b;
         write_once_loop (p\<lparr>pi_buf := bf, pi_head := pi_head p, pi_tail := (pi_tail p + 1) mod PIPE_BUF,
           pi_len := pi_len p + 1\<rparr>) bs' (w + 1) })" for p bs w
    by (cases bs; cases p) (simp_all cong del: bind_weak_cong)
  show "read_once_loop p out n =
       (if n < length out \<and> pi_len p > 0 then do {
          b \<leftarrow> idx (pi_buf p) (pi_head p);
          out \<leftarrow> set_idx out n b;
          read_once_loop (p\<lparr>pi_buf := pi_buf p, pi_head := (pi_head p + 1) mod PIPE_BUF, pi_tail := pi_tail p,
            pi_len := pi_len p - 1\<rparr>) out (n + 1) }
        else Some ((n, out), p))" for p out n
    by (subst read_once_loop.simps, cases p) (simp cong del: bind_weak_cong)
qed (simp_all add: PIPE_BUF_def)

lemma pipe_queue: "pr.ok = pipe_ok" "pr.contents = pipe_contents"
  by (simp_all add: fun_eq_iff pr.ok_def pipe_ok_def pr.contents_def pipe_contents_def)

lemma write_once_spec:
  assumes "pipe_ok p"
  shows "\<exists>p'. write_once p data = Some (min (length data) (PIPE_BUF - pi_len p), p') \<and> pipe_ok p' \<and>
    pipe_contents p' = pipe_contents p @ take (PIPE_BUF - pi_len p) data"
  using pr.put_loop_spec [of p data 0] assms by (auto simp: pipe_queue write_once_def min_def)

lemma write_once_frame:
  assumes "write_once p data = Some (n, p')"
  shows "pi_read_refs p' = pi_read_refs p" "pi_write_refs p' = pi_write_refs p"
    "pi_read_waiters p' = pi_read_waiters p" "pi_write_waiters p' = pi_write_waiters p"
proof -
  have "write_once_loop p data w = Some (n, p') \<Longrightarrow> pi_read_refs p' = pi_read_refs p \<and>
      pi_write_refs p' = pi_write_refs p \<and> pi_read_waiters p' = pi_read_waiters p \<and>
      pi_write_waiters p' = pi_write_waiters p" for w
    by (induction p data w rule: write_once_loop.induct) (auto simp: bind_eq_Some_conv split: if_splits)
  then show "pi_read_refs p' = pi_read_refs p" "pi_write_refs p' = pi_write_refs p"
    "pi_read_waiters p' = pi_read_waiters p" "pi_write_waiters p' = pi_write_waiters p"
    using assms unfolding write_once_def by auto
qed

lemma read_once_spec:
  assumes "pipe_ok p"
  shows "\<exists>p'. read_once p out = Some ((min (length out) (pi_len p),
      take (length out) (pipe_contents p) @ drop (pi_len p) out), p') \<and> pipe_ok p' \<and>
    pipe_contents p' = drop (length out) (pipe_contents p)"
  using pr.get_loop_spec [of p 0 out] assms by (simp add: pipe_queue read_once_def)

lemma read_once_frame:
  assumes "read_once p out = Some ((n, out'), p')"
  shows "pi_write_waiters p' = pi_write_waiters p" "pi_read_waiters p' = pi_read_waiters p"
proof -
  have "read_once_loop p out m = Some ((n, out'), p') \<Longrightarrow>
      pi_write_waiters p' = pi_write_waiters p \<and> pi_read_waiters p' = pi_read_waiters p" for m
  proof (induction p out m rule: read_once_loop.induct)
    case (1 p out m)
    then show ?case
      by (subst (asm) (2) read_once_loop.simps) (auto simp: bind_eq_Some_conv split: if_splits)
  qed
  then show "pi_write_waiters p' = pi_write_waiters p" "pi_read_waiters p' = pi_read_waiters p"
    using assms unfolding read_once_def by blast+
qed

lemma length_pipe_contents [simp]: "length (pipe_contents p) = pi_len p"
  by (simp add: pipe_contents_def)

text \<open>A queue with no waiter wakes nobody.\<close>

lemma wq_wake_one_empty [simp]: "wq_len q = 0 \<Longrightarrow> wq_wake_one q k = Some (q, k)"
  by (simp add: wq_wake_one_def wq_pop_def)

lemma with_pipe_slot:
  "PIPES \<notin> kn_held k \<Longrightarrow> unat pid < length (kn_pipes k) \<Longrightarrow> kn_pipes k ! unat pid = Some p \<Longrightarrow>
   with_pipe pid f k = do {
     ((a, p), k) \<leftarrow> f p (k\<lparr>kn_held := insert PIPES (kn_held k)\<rparr>);
     ps \<leftarrow> set_idx (kn_pipes k) (unat pid) (Some p);
     Some (Some a, release PIPES (k\<lparr>kn_pipes := ps\<rparr>)) }"
  by (simp add: with_pipe_def)

subsection \<open>Properties\<close>

text \<open>
  C8: A pipe is first in, first out: for every sequence of reads and writes on a well-formed pipe,
  each operation returns, the ring stays well formed, and the bytes that were read followed by the
  bytes still in the ring are the bytes that were in the ring followed by the bytes accepted by the
  writes, in order.
\<close>

theorem pipe_is_fifo:
  assumes "pipe_ok p"
  shows "\<exists>ins outs p'. fifo_run write_once read_once p ops = Some (ins, outs, p') \<and> pipe_ok p' \<and>
    outs @ pipe_contents p' = pipe_contents p @ ins"
proof -
  have "write_once = (\<lambda>p d. write_once_loop p d 0)" "read_once = (\<lambda>p out. read_once_loop p out 0)"
    by (simp_all add: fun_eq_iff write_once_def read_once_def)
  then show ?thesis using pr.queue.run_fifo [of p ops] assms by (simp add: pipe_queue)
qed

lemma pipe_inner_new_ok: "pipe_ok pipe_inner_new" "pipe_contents pipe_inner_new = []"
  by (simp_all add: pipe_ok_def pipe_contents_def pipe_inner_new_def PIPE_BUF_def)

theorem pipe_is_fifo_witness:
  "\<exists>ins outs p'. fifo_run write_once read_once pipe_inner_new [Put [1, 2, 3], Get 2, Put [4], Get 8] =
     Some (ins, outs, p') \<and> outs @ pipe_contents p' = ins"
  using pipe_is_fifo [OF pipe_inner_new_ok(1), of "[Put [1, 2, 3], Get 2, Put [4], Get 8]"]
  by (auto simp: pipe_inner_new_ok)

text \<open>
  C9: What is written to a pipe is read from it: with readers and no waiting thread, a write of
  data that fits returns its length, and a read with a buffer at least as long as everything in
  the pipe then returns all bytes of the pipe, the old ones first, and leaves the pipe empty.
\<close>

theorem pipe_write_read_roundtrip:
  fixes k :: "'z Pipes_scheme"
  assumes "PIPES \<notin> kn_held k" and "unat pid < length (kn_pipes k)" and "kn_pipes k ! unat pid = Some p"
    and "pipe_ok p" and "pi_read_refs p \<noteq> 0"
    and "wq_len (pi_read_waiters p) = 0" and "wq_len (pi_write_waiters p) = 0"
    and "data \<noteq> []" and "pi_len p + length data \<le> PIPE_BUF" and "pi_len p + length data \<le> length out"
  shows "\<exists>k1 k2 p2. pipe_write saved pid data k = Some (Inr (length data), k1) \<and>
    pipe_read saved pid out k1 = Some ((Inr (pi_len p + length data),
      pipe_contents p @ data @ drop (pi_len p + length data) out), k2) \<and>
    kn_pipes k2 ! unat pid = Some p2 \<and> pipe_ok p2 \<and> pipe_contents p2 = [] \<and> kn_held k2 = kn_held k"
proof -
  obtain p1 where w: "write_once p data = Some (length data, p1)" "pipe_ok p1"
    "pipe_contents p1 = pipe_contents p @ data"
  proof -
    have "min (length data) (PIPE_BUF - pi_len p) = length data" using assms(9) by simp
    then show thesis using write_once_spec [OF assms(4), of data] assms(9) that by auto
  qed
  note f = write_once_frame [OF w(1)]
  have l1: "pi_len p1 = pi_len p + length data" using arg_cong [OF w(3), of length] by simp
  let ?k1 = "k\<lparr>kn_pipes := (kn_pipes k)[unat pid := Some p1]\<rparr>"
  have h: "insert PIPES (kn_held k) - {PIPES} = kn_held k" using assms(1) by blast
  have wf: "wq_len (pi_read_waiters p1) = 0" using f(3) assms(6) by simp
  have "write_attempt pid data k = Some (Some (Inr (length data)), ?k1)"
    using assms(5,8) w(1) wf h assms(2)
    by (simp add: write_attempt_def with_pipe_slot [OF assms(1-3)] release_def)
  then have pw: "pipe_write saved pid data k = Some (Inr (length data), ?k1)"
    by (subst pipe_write.simps) simp
  obtain p2 where r: "read_once p1 out = Some ((pi_len p1, pipe_contents p1 @ drop (pi_len p1) out), p2)"
    "pipe_ok p2" "pipe_contents p2 = []"
  proof -
    have "min (length out) (pi_len p1) = pi_len p1" "take (length out) (pipe_contents p1) = pipe_contents p1"
      "drop (length out) (pipe_contents p1) = []" using assms(10) l1 by simp_all
    then show thesis using read_once_spec [OF w(2), of out] that by auto
  qed
  have rf: "wq_len (pi_write_waiters p2) = 0" using read_once_frame [OF r(1)] f(4) assms(7) by simp
  let ?k2 = "?k1\<lparr>kn_pipes := (kn_pipes ?k1)[unat pid := Some p2]\<rparr>"
  have "read_attempt pid out ?k1 = Some ((Some (Inr (pi_len p1)), pipe_contents p1 @ drop (pi_len p1) out), ?k2)"
    using r(1) rf h l1 assms(1,2,8) by (simp add: read_attempt_def with_pipe_slot release_def)
  then have "pipe_read saved pid out ?k1 = Some ((Inr (pi_len p1), pipe_contents p1 @ drop (pi_len p1) out), ?k2)"
    by (subst pipe_read.simps) simp
  with pw r assms(2) show ?thesis
    by (intro exI [of _ ?k1] exI [of _ ?k2] exI [of _ p2]) (simp add: w(3) l1)
qed

text \<open>The kernel of one thread, with one pipe.\<close>

definition pipe_kernel :: "PipeInner \<Rightarrow> Pipes" where
  "pipe_kernel p = Kernel.extend one_thread_kernel (Pipes.fields [Some p] 1 [])"

lemma pipe_kernel_fields:
  "current_tid (pipe_kernel p) = Some 7" "length (kn_threads (pipe_kernel p)) = MAX_THREADS"
  "kn_threads (pipe_kernel p) ! 7 = Some (some_thread 7)" "kn_held (pipe_kernel p) = {}"
  "kn_pipes (pipe_kernel p) = [Some p]"
  using one_thread_kernel_current
  by (simp_all add: pipe_kernel_def Kernel.defs Pipes.defs current_tid_def)

theorem pipe_write_read_roundtrip_witness:
  "\<exists>k1 k2. pipe_write cpu_context_empty 0 [1, 2, 3] (pipe_kernel (pipe_inner_new\<lparr>pi_read_refs := 1\<rparr>)) = Some (Inr 3, k1) \<and>
     pipe_read cpu_context_empty 0 [9, 9, 9, 9] k1 = Some ((Inr 3, [1, 2, 3, 9]), k2)"
proof -
  let ?p = "pipe_inner_new\<lparr>pi_read_refs := 1\<rparr>"
  have p: "pipe_ok ?p" "pi_read_refs ?p \<noteq> 0" "wq_len (pi_read_waiters ?p) = 0" "wq_len (pi_write_waiters ?p) = 0"
    "pi_len ?p = 0" "pipe_contents ?p = []"
    using pipe_inner_new_ok
    by (simp_all add: pipe_ok_def pipe_contents_def) (simp_all add: pipe_inner_new_def wq_new_def)
  from pipe_write_read_roundtrip [of "pipe_kernel ?p" 0 ?p "[1, 2, 3]" "[9, 9, 9, 9]" cpu_context_empty]
  show ?thesis using p by (auto simp: pipe_kernel_fields PIPE_BUF_def)
qed

text \<open>
  C20: Waiting on a pipe never ends: a read of an empty pipe that still has writers, and a write to
  a full pipe that still has readers, do not return in any thread that exists, since the thread
  blocks through \<open>block_current\<close>.
\<close>

theorem pipe_wait_never_returns:
  fixes k :: "'z Pipes_scheme"
  assumes "current_tid k = Some td" and "unat td < MAX_THREADS" and "length (kn_threads k) = MAX_THREADS"
    and "kn_threads k ! unat td = Some t" and "unat pid < length (kn_pipes k)" and "kn_pipes k ! unat pid = Some p"
  shows "(pi_len p = 0 \<and> pi_write_refs p \<noteq> 0 \<longrightarrow> pipe_read saved pid out k = None) \<and>
    (pi_len p = PIPE_BUF \<and> pi_read_refs p \<noteq> 0 \<and> data \<noteq> [] \<longrightarrow> pipe_write saved pid data k = None)"
proof (cases "PIPES \<in> kn_held k")
  case True
  then have "pipe_read saved pid out k = None"
    by (subst pipe_read.simps) (simp add: read_attempt_def with_pipe_def)
  moreover have "pipe_write saved pid data k = None"
    using True by (subst pipe_write.simps) (simp add: write_attempt_def with_pipe_def)
  ultimately show ?thesis by simp
next
  case False
  let ?k = "k\<lparr>kn_held := insert PIPES (kn_held k)\<rparr>"
  have h: "insert PIPES (kn_held k) - {PIPES} = kn_held k" using False by blast
  have same: "(kn_pipes k)[unat pid := Some p] = kn_pipes k" using assms(6) by (metis list_update_id)
  have "block_current saved ?k = None"
    by (rule block_current_None [of _ td t]) (use assms in \<open>simp_all add: current_tid_def\<close>)
  then have b: "block_on saved q ?k = None" for q by (rule block_on_None)
  have "pipe_read saved pid out k = None" if "pi_len p = 0" "pi_write_refs p \<noteq> 0"
  proof -
    have "read_attempt pid out k = Some ((Some (Inl WouldBlock), out), k)"
      using that False assms(5,6) h same by (simp add: read_attempt_def with_pipe_slot release_def)
    moreover have "read_wait saved pid k = None"
      using that False assms(5,6) b by (simp add: read_wait_def with_pipe_slot)
    ultimately show ?thesis by (subst pipe_read.simps) simp
  qed
  moreover have "pipe_write saved pid data k = None"
    if "pi_len p = PIPE_BUF" "pi_read_refs p \<noteq> 0" "data \<noteq> []"
  proof -
    have "write_once p data = Some (0, p)" using that by (cases data) (simp_all add: write_once_def)
    then have "write_attempt pid data k = Some (Some (Inl WouldBlock), k)"
      using that False assms(5,6) h same by (simp add: write_attempt_def with_pipe_slot release_def)
    moreover have "write_wait saved pid k = None"
      using that False assms(5,6) b by (simp add: write_wait_def with_pipe_slot)
    ultimately show ?thesis by (subst pipe_write.simps) simp
  qed
  ultimately show ?thesis by blast
qed

theorem pipe_wait_never_returns_witness:
  "pipe_read cpu_context_empty 0 [0] (pipe_kernel (pipe_inner_new\<lparr>pi_write_refs := 1\<rparr>)) = None"
proof -
  let ?p = "pipe_inner_new\<lparr>pi_write_refs := 1\<rparr>"
  have "pi_len ?p = 0 \<and> pi_write_refs ?p \<noteq> 0" by (simp add: pipe_inner_new_def)
  then show ?thesis
    using pipe_wait_never_returns [of "pipe_kernel ?p" 7 "some_thread 7" 0 ?p]
    by (simp add: pipe_kernel_fields MAX_THREADS_def)
qed

end
