(* ===== verification/Kernel_Frame.thy ===== *)
theory Kernel_Frame
  imports Sched
begin

text \<open>
  The frame of the scheduler: an operation on the thread table, the process table or the run queues
  leaves the state of the modules that extend the kernel record unchanged. \<open>kept k m\<close> says so of
  the outcome \<open>m\<close> of an operation that was started in \<open>k\<close>; the rules for the constructs of an
  operation are in \<open>kept_rules\<close>, and the collection \<open>frame\<close> holds one rule for each operation.
\<close>

definition kept :: "'z Kernel_scheme \<Rightarrow> ('a \<times> 'z Kernel_scheme) run \<Rightarrow> bool" where
  "kept k0 m \<longleftrightarrow> (\<forall>r k. m = Some (r, k) \<longrightarrow> Kernel.more k = Kernel.more k0)"

named_theorems frame

lemma kept_more: "kept k0 m \<Longrightarrow> m = Some (r, k) \<Longrightarrow> Kernel.more k = Kernel.more k0"
  by (simp add: kept_def)

lemma kept_bind_op:
  assumes "kept k0 m" and "\<And>r k. Kernel.more k = Kernel.more k0 \<Longrightarrow> kept k0 (g r k)"
  shows "kept k0 (m \<bind> (\<lambda>(r, k). g r k))"
proof (cases m)
  case None
  then show ?thesis by (simp add: kept_def)
next
  case (Some x)
  obtain r k where x: "x = (r, k)" by (cases x)
  then have "Kernel.more k = Kernel.more k0" using assms(1) Some by (simp add: kept_def)
  from assms(2) [OF this, of r] show ?thesis using Some x by simp
qed

lemma kept_bind_state:
  assumes "\<And>k. m = Some k \<Longrightarrow> Kernel.more k = Kernel.more k0"
    and "\<And>k. Kernel.more k = Kernel.more k0 \<Longrightarrow> kept k0 (g k)"
  shows "kept k0 (m \<bind> g)"
proof (cases m)
  case None
  then show ?thesis by (simp add: kept_def)
next
  case (Some k)
  from assms(2) [OF assms(1) [OF Some]] show ?thesis using Some by simp
qed

lemma kept_bind_acquire:
  "Kernel.more k = Kernel.more k0 \<Longrightarrow> (\<And>k. Kernel.more k = Kernel.more k0 \<Longrightarrow> kept k0 (g k)) \<Longrightarrow>
   kept k0 (acquire l k \<bind> g)"
  by (rule kept_bind_state) (auto simp: acquire_def split: if_splits)

lemma kept_bind: "(\<And>x. kept k0 (g x)) \<Longrightarrow> kept k0 (m \<bind> g)"
  by (cases m) (auto simp: kept_def)

lemma kept_Some: "Kernel.more k = Kernel.more k0 \<Longrightarrow> kept k0 (Some (r, k))"
  by (simp add: kept_def)

lemma kept_None: "kept k0 None"
  by (simp add: kept_def)

lemma kept_if: "kept k0 a \<Longrightarrow> kept k0 b \<Longrightarrow> kept k0 (if c then a else b)"
  by simp

lemma kept_option: "kept k0 a \<Longrightarrow> (\<And>x. kept k0 (g x)) \<Longrightarrow> kept k0 (case r of None \<Rightarrow> a | Some x \<Rightarrow> g x)"
  by (cases r) simp_all

lemma kept_prod: "(\<And>a b. kept k0 (g a b)) \<Longrightarrow> kept k0 (case r of (a, b) \<Rightarrow> g a b)"
  by (cases r) simp

lemma kept_prod_op: "(\<And>a b. kept k0 (g a b k)) \<Longrightarrow> kept k0 ((case r of (a, b) \<Rightarrow> g a b) k)"
  by (cases r) simp

lemma kept_Let: "kept k0 (g x) \<Longrightarrow> kept k0 (let y = x in g y)"
  by simp

lemma release_more [simp]: "Kernel.more (release l k) = Kernel.more k"
  by (simp add: release_def)

lemmas kept_rules = kept_Some kept_None kept_bind_acquire kept_bind_op kept_if kept_option kept_prod
  kept_prod_op  kept_Let kept_bind

subsection \<open>The tables\<close>

lemma with_thread_frame [frame]: "Kernel.more k = Kernel.more k0 \<Longrightarrow> kept k0 (with_thread td f k)"
  unfolding with_thread_def by (rule kept_rules | simp)+

lemma with_thread_mut_frame:
  "Kernel.more k = Kernel.more k0 \<Longrightarrow> (\<And>t k. Kernel.more k = Kernel.more k0 \<Longrightarrow> kept k0 (f t k)) \<Longrightarrow>
   kept k0 (with_thread_mut td f k)"
  unfolding with_thread_mut_def by (assumption | rule kept_rules | simp)+

lemma with_process_mut_frame:
  "Kernel.more k = Kernel.more k0 \<Longrightarrow> (\<And>p k. Kernel.more k = Kernel.more k0 \<Longrightarrow> kept k0 (f p k)) \<Longrightarrow>
   kept k0 (with_process_mut pd f k)"
  unfolding with_process_mut_def by (assumption | rule kept_rules | simp)+

lemma modify_thread_frame [frame]: "Kernel.more k = Kernel.more k0 \<Longrightarrow> kept k0 (modify_thread td f k)"
  unfolding modify_thread_def by (rule with_thread_mut_frame kept_rules | simp)+

lemma with_runqueue_frame:
  "Kernel.more k = Kernel.more k0 \<Longrightarrow> (\<And>rq k. Kernel.more k = Kernel.more k0 \<Longrightarrow> kept k0 (f rq k)) \<Longrightarrow>
   kept k0 (with_runqueue cpu f k)"
  unfolding with_runqueue_def by (assumption | rule kept_rules | simp)+

lemmas frame_rules = with_thread_mut_frame with_process_mut_frame with_runqueue_frame kept_rules

subsection \<open>The run queues\<close>

lemma rq_enqueue_frame [frame]: "Kernel.more k = Kernel.more k0 \<Longrightarrow> kept k0 (rq_enqueue rq td k)"
  unfolding rq_enqueue_def by (rule frame frame_rules | simp)+

lemma rq_dequeue_frame [frame]: "Kernel.more k = Kernel.more k0 \<Longrightarrow> kept k0 (rq_dequeue rq td k)"
  unfolding rq_dequeue_def by (rule frame frame_rules | simp)+

lemma rq_pick_next_frame [frame]: "Kernel.more k = Kernel.more k0 \<Longrightarrow> kept k0 (rq_pick_next rq k)"
  unfolding rq_pick_next_def by (rule frame frame_rules | simp)+

lemma steal_from_frame [frame]: "Kernel.more k = Kernel.more k0 \<Longrightarrow> kept k0 (steal_from rq victim k)"
  unfolding steal_from_def by (rule frame frame_rules | simp)+

lemma enqueue_thread_frame [frame]: "Kernel.more k = Kernel.more k0 \<Longrightarrow> kept k0 (enqueue_thread td cpu k)"
  unfolding enqueue_thread_def by (rule frame frame_rules | simp)+

lemma dequeue_thread_frame [frame]: "Kernel.more k = Kernel.more k0 \<Longrightarrow> kept k0 (dequeue_thread td cpu k)"
  unfolding dequeue_thread_def by (rule frame frame_rules | simp)+

lemma try_steal_loop_frame [frame]:
  "Kernel.more k = Kernel.more k0 \<Longrightarrow> kept k0 (try_steal_loop cpu others k)"
proof (induction others arbitrary: k)
  case Nil
  then show ?case by (simp add: kept_Some)
next
  case (Cons other others)
  show ?case unfolding try_steal_loop.simps
    by (rule Cons.IH frame frame_rules | simp add: Cons.prems)+
qed

lemma pick_next_thread_frame [frame]: "Kernel.more k = Kernel.more k0 \<Longrightarrow> kept k0 (pick_next_thread cpu k)"
  unfolding pick_next_thread_def try_steal_def by (rule frame frame_rules | simp)+

lemma rq_set_current_frame [frame]: "Kernel.more k = Kernel.more k0 \<Longrightarrow> kept k0 (rq_set_current cpu td k)"
  unfolding rq_set_current_def by (rule frame frame_rules | simp)+

subsection \<open>Switching, blocking and waking\<close>

lemma kept_bind_current:
  "Kernel.more k = Kernel.more k0 \<Longrightarrow> (\<And>k. Kernel.more k = Kernel.more k0 \<Longrightarrow> kept k0 (g k)) \<Longrightarrow>
   kept k0 (set_current_tid cpu td k \<bind> g)"
  by (rule kept_bind_state) (auto simp: set_current_tid_def bind_eq_Some_conv)

lemma kept_bind_kstack:
  "Kernel.more k = Kernel.more k0 \<Longrightarrow> (\<And>k. Kernel.more k = Kernel.more k0 \<Longrightarrow> kept k0 (g k)) \<Longrightarrow>
   kept k0 ((case r of None \<Rightarrow> Some k | Some rsp0 \<Rightarrow> set_kstack cpu rsp0 (set_rsp0 cpu rsp0 k)) \<bind> g)"
  by (rule kept_bind_state)
    (auto simp: set_kstack_def set_rsp0_def bind_eq_Some_conv split: option.splits)

lemma switch_space_frame [frame]: "Kernel.more k = Kernel.more k0 \<Longrightarrow> kept k0 (switch_space td k)"
  unfolding switch_space_def activate_def by (rule frame frame_rules | simp split: option.split)+

lemma switch_stack_tls_frame [frame]: "Kernel.more k = Kernel.more k0 \<Longrightarrow> kept k0 (switch_stack_tls cpu td k)"
  unfolding switch_stack_tls_def by (rule frame kept_bind_kstack frame_rules | simp)+

lemma switch_to_frame [frame]:
  "Kernel.more k = Kernel.more k0 \<Longrightarrow> kept k0 (switch_to saved cpu prv nxt fr k)"
  unfolding switch_to_def by (rule frame kept_bind_current frame_rules | simp)+

lemma reschedule_frame [frame]: "Kernel.more k = Kernel.more k0 \<Longrightarrow> kept k0 (reschedule saved k)"
  unfolding reschedule_def by (rule frame frame_rules | simp)+

lemma yield_cpu_frame [frame]: "Kernel.more k = Kernel.more k0 \<Longrightarrow> kept k0 (yield_cpu saved k)"
  unfolding yield_cpu_def set_need_resched_def disable_preemption_def enable_preemption_def
    preempt_disable_def preempt_enable_def
  by (rule frame frame_rules | simp add: kept_Some)+

lemma block_current_frame [frame]: "Kernel.more k = Kernel.more k0 \<Longrightarrow> kept k0 (block_current saved k)"
  unfolding block_current_def by (rule frame frame_rules | simp)+

lemma block_on_frame [frame]: "Kernel.more k = Kernel.more k0 \<Longrightarrow> kept k0 (block_on saved q k)"
  unfolding block_on_def by (rule frame frame_rules | simp)+

lemma wake_thread_frame [frame]: "Kernel.more k = Kernel.more k0 \<Longrightarrow> kept k0 (wake_thread td k)"
  unfolding wake_thread_def set_need_resched_def by (rule frame frame_rules | simp)+

lemma wq_wake_one_frame [frame]: "Kernel.more k = Kernel.more k0 \<Longrightarrow> kept k0 (wq_wake_one q k)"
  unfolding wq_wake_one_def by (rule frame frame_rules | simp)+

lemma wq_wake_all_frame [frame]: "Kernel.more k = Kernel.more k0 \<Longrightarrow> kept k0 (wq_wake_all q k)"
proof (induction "wq_len q" arbitrary: q k)
  case 0
  then show ?case by (simp add: wq_wake_all.simps kept_Some)
next
  case (Suc n)
  show ?case
    by (subst wq_wake_all.simps) (rule Suc.hyps(1) frame frame_rules | simp add: Suc.hyps(2) [symmetric] Suc.prems)+
qed

end
