(* ===== verification/Pipe_Table.thy ===== *)
theory Pipe_Table
  imports Pipe Kernel_Frame
begin

text \<open>
  The typing of the tables of pipes and FIFOs: every state that the operations of
  \<^verbatim>\<open>src/kernel/src/ipc/pipe.rs\<close> and \<^verbatim>\<open>src/kernel/src/ipc/fifo.rs\<close> reach, the waiting ones included, has
  well-formed rings, wait queues and paths, so that no access to one of their buffers panics.
\<close>

subsection \<open>Types\<close>

definition wq_typed :: "WaitQueue \<Rightarrow> bool" where
  "wq_typed q \<longleftrightarrow> length (wq_threads q) = WAIT_SLOTS \<and> wq_len q \<le> WAIT_SLOTS"

definition pipe_typed :: "PipeInner \<Rightarrow> bool" where
  "pipe_typed p \<longleftrightarrow> pipe_ok p \<and> wq_typed (pi_read_waiters p) \<and> wq_typed (pi_write_waiters p)"

definition fifo_typed :: "FifoEntry \<Rightarrow> bool" where
  "fifo_typed e \<longleftrightarrow> length (fe_path e) = 256 \<and> fe_path_len e \<le> 256"

definition pipes_typed :: "'z Pipes_scheme \<Rightarrow> bool" where
  "pipes_typed k \<longleftrightarrow> length (kn_pipes k) = MAX_PIPES \<and> length (kn_fifos k) = MAX_FIFOS \<and>
     (\<forall>p. Some p \<in> set (kn_pipes k) \<longrightarrow> pipe_typed p) \<and> (\<forall>e. Some e \<in> set (kn_fifos k) \<longrightarrow> fifo_typed e)"

lemma pipes_typed_more:
  fixes k k' :: "'z Pipes_scheme"
  assumes "Kernel.more k' = Kernel.more k"
  shows "kn_pipes k' = kn_pipes k" "kn_fifos k' = kn_fifos k"
  using assms by (cases k; cases k'; simp)+

lemma pipes_typed_held [simp]: "pipes_typed (k\<lparr>kn_held := h\<rparr>) = pipes_typed k"
  by (simp add: pipes_typed_def)

lemma pipes_typed_release [simp]: "pipes_typed (release l k) = pipes_typed k"
  by (simp add: release_def)

lemma pipes_typed_next [simp]: "pipes_typed (k\<lparr>kn_next_pipe := n\<rparr>) = pipes_typed k"
  by (simp add: pipes_typed_def)

lemma pipes_typed_acquire: "acquire l k = Some k' \<Longrightarrow> pipes_typed k' = pipes_typed k"
  by (auto simp: acquire_def split: if_splits)

lemma pipes_typed_pipe:
  "pipes_typed k \<Longrightarrow> pipe_typed p \<Longrightarrow> kn_pipes k' = (kn_pipes k)[i := Some p] \<Longrightarrow> kn_fifos k' = kn_fifos k \<Longrightarrow>
   pipes_typed k'"
  by (auto simp: pipes_typed_def dest!: set_update_subset_insert [THEN subsetD])

lemma pipes_typed_fifo:
  "pipes_typed k \<Longrightarrow> fifo_typed e \<Longrightarrow> kn_fifos k' = (kn_fifos k)[i := Some e] \<Longrightarrow> kn_pipes k' = kn_pipes k \<Longrightarrow>
   pipes_typed k'"
  by (auto simp: pipes_typed_def dest!: set_update_subset_insert [THEN subsetD])

subsection \<open>Wait queues\<close>

lemma wq_push_typed: "wq_typed q \<Longrightarrow> wq_push q td = Some (b, q') \<Longrightarrow> wq_typed q'"
  by (auto simp: wq_typed_def wq_push_def bind_eq_Some_conv set_idx_def split: if_splits)

lemma wq_pop_typed: "wq_typed q \<Longrightarrow> wq_pop q = Some (r, q') \<Longrightarrow> wq_typed q'"
  by (auto simp: wq_typed_def wq_pop_def bind_eq_Some_conv split: if_splits)

lemma block_on_typed: "wq_typed q \<Longrightarrow> block_on saved q k = Some (q', k') \<Longrightarrow> wq_typed q'"
  by (auto simp: block_on_def bind_eq_Some_conv split: if_splits dest: wq_push_typed)

lemma wq_wake_one_typed: "wq_typed q \<Longrightarrow> wq_wake_one q k = Some (q', k') \<Longrightarrow> wq_typed q'"
  by (auto simp: wq_wake_one_def bind_eq_Some_conv split: option.splits dest: wq_pop_typed)

lemma wq_wake_all_typed: "wq_typed q \<Longrightarrow> wq_wake_all q k = Some (q', k') \<Longrightarrow> wq_typed q'"
proof (induction "wq_len q" arbitrary: q k)
  case 0
  then show ?case by (simp add: wq_wake_all.simps)
next
  case (Suc n)
  let ?q = "q\<lparr>wq_len := wq_len q - 1\<rparr>"
  have q: "n = wq_len ?q" "wq_typed ?q" using Suc.hyps(2) Suc.prems(1) by (auto simp: wq_typed_def)
  have "wq_len q \<noteq> 0" using Suc.hyps(2) by simp
  then obtain k1 where "wq_wake_all ?q k1 = Some (q', k')"
    using Suc.prems(2) by (subst (asm) wq_wake_all.simps) (auto simp: bind_eq_Some_conv)
  then show ?case using Suc.hyps(1) [OF q] by blast
qed

lemmas wake_more = kept_more [OF wq_wake_one_frame [OF refl]] kept_more [OF wq_wake_all_frame [OF refl]]
  kept_more [OF block_on_frame [OF refl]]

lemmas wake_typed = wq_wake_one_typed wq_wake_all_typed block_on_typed

subsection \<open>Operations\<close>

lemma with_pipe_typed:
  fixes k :: "'z Pipes_scheme"
  assumes "pipes_typed k" and "with_pipe pid f k = Some (r, k')"
    and "\<And>p k a p' k'. pipe_typed p \<Longrightarrow> f p k = Some ((a, p'), k') \<Longrightarrow>
      pipe_typed p' \<and> Kernel.more k' = Kernel.more k"
  shows "pipes_typed k'"
proof -
  obtain k1 slot where k1: "acquire PIPES k = Some k1" and s: "idx (kn_pipes k1) (unat pid) = Some slot"
    and rest: "(case slot of
        None \<Rightarrow> Some (None, release PIPES k1)
      | Some p \<Rightarrow> do {
          ((a, p), k) \<leftarrow> f p k1;
          ps \<leftarrow> set_idx (kn_pipes k) (unat pid) (Some p);
          Some (Some a, release PIPES (k\<lparr>kn_pipes := ps\<rparr>)) }) = Some (r, k')"
    using assms(2) unfolding with_pipe_def by (auto simp: bind_eq_Some_conv)
  have t: "pipes_typed k1" using assms(1) pipes_typed_acquire [OF k1] by simp
  show ?thesis
  proof (cases slot)
    case None
    then show ?thesis using rest t by auto
  next
    case (Some p)
    have p: "pipe_typed p" using t s Some nth_mem [of "unat pid" "kn_pipes k1"] by (simp add: pipes_typed_def idx_eq_Some)
    obtain a p' k2 where f: "f p k1 = Some ((a, p'), k2)" and "unat pid < length (kn_pipes k2)"
      and k': "k' = release PIPES (k2\<lparr>kn_pipes := (kn_pipes k2)[unat pid := Some p']\<rparr>)"
      using rest Some by (auto simp: bind_eq_Some_conv set_idx_def split: if_splits)
    have "pipe_typed p'" "Kernel.more k2 = Kernel.more k1" using assms(3) [OF p f] by auto
    moreover from pipes_typed_more [OF this(2)] have "pipes_typed k2" using t by (simp add: pipes_typed_def)
    ultimately show ?thesis using k' by (auto intro: pipes_typed_pipe)
  qed
qed

lemma pipe_new_typed: "pipe_typed (pipe_inner_new\<lparr>pi_read_refs := a, pi_write_refs := b\<rparr>)"
  by (simp add: pipe_typed_def pipe_ok_def pipe_inner_new_def wq_typed_def wq_new_def PIPE_BUF_def)

lemma pipe_create_typed: "pipes_typed k \<Longrightarrow> pipe_create k = Some (r, k') \<Longrightarrow> pipes_typed k'"
  by (auto simp: pipe_create_def Let_def bind_eq_Some_conv set_idx_def acquire_def split: if_splits)
    (rule pipes_typed_pipe [of k, OF _ pipe_new_typed], simp_all)

lemma pipe_typed_refs [simp]:
  "pipe_typed (p\<lparr>pi_read_refs := a\<rparr>) = pipe_typed p" "pipe_typed (p\<lparr>pi_write_refs := a\<rparr>) = pipe_typed p"
  by (simp_all add: pipe_typed_def pipe_ok_def)

lemma pipe_typed_waiters:
  "pipe_typed p \<Longrightarrow> wq_typed q \<Longrightarrow> pipe_typed (p\<lparr>pi_read_waiters := q\<rparr>)"
  "pipe_typed p \<Longrightarrow> wq_typed q \<Longrightarrow> pipe_typed (p\<lparr>pi_write_waiters := q\<rparr>)"
  "pipe_typed p \<Longrightarrow> wq_typed (pi_read_waiters p)" "pipe_typed p \<Longrightarrow> wq_typed (pi_write_waiters p)"
  by (simp_all add: pipe_typed_def pipe_ok_def)

lemma write_once_typed: "pipe_typed p \<Longrightarrow> write_once p data = Some (n, p') \<Longrightarrow> pipe_typed p'"
  using write_once_spec [of p data] write_once_frame [of p data n p'] by (auto simp: pipe_typed_def)

lemma read_once_typed: "pipe_typed p \<Longrightarrow> read_once p out = Some ((n, out'), p') \<Longrightarrow> pipe_typed p'"
  using read_once_spec [of p out] read_once_frame [of p out n out' p'] by (auto simp: pipe_typed_def)

lemma dup_typed:
  "pipes_typed k \<Longrightarrow> dup_read pid k = Some (r, k') \<Longrightarrow> pipes_typed k'"
  "pipes_typed k \<Longrightarrow> dup_write pid k = Some (r, k') \<Longrightarrow> pipes_typed k'"
  by (auto simp: dup_read_def dup_write_def bind_eq_Some_conv elim!: with_pipe_typed)

lemma wake_waiters:
  "wq_wake_all (pi_write_waiters p) k = Some (q, k') \<Longrightarrow> pipe_typed p \<Longrightarrow> wq_typed q \<and> Kernel.more k' = Kernel.more k"
  "wq_wake_all (pi_read_waiters p) k = Some (q, k') \<Longrightarrow> pipe_typed p \<Longrightarrow> wq_typed q \<and> Kernel.more k' = Kernel.more k"
  "wq_wake_one (pi_write_waiters p) k = Some (q, k') \<Longrightarrow> pipe_typed p \<Longrightarrow> wq_typed q \<and> Kernel.more k' = Kernel.more k"
  "wq_wake_one (pi_read_waiters p) k = Some (q, k') \<Longrightarrow> pipe_typed p \<Longrightarrow> wq_typed q \<and> Kernel.more k' = Kernel.more k"
  "block_on saved (pi_write_waiters p) k = Some (q, k') \<Longrightarrow> pipe_typed p \<Longrightarrow> wq_typed q \<and> Kernel.more k' = Kernel.more k"
  "block_on saved (pi_read_waiters p) k = Some (q, k') \<Longrightarrow> pipe_typed p \<Longrightarrow> wq_typed q \<and> Kernel.more k' = Kernel.more k"
  by (blast intro: wake_more wake_typed pipe_typed_waiters(3,4))+

lemma close_read_typed: "pipes_typed k \<Longrightarrow> close_read pid k = Some (r, k') \<Longrightarrow> pipes_typed k'"
  unfolding close_read_def bind_eq_Some_conv
  by (clarsimp, erule (1) with_pipe_typed, auto simp: Let_def bind_eq_Some_conv split: if_splits
      intro!: pipe_typed_waiters(1,2) dest!: wake_waiters)

lemma close_write_typed: "pipes_typed k \<Longrightarrow> close_write pid k = Some (r, k') \<Longrightarrow> pipes_typed k'"
  unfolding close_write_def bind_eq_Some_conv
  by (clarsimp, erule (1) with_pipe_typed, auto simp: Let_def bind_eq_Some_conv split: if_splits
      intro!: pipe_typed_waiters(1,2) dest!: wake_waiters)

lemma write_attempt_typed: "pipes_typed k \<Longrightarrow> write_attempt pid data k = Some (r, k') \<Longrightarrow> pipes_typed k'"
  unfolding write_attempt_def
  by (erule (1) with_pipe_typed, auto simp: bind_eq_Some_conv split: if_splits
      intro!: pipe_typed_waiters(1,2) dest: write_once_typed dest!: wake_waiters)

lemma write_wait_typed: "pipes_typed k \<Longrightarrow> write_wait saved pid k = Some (r, k') \<Longrightarrow> pipes_typed k'"
  unfolding write_wait_def
  by (erule (1) with_pipe_typed, auto simp: bind_eq_Some_conv split: if_splits
      intro!: pipe_typed_waiters(1,2) dest!: wake_waiters)

lemma read_attempt_typed: "pipes_typed k \<Longrightarrow> read_attempt pid out k = Some (r, k') \<Longrightarrow> pipes_typed k'"
  unfolding read_attempt_def bind_eq_Some_conv
  by (clarsimp, erule (1) with_pipe_typed, auto simp: bind_eq_Some_conv split: if_splits
      intro!: pipe_typed_waiters(1,2) dest: read_once_typed dest!: wake_waiters)

lemma read_wait_typed: "pipes_typed k \<Longrightarrow> read_wait saved pid k = Some (r, k') \<Longrightarrow> pipes_typed k'"
  unfolding read_wait_def
  by (erule (1) with_pipe_typed, auto simp: bind_eq_Some_conv split: if_splits
      intro!: pipe_typed_waiters(1,2) dest!: wake_waiters)

lemma pipe_write_typed: "pipe_write saved pid data k = Some y \<Longrightarrow> pipes_typed k \<longrightarrow> pipes_typed (snd y)"
proof (rule pipe_write.raw_induct [where P = "\<lambda>_ _ _ k y. pipes_typed k \<longrightarrow> pipes_typed (snd y)", rotated])
  fix self saved pid data k y
  assume 1: "\<And>saved pid data k y. self saved pid data k = Some y \<Longrightarrow> pipes_typed k \<longrightarrow> pipes_typed (snd y)"
    "do {
     (status, k) \<leftarrow> write_attempt pid data k;
     (case status of
        None \<Rightarrow> Some (Inl BadFd, k)
      | Some (Inr n) \<Rightarrow> Some (Inr n, k)
      | Some (Inl e) \<Rightarrow>
          if e = WouldBlock then do { (_, k) \<leftarrow> write_wait saved pid k; self saved pid data k }
          else Some (Inl e, k)) } = Some y" 
  show "pipes_typed k \<longrightarrow> pipes_typed (snd y)"
  proof
    assume "pipes_typed k"
    from 1(2) obtain status k1 where a: "write_attempt pid data k = Some (status, k1)"
      and rest: "(case status of
        None \<Rightarrow> Some (Inl BadFd, k1)
      | Some (Inr n) \<Rightarrow> Some (Inr n, k1)
      | Some (Inl e) \<Rightarrow>
          if e = WouldBlock then do { (_, k) \<leftarrow> write_wait saved pid k1; self saved pid data k }
          else Some (Inl e, k1)) = Some y"
      by (auto simp: bind_eq_Some_conv)
    from write_attempt_typed [OF \<open>pipes_typed k\<close> a] have t: "pipes_typed k1" .
    consider "snd y = k1" | r k2 where "write_wait saved pid k1 = Some (r, k2)" "self saved pid data k2 = Some y"
      using rest by (auto simp: bind_eq_Some_conv split: option.splits sum.splits if_splits)
    then show "pipes_typed (snd y)" using t 1(1) write_wait_typed [OF t] by cases auto
  qed
qed

lemma pipe_read_typed: "pipe_read saved pid out k = Some y \<Longrightarrow> pipes_typed k \<longrightarrow> pipes_typed (snd y)"
proof (rule pipe_read.raw_induct [where P = "\<lambda>_ _ _ k y. pipes_typed k \<longrightarrow> pipes_typed (snd y)", rotated])
  fix self saved pid out k y
  assume 1: "\<And>saved pid out k y. self saved pid out k = Some y \<Longrightarrow> pipes_typed k \<longrightarrow> pipes_typed (snd y)"
    "do {
     ((status, out), k) \<leftarrow> read_attempt pid out k;
     (case status of
        None \<Rightarrow> Some ((Inl BadFd, out), k)
      | Some (Inr n) \<Rightarrow> Some ((Inr n, out), k)
      | Some (Inl e) \<Rightarrow>
          if e = WouldBlock then do { (_, k) \<leftarrow> read_wait saved pid k; self saved pid out k }
          else Some ((Inl e, out), k)) } = Some y" 
  show "pipes_typed k \<longrightarrow> pipes_typed (snd y)"
  proof
    assume "pipes_typed k"
    from 1(2) obtain status out1 k1 where a: "read_attempt pid out k = Some ((status, out1), k1)"
      and rest: "(case status of
        None \<Rightarrow> Some ((Inl BadFd, out1), k1)
      | Some (Inr n) \<Rightarrow> Some ((Inr n, out1), k1)
      | Some (Inl e) \<Rightarrow>
          if e = WouldBlock then do { (_, k) \<leftarrow> read_wait saved pid k1; self saved pid out1 k }
          else Some ((Inl e, out1), k1)) = Some y"
      by (auto simp: bind_eq_Some_conv)
    from read_attempt_typed [OF \<open>pipes_typed k\<close> a] have t: "pipes_typed k1" .
    consider "snd y = k1" | r k2 where "read_wait saved pid k1 = Some (r, k2)" "self saved pid out1 k2 = Some y"
      using rest by (auto simp: bind_eq_Some_conv split: option.splits sum.splits if_splits)
    then show "pipes_typed (snd y)" using t 1(1) read_wait_typed [OF t] by cases auto
  qed
qed

lemma fifo_entry_typed: "fifo_entry path pid = Some e \<Longrightarrow> fifo_typed e"
  by (auto simp: fifo_entry_def fifo_typed_def Let_def bind_eq_Some_conv slice_def copy_into_def split: if_splits)

lemma fifo_add_typed:
  assumes "pipes_typed k" and "do {
     k \<leftarrow> acquire FIFOS k;
     (case position (\<lambda>s. s = None) (kn_fifos k) of
        None \<Rightarrow> Some (a, release FIFOS k)
      | Some i \<Rightarrow> do {
          e \<leftarrow> fifo_entry path pid;
          Some (b, release FIFOS (k\<lparr>kn_fifos := (kn_fifos k)[i := Some e]\<rparr>)) }) } = Some (r, k')"
  shows "pipes_typed k'"
  using assms
  by (auto simp: bind_eq_Some_conv acquire_def split: option.splits if_splits
      dest!: fifo_entry_typed) (rule pipes_typed_fifo [of k], simp_all)

lemma fifo_lookup_typed: "pipes_typed k \<Longrightarrow> fifo_lookup path k = Some (r, k') \<Longrightarrow> pipes_typed k'"
  by (auto simp: fifo_lookup_def bind_eq_Some_conv acquire_def split: if_splits)

lemma fifo_register_typed:
  assumes "pipes_typed k" and "fifo_register path pid k = Some (r, k')"
  shows "pipes_typed k'"
proof -
  obtain r1 k1 where l: "fifo_lookup path k = Some (r1, k1)" using assms(2) unfolding fifo_register_def by (auto simp: bind_eq_Some_conv)
  then show ?thesis using assms(2) fifo_lookup_typed [OF assms(1) l] fifo_add_typed [of k1 "()" path pid "()" r k']
    unfolding fifo_register_def by (simp cong del: bind_weak_cong split: if_splits)
qed

lemma mkfifo_typed:
  assumes "pipes_typed k" and "mkfifo path k = Some (r, k')"
  shows "pipes_typed k'"
proof -
  obtain r1 k1 where l: "pipe_create k = Some (r1, k1)" using assms(2) unfolding mkfifo_def by (auto simp: bind_eq_Some_conv)
  note t = pipe_create_typed [OF assms(1) l]
  show ?thesis
  proof (cases r1)
    case (Inl u)
    then show ?thesis using assms(2) l t by (auto simp: mkfifo_def)
  next
    case (Inr ids)
    obtain i j where "ids = (i, j)" by (cases ids)
    then show ?thesis
      using Inr assms(2) l fifo_add_typed [OF t, of "Inl ()" path i "Inr i" r k']
      unfolding mkfifo_def by (simp cong del: bind_weak_cong)
  qed
qed

subsection \<open>The states that the calls reach\<close>

inductive pipe_step :: "Pipes \<Rightarrow> Pipes \<Rightarrow> bool" where
  create: "pipe_create k = Some (r, k') \<Longrightarrow> pipe_step k k'"
| dup_r: "dup_read pid k = Some (u, k') \<Longrightarrow> pipe_step k k'"
| dup_w: "dup_write pid k = Some (u, k') \<Longrightarrow> pipe_step k k'"
| close_r: "close_read pid k = Some (u, k') \<Longrightarrow> pipe_step k k'"
| close_w: "close_write pid k = Some (u, k') \<Longrightarrow> pipe_step k k'"
| wr: "pipe_write saved pid data k = Some (n, k') \<Longrightarrow> pipe_step k k'"
| rd: "pipe_read saved pid out k = Some (n_out, k') \<Longrightarrow> pipe_step k k'"
| mkfifo: "mkfifo path k = Some (r', k') \<Longrightarrow> pipe_step k k'"
| lookup: "fifo_lookup path k = Some (found, k') \<Longrightarrow> pipe_step k k'"
| register: "fifo_register path pid k = Some (u, k') \<Longrightarrow> pipe_step k k'"

inductive_cases pipe_stepE: "pipe_step k k'"

lemma pipe_step_typed: "pipe_step k k' \<Longrightarrow> pipes_typed k \<Longrightarrow> pipes_typed k'"
  by (erule pipe_stepE)
    (auto dest: pipe_create_typed dup_typed close_read_typed close_write_typed pipe_write_typed pipe_read_typed
      mkfifo_typed fifo_lookup_typed fifo_register_typed)

lemma pipe_typed_no_panic:
  assumes "pipe_typed p"
  shows "write_once p data \<noteq> None" "read_once p out \<noteq> None" "wq_push (pi_read_waiters p) td \<noteq> None"
    "wq_push (pi_write_waiters p) td \<noteq> None" "wq_pop (pi_read_waiters p) \<noteq> None"
    "wq_pop (pi_write_waiters p) \<noteq> None"
  using assms write_once_spec [of p data] read_once_spec [of p out]
  by (auto simp: pipe_typed_def wq_typed_def wq_push_def wq_pop_def)

subsection \<open>Properties\<close>

text \<open>
  C13: The tables of pipes and FIFOs are well typed in every state that the operations on pipes and
  FIFOs reach from the empty tables, blocking reads and writes included: the tables keep their
  size, each ring keeps a buffer of 4096 bytes with its positions and its length in range, each
  wait queue holds at most its slots, and each stored path fits its buffer. So no copy into or out
  of a ring and no access to a wait queue of such a state panics.
\<close>

theorem pipes_reachable_typed:
  assumes "kn_pipes k0 = replicate MAX_PIPES None" and "kn_fifos k0 = replicate MAX_FIFOS None"
    and "pipe_step\<^sup>*\<^sup>* k0 k"
  shows "pipes_typed k \<and> (\<forall>p. Some p \<in> set (kn_pipes k) \<longrightarrow>
    write_once p data \<noteq> None \<and> read_once p out \<noteq> None \<and>
    wq_push (pi_read_waiters p) td \<noteq> None \<and> wq_push (pi_write_waiters p) td \<noteq> None \<and>
    wq_pop (pi_read_waiters p) \<noteq> None \<and> wq_pop (pi_write_waiters p) \<noteq> None)"
proof -
  from assms(3) have "pipes_typed k"
  proof (induction rule: rtranclp_induct)
    case base
    show ?case using assms(1,2) by (simp add: pipes_typed_def)
  next
    case (step y z)
    then show ?case using pipe_step_typed by blast
  qed
  then show ?thesis unfolding pipes_typed_def by (simp add: pipe_typed_no_panic)
qed

definition no_pipes_kernel :: Pipes where
  "no_pipes_kernel = Kernel.extend one_thread_kernel
     (Pipes.fields (replicate MAX_PIPES None) 0 (replicate MAX_FIFOS None))"

lemma no_pipes_kernel_fields:
  "kn_pipes no_pipes_kernel = replicate MAX_PIPES None" "kn_fifos no_pipes_kernel = replicate MAX_FIFOS None"
  "kn_held no_pipes_kernel = {}" "kn_next_pipe no_pipes_kernel = 0"
  by (simp_all add: no_pipes_kernel_def Kernel.defs Pipes.defs one_thread_kernel_def boot_kernel_def)

theorem pipes_reachable_typed_witness:
  "\<exists>k. pipe_create no_pipes_kernel = Some (Inr (0, 0), k) \<and> pipes_typed k \<and>
     kn_pipes k ! 0 = Some (pipe_inner_new\<lparr>pi_read_refs := 1, pi_write_refs := 1\<rparr>)"
proof -
  let ?p = "pipe_inner_new\<lparr>pi_read_refs := 1, pi_write_refs := 1\<rparr>"
  obtain k where k: "pipe_create no_pipes_kernel = Some (Inr (0, 0), k)" "kn_pipes k ! 0 = Some ?p"
    by (simp add: pipe_create_def no_pipes_kernel_fields MAX_PIPES_def Let_def release_def)
  then have "pipe_step\<^sup>*\<^sup>* no_pipes_kernel k" using pipe_step.create by blast
  from pipes_reachable_typed [OF no_pipes_kernel_fields(1,2) this] show ?thesis using k by blast
qed

end
