(* ===== verification/Mq.thy ===== *)
theory Mq
  imports Sched Bytes Errno
begin

text \<open>
  Message queues: \<^verbatim>\<open>src/kernel/src/ipc/mq.rs\<close>. The statics \<open>QUEUES\<close> and \<open>NEXT_QID\<close> extend the kernel
  record. The lemmas show an invariant of every state that the four system calls can reach, by
  induction over the steps, and what a send and a receive do to a queue.

  The counters of a queue are natural numbers; the invariant shows that they never fall below zero
  or reach the word size, so the \<open>usize\<close> arithmetic of the code does not wrap around. \<open>NEXT_QID\<close> is
  only ever locked inside \<open>msgget\<close>, which releases it before it calls anything, so its lock is not part
  of the state.
\<close>

subsection \<open>Queues\<close>

definition MAX_QUEUES :: nat where "MAX_QUEUES = 32"
definition MAX_MSG_SIZE :: nat where "MAX_MSG_SIZE = 4096"
definition MAX_MSGS :: nat where "MAX_MSGS = 64"

record Message =
  ms_mtype :: u64
  ms_len :: nat
  ms_data :: bytes

record MsgQueue =
  mq_id :: u32
  mq_key :: u32
  mq_owner :: u32
  mq_msgs :: "Message option list"
  mq_msg_count :: nat
  mq_max_bytes :: nat
  mq_current_bytes :: nat

definition mq_new :: "u32 \<Rightarrow> u32 \<Rightarrow> u32 \<Rightarrow> MsgQueue" where
  "mq_new qid ky owner = \<lparr>mq_id = qid, mq_key = ky, mq_owner = owner, mq_msgs = replicate MAX_MSGS None,
     mq_msg_count = 0, mq_max_bytes = MAX_MSG_SIZE * MAX_MSGS, mq_current_bytes = 0\<rparr>"

record Queues = Kernel +
  kn_queues :: "MsgQueue option list"
  kn_next_qid :: u32

abbreviation (input) IPC_CREAT :: u32 where "IPC_CREAT \<equiv> 0x200"
abbreviation (input) IPC_EXCL :: u32 where "IPC_EXCL \<equiv> 0x400"
abbreviation (input) IPC_RMID :: u32 where "IPC_RMID \<equiv> 0"

datatype MsgError = MsgInval | MsgNoEnt | MsgExist | MsgNoSpace | MsgAgain

definition has_key :: "u32 \<Rightarrow> MsgQueue option \<Rightarrow> bool" where
  "has_key ky s \<longleftrightarrow> (case s of None \<Rightarrow> False | Some q \<Rightarrow> mq_key q = ky)"

definition has_qid :: "u32 \<Rightarrow> MsgQueue option \<Rightarrow> bool" where
  "has_qid qid s \<longleftrightarrow> (case s of None \<Rightarrow> False | Some q \<Rightarrow> mq_id q = qid)"

definition find_queue_mut :: "MsgQueue option list \<Rightarrow> u32 \<Rightarrow> (MsgError, nat) result" where
  "find_queue_mut qs qid = (case position (has_qid qid) qs of None \<Rightarrow> Inl MsgInval | Some i \<Rightarrow> Inr i)"

definition msgget :: "u32 \<Rightarrow> u32 \<Rightarrow> 'z Queues_scheme \<Rightarrow> ((MsgError, u32) result \<times> 'z Queues_scheme) run" where
  "msgget ky flags k = do {
     k \<leftarrow> acquire QUEUES k;
     (case position (has_key ky) (kn_queues k) of
        Some i \<Rightarrow> Some (Inr (mq_id (the (kn_queues k ! i))), release QUEUES k)
      | None \<Rightarrow>
          if flags AND IPC_CREAT = 0 then Some (Inl MsgNoEnt, release QUEUES k)
          else if flags AND IPC_EXCL \<noteq> 0 \<and> position (has_key ky) (kn_queues k) \<noteq> None
            then Some (Inl MsgExist, release QUEUES k)
          else do {
            let qid = kn_next_qid k;
            let k = k\<lparr>kn_next_qid := qid + 1\<rparr>;
            (owner, k) \<leftarrow> current_thread th_pid k;
            (case position (\<lambda>s. s = None) (kn_queues k) of
               None \<Rightarrow> Some (Inl MsgNoSpace, release QUEUES k)
             | Some i \<Rightarrow> Some (Inr qid, release QUEUES (k\<lparr>kn_queues :=
                 (kn_queues k)[i := Some (mq_new qid ky (case owner of None \<Rightarrow> 0 | Some p \<Rightarrow> p))]\<rparr>))) }) }"

definition queue_send :: "MsgQueue \<Rightarrow> u64 \<Rightarrow> bytes \<Rightarrow> ((MsgError, unit) result \<times> MsgQueue) run" where
  "queue_send q mtype data =
     (if mq_msg_count q \<ge> MAX_MSGS \<or> mq_current_bytes q + length data > mq_max_bytes q then Some (Inl MsgAgain, q)
      else case position (\<lambda>s. s = None) (mq_msgs q) of
        None \<Rightarrow> Some (Inl MsgAgain, q)
      | Some i \<Rightarrow> do {
          d \<leftarrow> copy_into (replicate MAX_MSG_SIZE 0) 0 data;
          let msg = \<lparr>ms_mtype = mtype, ms_len = length data, ms_data = d\<rparr>;
          Some (Inr (), q\<lparr>mq_msgs := (mq_msgs q)[i := Some msg], mq_msg_count := mq_msg_count q + 1,
            mq_current_bytes := mq_current_bytes q + length data\<rparr>) })"

definition msgsnd ::
  "u32 \<Rightarrow> u64 \<Rightarrow> bytes \<Rightarrow> 'z Queues_scheme \<Rightarrow> ((MsgError, unit) result \<times> 'z Queues_scheme) run" where
  "msgsnd qid mtype data k =
     (if length data > MAX_MSG_SIZE then Some (Inl MsgInval, k)
      else do {
        k \<leftarrow> acquire QUEUES k;
        (case find_queue_mut (kn_queues k) qid of
           Inl e \<Rightarrow> Some (Inl e, release QUEUES k)
         | Inr i \<Rightarrow> do {
             (r, q) \<leftarrow> queue_send (the (kn_queues k ! i)) mtype data;
             Some (r, release QUEUES (k\<lparr>kn_queues := (kn_queues k)[i := Some q]\<rparr>)) }) })"

definition msg_matches :: "u64 \<Rightarrow> Message option \<Rightarrow> bool" where
  "msg_matches mtype m \<longleftrightarrow> (case m of None \<Rightarrow> False | Some msg \<Rightarrow> ms_mtype msg = mtype \<or> mtype = 0)"

definition queue_receive ::
  "MsgQueue \<Rightarrow> u64 \<Rightarrow> bytes \<Rightarrow> bool \<Rightarrow> (((MsgError, u64 \<times> nat) result \<times> bytes) \<times> MsgQueue) run" where
  "queue_receive q mtype buf trunc =
     (case position (msg_matches mtype) (mq_msgs q) of
        None \<Rightarrow> Some ((Inl MsgAgain, buf), q)
      | Some i \<Rightarrow> do {
          msg \<leftarrow> mq_msgs q ! i;
          let q = q\<lparr>mq_msgs := (mq_msgs q)[i := None], mq_msg_count := mq_msg_count q - 1,
            mq_current_bytes := mq_current_bytes q - ms_len msg\<rparr>;
          let copy_len = (if trunc \<or> length buf \<ge> ms_len msg then ms_len msg else length buf);
          src \<leftarrow> slice (ms_data msg) 0 copy_len;
          buf \<leftarrow> copy_into buf 0 src;
          Some ((Inr (ms_mtype msg, copy_len), buf), q) })"

definition msgrcv ::
  "u32 \<Rightarrow> u64 \<Rightarrow> bytes \<Rightarrow> bool \<Rightarrow> 'z Queues_scheme \<Rightarrow>
   (((MsgError, u64 \<times> nat) result \<times> bytes) \<times> 'z Queues_scheme) run" where
  "msgrcv qid mtype buf trunc k = do {
     k \<leftarrow> acquire QUEUES k;
     (case find_queue_mut (kn_queues k) qid of
        Inl e \<Rightarrow> Some ((Inl e, buf), release QUEUES k)
      | Inr i \<Rightarrow> do {
          (r, q) \<leftarrow> queue_receive (the (kn_queues k ! i)) mtype buf trunc;
          Some (r, release QUEUES (k\<lparr>kn_queues := (kn_queues k)[i := Some q]\<rparr>)) }) }"

definition msgctl :: "u32 \<Rightarrow> u32 \<Rightarrow> 'z Queues_scheme \<Rightarrow> ((MsgError, unit) result \<times> 'z Queues_scheme) run" where
  "msgctl qid cmd k =
     (if cmd \<noteq> IPC_RMID then Some (Inl MsgInval, k)
      else do {
        k \<leftarrow> acquire QUEUES k;
        (case position (has_qid qid) (kn_queues k) of
           None \<Rightarrow> Some (Inl MsgInval, release QUEUES k)
         | Some i \<Rightarrow> Some (Inr (), release QUEUES (k\<lparr>kn_queues := (kn_queues k)[i := None]\<rparr>))) })"

fun msg_err_to_errno :: "MsgError \<Rightarrow> Errno" where
  "msg_err_to_errno MsgInval = EINVAL"
| "msg_err_to_errno MsgNoEnt = ENOENT"
| "msg_err_to_errno MsgExist = EEXIST"
| "msg_err_to_errno MsgNoSpace = ENOSPC"
| "msg_err_to_errno MsgAgain = EAGAIN"

subsection \<open>The invariant of a queue\<close>

definition msg_bytes :: "Message option list \<Rightarrow> nat" where
  "msg_bytes ms = sum_list (map (\<lambda>s. case s of None \<Rightarrow> 0 | Some m \<Rightarrow> ms_len m) ms)"

definition mq_ok :: "MsgQueue \<Rightarrow> bool" where
  "mq_ok q \<longleftrightarrow> length (mq_msgs q) = MAX_MSGS \<and> mq_msg_count q = used (mq_msgs q) \<and>
     mq_current_bytes q = msg_bytes (mq_msgs q) \<and> mq_max_bytes q = MAX_MSG_SIZE * MAX_MSGS \<and>
     mq_current_bytes q \<le> mq_max_bytes q \<and>
     (\<forall>m. Some m \<in> set (mq_msgs q) \<longrightarrow> ms_len m \<le> MAX_MSG_SIZE \<and> length (ms_data m) = MAX_MSG_SIZE)"

lemma msg_bytes_fill:
  "i < length ms \<Longrightarrow> ms ! i = None \<Longrightarrow> msg_bytes (ms[i := Some m]) = msg_bytes ms + ms_len m"
proof (induction ms arbitrary: i)
  case Nil
  then show ?case by simp
next
  case (Cons s ms)
  then show ?case by (cases i) (auto simp: msg_bytes_def)
qed

lemma msg_bytes_clear:
  "i < length ms \<Longrightarrow> ms ! i = Some m \<Longrightarrow> msg_bytes ms = msg_bytes (ms[i := None]) + ms_len m"
proof (induction ms arbitrary: i)
  case Nil
  then show ?case by simp
next
  case (Cons s ms)
  then show ?case by (cases i) (auto simp: msg_bytes_def)
qed

lemma mq_new_ok: "mq_ok (mq_new qid ky owner)"
proof -
  have "used (replicate n None) = 0" "msg_bytes (replicate n None) = 0" for n
    by (induction n) (auto simp: msg_bytes_def used_def)
  then show ?thesis by (simp add: mq_ok_def mq_new_def)
qed

lemma queue_send_ok:
  assumes "mq_ok q" and "length data \<le> MAX_MSG_SIZE"
  shows "\<exists>r q'. queue_send q mtype data = Some (r, q') \<and> mq_ok q' \<and>
    (case r of
       Inl e \<Rightarrow> e = MsgAgain \<and> q' = q \<and> (used (mq_msgs q) = MAX_MSGS \<or> mq_current_bytes q + length data > mq_max_bytes q)
     | Inr _ \<Rightarrow> True)"
proof (cases "mq_msg_count q \<ge> MAX_MSGS \<or> mq_current_bytes q + length data > mq_max_bytes q")
  case True
  moreover have "used (mq_msgs q) \<le> MAX_MSGS" using used_le [of "mq_msgs q"] assms(1) by (simp add: mq_ok_def)
  ultimately show ?thesis using assms(1) by (auto simp: queue_send_def mq_ok_def)
next
  case False
  then have "used (mq_msgs q) \<noteq> length (mq_msgs q)" using assms(1) by (simp add: mq_ok_def)
  then obtain i where i: "position (\<lambda>s. s = None) (mq_msgs q) = Some i" by (auto simp: used_full)
  then have i': "i < length (mq_msgs q)" "mq_msgs q ! i = None" by (simp_all add: position_Some)
  let ?d = "data @ drop (length data) (replicate MAX_MSG_SIZE 0)"
  let ?m = "\<lparr>ms_mtype = mtype, ms_len = length data, ms_data = ?d\<rparr>"
  let ?q = "q\<lparr>mq_msgs := (mq_msgs q)[i := Some ?m], mq_msg_count := mq_msg_count q + 1,
    mq_current_bytes := mq_current_bytes q + length data\<rparr>"
  have c: "copy_into (replicate MAX_MSG_SIZE 0) 0 data = Some ?d" using assms(2) by simp
  have "queue_send q mtype data = Some (Inr (), ?q)" using False i c by (simp add: queue_send_def)
  moreover have "mq_ok ?q"
    using assms False i' used_fill [OF i', of ?m] msg_bytes_fill [OF i', of ?m]
    unfolding mq_ok_def by (auto dest!: set_update_subset_insert [THEN subsetD])
  ultimately show ?thesis using i by (intro exI [of _ "Inr ()"] exI [of _ ?q]) auto
qed

lemma queue_receive_ok:
  assumes "mq_ok q" and "queue_receive q mtype buf trunc = Some (r, q')"
  shows "mq_ok q'"
proof (cases "position (msg_matches mtype) (mq_msgs q)")
  case None
  then show ?thesis using assms by (simp add: queue_receive_def)
next
  case (Some i)
  then have i: "i < length (mq_msgs q)" "msg_matches mtype (mq_msgs q ! i)" by (simp_all add: position_Some)
  then obtain m where m: "mq_msgs q ! i = Some m" by (cases "mq_msgs q ! i") (auto simp: msg_matches_def)
  let ?q = "q\<lparr>mq_msgs := (mq_msgs q)[i := None], mq_msg_count := mq_msg_count q - 1,
    mq_current_bytes := mq_current_bytes q - ms_len m\<rparr>"
  have q': "q' = ?q" using assms(2) Some m by (auto simp: queue_receive_def bind_eq_Some_conv Let_def)
  have "mq_ok ?q"
    using assms(1) i m used_clear [OF i(1)] msg_bytes_clear [OF i(1) m]
    unfolding mq_ok_def by (auto dest!: set_update_subset_insert [THEN subsetD])
  then show ?thesis using q' by simp
qed


subsection \<open>The states that the calls reach\<close>

inductive mq_step :: "Queues \<Rightarrow> Queues \<Rightarrow> bool" where
  get: "msgget ky flags k = Some (r, k') \<Longrightarrow> mq_step k k'"
| snd: "msgsnd qid mtype data k = Some (r, k') \<Longrightarrow> mq_step k k'"
| rcv: "msgrcv qid mtype buf trunc k = Some (r, k') \<Longrightarrow> mq_step k k'"
| ctl: "msgctl qid cmd k = Some (r, k') \<Longrightarrow> mq_step k k'"

inductive_cases mq_stepE: "mq_step k k'"

definition queues_ok :: "'z Queues_scheme \<Rightarrow> bool" where
  "queues_ok k \<longleftrightarrow> length (kn_queues k) = MAX_QUEUES \<and> (\<forall>q. Some q \<in> set (kn_queues k) \<longrightarrow> mq_ok q)"

lemma queues_ok_update:
  "queues_ok k \<Longrightarrow> (\<And>q. s = Some q \<Longrightarrow> mq_ok q) \<Longrightarrow>
   queues_ok (release l (k'\<lparr>kn_queues := (kn_queues k)[i := s]\<rparr>))"
  unfolding queues_ok_def release_def by (auto dest!: set_update_subset_insert [THEN subsetD])

lemma queues_ok_held [simp]: "queues_ok (k\<lparr>kn_held := h\<rparr>) = queues_ok k"
  by (simp add: queues_ok_def)

lemma queues_ok_release [simp]: "queues_ok (release l k) = queues_ok k"
  by (simp add: release_def)

lemma acquire_eq_Some: "acquire l k = Some k' \<longleftrightarrow> l \<notin> kn_held k \<and> k' = k\<lparr>kn_held := insert l (kn_held k)\<rparr>"
  by (auto simp: acquire_def)

lemma current_thread_queues:
  fixes k :: "'z Queues_scheme"
  assumes "current_thread f k = Some (r, k')"
  shows "kn_queues k' = kn_queues k"
  using assms by (auto simp: current_thread_def with_thread_def bind_eq_Some_conv acquire_eq_Some release_def
      split: if_splits)

lemma find_queue_slot:
  assumes "position (has_qid qid) qs = Some i"
  obtains q where "i < length qs" "qs ! i = Some q" "Some q \<in> set qs"
proof -
  have i: "i < length qs" "has_qid qid (qs ! i)" using assms by (simp_all add: position_Some)
  then obtain q where "qs ! i = Some q" by (cases "qs ! i") (auto simp: has_qid_def)
  then show thesis using i that nth_mem [OF i(1)] by metis
qed

lemma msgget_ok:
  assumes "queues_ok k" and "msgget ky flags k = Some (r, k')"
  shows "queues_ok k'"
  using assms
  by (auto simp: msgget_def bind_eq_Some_conv acquire_eq_Some Let_def queues_ok_def release_def mq_new_ok
      dest!: current_thread_queues set_update_subset_insert [THEN subsetD]
      split: option.splits if_splits)

lemma msgsnd_ok:
  assumes "queues_ok k" and "msgsnd qid mtype data k = Some (r, k')"
  shows "queues_ok k'"
proof (cases "position (has_qid qid) (kn_queues k)")
  case None
  then show ?thesis using assms
    by (auto simp: msgsnd_def find_queue_mut_def bind_eq_Some_conv acquire_eq_Some split: if_splits)
next
  case (Some i)
  from find_queue_slot [OF Some] obtain q where q: "i < length (kn_queues k)" "kn_queues k ! i = Some q"
    "Some q \<in> set (kn_queues k)" .
  have ok: "mq_ok q" using assms(1) q(3) by (simp add: queues_ok_def)
  have "mq_ok q'" if "queue_send q mtype data = Some (r, q')" "length data \<le> MAX_MSG_SIZE" for r q'
    using queue_send_ok [OF ok that(2), of mtype] that(1) by auto
  then show ?thesis using assms Some q
    by (auto simp: msgsnd_def find_queue_mut_def bind_eq_Some_conv acquire_eq_Some split: if_splits
        intro!: queues_ok_update)
qed

lemma msgrcv_ok:
  assumes "queues_ok k" and "msgrcv qid mtype buf trunc k = Some (r, k')"
  shows "queues_ok k'"
proof (cases "position (has_qid qid) (kn_queues k)")
  case None
  then show ?thesis using assms
    by (auto simp: msgrcv_def find_queue_mut_def bind_eq_Some_conv acquire_eq_Some)
next
  case (Some i)
  from find_queue_slot [OF Some] obtain q where q: "i < length (kn_queues k)" "kn_queues k ! i = Some q"
    "Some q \<in> set (kn_queues k)" .
  have ok: "mq_ok q" using assms(1) q(3) by (simp add: queues_ok_def)
  then show ?thesis using assms Some q queue_receive_ok [OF ok]
    by (auto simp: msgrcv_def find_queue_mut_def bind_eq_Some_conv acquire_eq_Some intro!: queues_ok_update)
qed

lemma msgctl_ok:
  assumes "queues_ok k" and "msgctl qid cmd k = Some (r, k')"
  shows "queues_ok k'"
  using assms
  by (auto simp: msgctl_def bind_eq_Some_conv acquire_eq_Some split: option.splits if_splits
      intro!: queues_ok_update)

lemma mq_step_ok: "mq_step k k' \<Longrightarrow> queues_ok k \<Longrightarrow> queues_ok k'"
  by (erule mq_stepE) (auto intro: msgget_ok msgsnd_ok msgrcv_ok msgctl_ok)


subsection \<open>A message sent and received\<close>

lemma queue_roundtrip:
  assumes "mq_ok q" and "length data \<le> MAX_MSG_SIZE" and "used (mq_msgs q) < MAX_MSGS"
    and "mq_current_bytes q + length data \<le> mq_max_bytes q"
    and "\<forall>m. Some m \<in> set (mq_msgs q) \<longrightarrow> \<not> (ms_mtype m = mt \<or> mt = 0)" and "mtype = mt \<or> mt = 0"
  obtains q' where "queue_send q mtype data = Some (Inr (), q')"
    "queue_receive q' mt buf trunc =
      (if length data \<le> length buf then Some ((Inr (mtype, length data), data @ drop (length data) buf), q)
      else if trunc then None else Some ((Inr (mtype, length buf), take (length buf) data), q))"
proof -
  have ok: "length (mq_msgs q) = MAX_MSGS" "mq_msg_count q = used (mq_msgs q)" using assms(1) by (simp_all add: mq_ok_def)
  then have "used (mq_msgs q) \<noteq> length (mq_msgs q)" using assms(3) by simp
  then obtain i where i: "position (\<lambda>s. s = None) (mq_msgs q) = Some i" by (auto simp: used_full)
  then have i': "i < length (mq_msgs q)" "mq_msgs q ! i = None" by (simp_all add: position_Some)
  let ?d = "data @ drop (length data) (replicate MAX_MSG_SIZE 0)"
  let ?m = "\<lparr>ms_mtype = mtype, ms_len = length data, ms_data = ?d\<rparr>"
  define q' where "q' = q\<lparr>mq_msgs := (mq_msgs q)[i := Some ?m], mq_msg_count := mq_msg_count q + 1,
    mq_current_bytes := mq_current_bytes q + length data\<rparr>"
  have s: "queue_send q mtype data = Some (Inr (), q')"
    using i ok assms(2-4) by (simp add: queue_send_def q'_def)
  have "\<not> msg_matches mt (mq_msgs q ! j)" if "j < length (mq_msgs q)" for j
    using assms(5) nth_mem [OF that] by (cases "mq_msgs q ! j") (auto simp: msg_matches_def)
  then have p: "position (msg_matches mt) (mq_msgs q') = Some i"
    using i' assms(6) by (auto simp: position_Some q'_def msg_matches_def)
  have m: "mq_msgs q' ! i = Some ?m" using i' by (simp add: q'_def)
  have clear: "(mq_msgs q)[i := None] = mq_msgs q" using i'(2) by (metis list_update_id)
  have "slice ?d 0 n = Some (take n data)" if "n \<le> length data" for n
    using assms(2) that by (simp add: min_def)
  then have "queue_receive q' mt buf trunc =
      (if length data \<le> length buf then Some ((Inr (mtype, length data), data @ drop (length data) buf), q)
      else if trunc then None else Some ((Inr (mtype, length buf), take (length buf) data), q))"
    using p m clear by (auto simp: queue_receive_def q'_def Let_def copy_into_def)
  with s that show thesis by blast
qed

lemma msgsnd_then_msgrcv:
  fixes k :: "'z Queues_scheme"
  assumes "QUEUES \<notin> kn_held k" and "position (has_qid qid) (kn_queues k) = Some i" and "kn_queues k ! i = Some q"
    and "mq_ok q" and "length data \<le> MAX_MSG_SIZE" and "used (mq_msgs q) < MAX_MSGS"
    and "mq_current_bytes q + length data \<le> mq_max_bytes q"
    and "\<forall>m. Some m \<in> set (mq_msgs q) \<longrightarrow> \<not> (ms_mtype m = mt \<or> mt = 0)" and "mtype = mt \<or> mt = 0"
  shows "\<exists>k1. msgsnd qid mtype data k = Some (Inr (), k1) \<and>
    msgrcv qid mt buf trunc k1 =
      (if length data \<le> length buf then Some ((Inr (mtype, length data), data @ drop (length data) buf), k)
      else if trunc then None else Some ((Inr (mtype, length buf), take (length buf) data), k))"
proof -
  obtain q' where q': "queue_send q mtype data = Some (Inr (), q')"
    "queue_receive q' mt buf trunc =
      (if length data \<le> length buf then Some ((Inr (mtype, length data), data @ drop (length data) buf), q)
      else if trunc then None else Some ((Inr (mtype, length buf), take (length buf) data), q))"
    by (rule queue_roundtrip [OF assms(4-9)])
  let ?qs = "(kn_queues k)[i := Some q']"
  have i: "i < length (kn_queues k)" "has_qid qid (Some q)" "\<forall>j<i. \<not> has_qid qid (kn_queues k ! j)"
    using assms(2,3) by (auto simp: position_Some)
  have "mq_id q' = mq_id q"
    using q'(1) by (auto simp: queue_send_def bind_eq_Some_conv Let_def split: if_splits option.splits)
  then have p: "position (has_qid qid) ?qs = Some i" using i by (simp add: position_Some has_qid_def)
  have h: "insert QUEUES (kn_held k) - {QUEUES} = kn_held k" using assms(1) by blast
  have same: "(kn_queues k)[i := Some q] = kn_queues k" using assms(3) by (metis list_update_id)
  have "msgsnd qid mtype data k = Some (Inr (), k\<lparr>kn_queues := ?qs\<rparr>)"
    using assms(1-3,5) q'(1) h by (simp add: msgsnd_def find_queue_mut_def release_def)
  moreover have "msgrcv qid mt buf trunc (k\<lparr>kn_queues := ?qs\<rparr>) =
      (if length data \<le> length buf then Some ((Inr (mtype, length data), data @ drop (length data) buf), k)
      else if trunc then None else Some ((Inr (mtype, length buf), take (length buf) data), k))"
    using assms(1) p i(1) q'(2) h same by (auto simp: msgrcv_def find_queue_mut_def release_def)
  ultimately show ?thesis by blast
qed

subsection \<open>Properties\<close>

text \<open>
  C12: In every state that any sequence of \<open>msgget\<close>, \<open>msgsnd\<close>, \<open>msgrcv\<close> and \<open>msgctl\<close> calls reaches from
  the empty table, each queue counts its messages and its bytes exactly, holds at most 64 messages
  and 256 KiB, and no message is longer than its buffer; so the counters never wrap around.
\<close>

theorem mq_reachable_ok:
  assumes "kn_queues k0 = replicate MAX_QUEUES None" and "mq_step\<^sup>*\<^sup>* k0 k"
  shows "queues_ok k"
  using assms(2)
proof (induction rule: rtranclp_induct)
  case base
  show ?case using assms(1) by (simp add: queues_ok_def)
next
  case (step y z)
  then show ?case using mq_step_ok by blast
qed

definition queue_kernel :: Queues where
  "queue_kernel = Kernel.extend one_thread_kernel (Queues.fields (replicate MAX_QUEUES None) 1)"

lemma queue_kernel_fields:
  "kn_queues queue_kernel = replicate MAX_QUEUES None" "kn_held queue_kernel = {}" "kn_next_qid queue_kernel = 1"
  "current_tid queue_kernel = Some 7" "length (kn_threads queue_kernel) = MAX_THREADS"
  "kn_threads queue_kernel ! 7 = Some (some_thread 7)"
  using one_thread_kernel_current by (simp_all add: queue_kernel_def Kernel.defs Queues.defs current_tid_def)

text \<open>The first queue of the kernel with one thread.\<close>

definition first_queue_kernel :: Queues where
  "first_queue_kernel = queue_kernel\<lparr>kn_queues := (replicate MAX_QUEUES None)[0 := Some (mq_new 1 9 0)], kn_next_qid := 2\<rparr>"

lemma msgget_first: "msgget 9 IPC_CREAT queue_kernel = Some (Inr 1, first_queue_kernel)"
proof -
  have "position (has_key 9) (replicate n None) = None" for n
    by (simp add: position_None has_key_def)
  moreover have "position (\<lambda>s. s = None) (replicate MAX_QUEUES (None :: MsgQueue option)) = Some 0"
    by (simp add: position_Some MAX_QUEUES_def)
  moreover have "current_thread th_pid (queue_kernel\<lparr>kn_held := {QUEUES}, kn_next_qid := 2\<rparr>) =
      Some (Some 0, queue_kernel\<lparr>kn_held := {QUEUES}, kn_next_qid := 2\<rparr>)"
    using queue_kernel_fields
    by (simp add: current_thread_def current_tid_def with_thread_def MAX_THREADS_def release_def some_thread_def
        insert_Diff_if)
  ultimately show ?thesis
    by (simp add: msgget_def queue_kernel_fields first_queue_kernel_def release_def Let_def)
qed

lemma first_queue_facts:
  "kn_queues first_queue_kernel ! 0 = Some (mq_new 1 9 0)" "kn_held first_queue_kernel = {}"
  "position (has_qid 1) (kn_queues first_queue_kernel) = Some 0" "used (mq_msgs (mq_new 1 9 0)) = 0"
  "Some m \<notin> set (mq_msgs (mq_new 1 9 0))" "mq_current_bytes (mq_new 1 9 0) = 0"
  "mq_max_bytes (mq_new 1 9 0) = MAX_MSG_SIZE * MAX_MSGS"
  using mq_new_ok [of 1 9 0]
  by (simp_all add: first_queue_kernel_def queue_kernel_fields MAX_QUEUES_def has_qid_def mq_new_def position_Some mq_ok_def)

theorem mq_reachable_ok_witness:
  "\<exists>k. msgsnd 1 5 [10, 20] first_queue_kernel = Some (Inr (), k) \<and> queues_ok k"
proof -
  obtain k where k: "msgsnd 1 5 [10, 20] first_queue_kernel = Some (Inr (), k)"
    using msgsnd_then_msgrcv [OF _ first_queue_facts(3,1) mq_new_ok, of "[10, 20]" 5 5 "[]" False] first_queue_facts
    by (auto simp: MAX_MSG_SIZE_def MAX_MSGS_def numeral_2_eq_2)
  then have "mq_step\<^sup>*\<^sup>* queue_kernel k"
    using mq_step.get [OF msgget_first] mq_step.snd [OF k] by (meson converse_rtranclp_into_rtranclp r_into_rtranclp)
  from mq_reachable_ok [OF queue_kernel_fields(1) this] k show ?thesis by blast
qed

text \<open>
  C14: A message that is sent is received: on a queue with room and with no other message of the
  wanted type, \<open>msgsnd\<close> succeeds, and a following \<open>msgrcv\<close> of that type, or of any type, into a
  buffer that is long enough returns the type, the length and the bytes of the message, and
  restores the kernel state exactly. Into a shorter buffer it panics when truncation is asked for;
  otherwise it returns the first bytes, as many as fit, and the rest of the message is lost.
\<close>

theorem msgsnd_msgrcv_roundtrip:
  fixes k :: "'z Queues_scheme"
  assumes "QUEUES \<notin> kn_held k" and "position (has_qid qid) (kn_queues k) = Some i" and "kn_queues k ! i = Some q"
    and "mq_ok q" and "length data \<le> MAX_MSG_SIZE" and "used (mq_msgs q) < MAX_MSGS"
    and "mq_current_bytes q + length data \<le> mq_max_bytes q"
    and "\<forall>m. Some m \<in> set (mq_msgs q) \<longrightarrow> \<not> (ms_mtype m = mt \<or> mt = 0)" and "mtype = mt \<or> mt = 0"
  shows "\<exists>k1. msgsnd qid mtype data k = Some (Inr (), k1) \<and>
    msgrcv qid mt buf trunc k1 =
      (if length data \<le> length buf then Some ((Inr (mtype, length data), data @ drop (length data) buf), k)
      else if trunc then None else Some ((Inr (mtype, length buf), take (length buf) data), k))"
  using assms by (rule msgsnd_then_msgrcv)

theorem msgsnd_msgrcv_roundtrip_witness:
  "\<exists>k1. msgsnd 1 5 [10, 20] first_queue_kernel = Some (Inr (), k1) \<and>
     msgrcv 1 5 [0, 0, 0] False k1 = Some ((Inr (5, 2), [10, 20, 0]), first_queue_kernel) \<and>
     msgrcv 1 5 [0] False k1 = Some ((Inr (5, 1), [10]), first_queue_kernel) \<and>
     msgrcv 1 5 [0] True k1 = None"
proof -
  note w = msgsnd_msgrcv_roundtrip [OF _ first_queue_facts(3,1) mq_new_ok, of "[10, 20]" 5 5]
  have h: "QUEUES \<notin> kn_held first_queue_kernel" "length ([10, 20] :: bytes) \<le> MAX_MSG_SIZE"
    "used (mq_msgs (mq_new 1 9 0)) < MAX_MSGS"
    "mq_current_bytes (mq_new 1 9 0) + length ([10, 20] :: bytes) \<le> mq_max_bytes (mq_new 1 9 0)"
    "\<forall>m. Some m \<in> set (mq_msgs (mq_new 1 9 0)) \<longrightarrow> \<not> (ms_mtype m = 5 \<or> (5 :: u64) = 0)" "(5 :: u64) = 5 \<or> (5 :: u64) = 0"
    using first_queue_facts by (simp_all add: MAX_MSG_SIZE_def MAX_MSGS_def)
  from w [OF h, of "[0, 0, 0]" False] w [OF h, of "[0]" False] w [OF h, of "[0]" True]
  show ?thesis by (auto simp: numeral_2_eq_2)
qed

end
