(* ===== verification/Uaccess.thy ===== *)
theory Uaccess
  imports Bytes Errno
begin

text \<open>
  Copies between the kernel and user space: \<^verbatim>\<open>src/kernel/src/syscall/uaccess.rs\<close>. The memory is what
  the processor sees through the page tables of the current process, which \<open>with_user_as\<close> selects;
  the instructions that lift and restore supervisor access prevention have no counterpart. That
  memory is a total function: every user page is taken to be mapped for the access. A page fault of
  the kernel on an unmapped, untouched or read-only user page is not represented; the code does not
  catch it here, and the fault handler looks for the address in the kernel's own address space and
  halts. The lemmas show that a range passes \<open>access_ok\<close> exactly when all of it is in user space, so that no copy
  touches the kernel.
\<close>

definition access_ok :: "u64 \<Rightarrow> u64 \<Rightarrow> bool" where
  "access_ok addr len =
     (if len = 0 then addr = 0 \<or> is_user_address addr
      else if addr = 0 \<or> addr < USER_ADDR_MIN then False
      else if \<not> is_user_address addr then False
      else case checked_add addr (saturating_sub len 1) of
        None \<Rightarrow> False
      | Some end_addr \<Rightarrow> is_user_address end_addr \<and> end_addr \<le> USER_ADDR_MAX)"

definition copy_from_user :: "mem \<Rightarrow> bytes \<Rightarrow> u64 \<Rightarrow> (Errno, nat) result \<times> bytes" where
  "copy_from_user m dst user_src =
     (if \<not> access_ok user_src (of_nat (length dst)) then (Inl EFAULT, dst)
      else (Inr (length dst), mem_read m user_src (length dst)))"

definition copy_to_user :: "mem \<Rightarrow> u64 \<Rightarrow> bytes \<Rightarrow> (Errno, nat) result \<times> mem" where
  "copy_to_user m user_dst src =
     (if \<not> access_ok user_dst (of_nat (length src)) then (Inl EFAULT, m)
      else (Inr (length src), mem_write m user_dst src))"

text \<open>The objects that the kernel copies are integers; \<open>sz\<close> is their width in bytes.\<close>

definition copy_from_user_obj :: "nat \<Rightarrow> mem \<Rightarrow> u64 \<Rightarrow> (Errno, 'a::len word) result" where
  "copy_from_user_obj sz m user_src =
     (if \<not> access_ok user_src (of_nat sz) then Inl EFAULT else Inr (of_le (mem_read m user_src sz)))"

definition copy_to_user_obj :: "nat \<Rightarrow> mem \<Rightarrow> u64 \<Rightarrow> 'a::len word \<Rightarrow> (Errno, unit) result \<times> mem" where
  "copy_to_user_obj sz m user_dst val =
     (if \<not> access_ok user_dst (of_nat sz) then (Inl EFAULT, m)
      else (Inr (), mem_write m user_dst (le_bytes sz val)))"

fun str_loop :: "mem \<Rightarrow> u64 \<Rightarrow> bytes \<Rightarrow> nat list \<Rightarrow> ((Errno, nat) result \<times> bytes) run" where
  "str_loop m user_src buf [] = Some (Inl EINVAL, buf)"
| "str_loop m user_src buf (i # is) =
     (if \<not> access_ok (user_src + of_nat i) 1 then Some (Inl EFAULT, buf)
      else do {
        let byte = m (user_src + of_nat i);
        buf \<leftarrow> set_idx buf i byte;
        (if byte = 0 then Some (Inr i, buf) else str_loop m user_src buf is) })"

definition str_from_user :: "mem \<Rightarrow> bytes \<Rightarrow> u64 \<Rightarrow> nat \<Rightarrow> ((Errno, nat) result \<times> bytes) run" where
  "str_from_user m buf user_src max_len =
     (if max_len = 0 \<or> buf = [] then Some (Inl EINVAL, buf)
      else if \<not> access_ok user_src 1 then Some (Inl EFAULT, buf)
      else str_loop m user_src buf [0..<min max_len (length buf)])"

definition user_slice_ok :: "u64 \<Rightarrow> u64 \<Rightarrow> (Errno, unit) result" where
  "user_slice_ok addr len = (if access_ok addr len then Inr () else Inl EFAULT)"

subsection \<open>Ranges of user space\<close>

lemma is_user_unat: "is_user_address a \<longleftrightarrow> 0x10000 \<le> unat a \<and> unat a \<le> 0x7FFFFFFFFFFF"
  by (simp add: is_user_address_def USER_ADDR_MIN_def USER_ADDR_MAX_def word_le_nat_alt)

lemma access_ok_range:
  assumes "len \<noteq> 0"
  shows "access_ok addr len \<longleftrightarrow> 0x10000 \<le> unat addr \<and> unat addr + unat len \<le> 0x800000000000"
proof -
  have pos: "0 < unat len" using assms by (simp add: unat_gt_0)
  then have "1 \<le> len" by (simp add: word_le_nat_alt Suc_le_eq)
  then have s: "unat (saturating_sub len 1) = unat len - 1"
    by (simp add: saturating_sub_def unat_sub)
  show ?thesis
  proof (cases "unat addr + (unat len - 1) < 2 ^ 64")
    case True
    then have e: "unat (addr + saturating_sub len 1) = unat addr + (unat len - 1)"
      using unat_add_small [of addr "saturating_sub len 1"] s by simp
    have "addr = 0 \<or> addr < USER_ADDR_MIN \<longleftrightarrow> unat addr < 0x10000"
      by (auto simp: USER_ADDR_MIN_def word_less_nat_alt)
    then show ?thesis
      using True assms e s pos
      by (auto simp: access_ok_def checked_add_def is_user_unat USER_ADDR_MAX_def word_le_nat_alt)
  next
    case False
    then show ?thesis using assms s pos by (auto simp: access_ok_def checked_add_def)
  qed
qed

lemma access_ok_user:
  assumes "access_ok addr (of_nat n)" and "n < 2 ^ 64" and "i < n"
  shows "is_user_address (addr + of_nat i)"
proof -
  have n: "unat (of_nat n :: u64) = n" using assms(2) by (simp add: unat_of_nat)
  then have "(of_nat n :: u64) \<noteq> 0" using assms(3) by (metis gr_implies_not0 unat_0)
  with assms(1) have r: "0x10000 \<le> unat addr" "unat addr + n \<le> 0x800000000000"
    using access_ok_range n by auto
  have i: "unat (of_nat i :: u64) = i" using assms(2,3) by (simp add: unat_of_nat)
  then have "unat (addr + of_nat i) = unat addr + i"
    using unat_add_small [of addr "of_nat i"] r assms(3) by simp
  then show ?thesis using r assms(3) by (simp add: is_user_unat)
qed

lemma mem_write_outside:
  assumes "length bs < 2 ^ 64" and "\<forall>i < length bs. x \<noteq> a + of_nat i"
  shows "mem_write m a bs x = m x"
proof (rule ccontr)
  assume "mem_write m a bs x \<noteq> m x"
  then have "unat (x - a) < length bs" by (auto simp: mem_write_def split: if_splits)
  moreover have "x = a + of_nat (unat (x - a))" by simp
  ultimately show False using assms(2) by blast
qed

lemma copy_to_user_kernel:
  assumes "length src < 2 ^ 64" and "\<not> is_user_address x"
  shows "snd (copy_to_user m dst src) x = m x"
  using assms access_ok_user [of dst "length src"]
  by (auto simp: copy_to_user_def intro!: mem_write_outside)

lemma copy_to_user_obj_kernel:
  assumes "sz < 2 ^ 64" and "\<not> is_user_address x"
  shows "snd (copy_to_user_obj sz m dst v) x = m x"
  using assms access_ok_user [of dst sz]
  by (auto simp: copy_to_user_obj_def intro!: mem_write_outside)

lemma copy_from_user_cong:
  assumes "length dst < 2 ^ 64" and "\<And>x. is_user_address x \<Longrightarrow> m x = m' x"
  shows "copy_from_user m dst src = copy_from_user m' dst src"
  using assms access_ok_user [of src "length dst"]
  by (auto simp: copy_from_user_def mem_read_def)

subsection \<open>Strings\<close>

text \<open>
  The loop stops at the first byte that is not in user space, at the first zero or at the limit,
  whichever is first.
\<close>

lemma str_loop_scan:
  assumes "\<forall>j. i \<le> j \<and> j < i + n \<longrightarrow> is_user_address (a + of_nat j) \<and> m (a + of_nat j) \<noteq> 0"
    and "i + n \<le> length buf"
  shows "str_loop m a buf ([i..<i + n] @ is) =
    str_loop m a (take i buf @ map (\<lambda>j. m (a + of_nat j)) [i..<i + n] @ drop (i + n) buf) is"
  using assms
proof (induction n arbitrary: i buf)
  case (Suc n)
  have u: "is_user_address (a + of_nat i)" "m (a + of_nat i) \<noteq> 0"
    using Suc.prems(1) by auto
  then have "access_ok (a + of_nat i) 1"
    using access_ok_range [of 1 "a + of_nat i"] by (simp add: is_user_unat)
  moreover have "[i..<i + Suc n] = i # [Suc i..<Suc i + n]" by (simp add: upt_rec)
  ultimately have "str_loop m a buf ([i..<i + Suc n] @ is) =
      str_loop m a (buf[i := m (a + of_nat i)]) ([Suc i..<Suc i + n] @ is)"
    using u Suc.prems(2) by (simp add: set_idx_def Let_def del: of_nat_Suc)
  also have "\<dots> = str_loop m a (take (Suc i) (buf[i := m (a + of_nat i)])
      @ map (\<lambda>j. m (a + of_nat j)) [Suc i..<Suc i + n] @ drop (Suc i + n) (buf[i := m (a + of_nat i)])) is"
    using Suc.prems by (intro Suc.IH) auto
  also have "take (Suc i) (buf[i := m (a + of_nat i)]) = take i buf @ [m (a + of_nat i)]"
    using Suc.prems(2) by (simp add: take_Suc_conv_app_nth)
  finally show ?case
    by (simp add: upt_rec [of i] del: of_nat_Suc)
qed simp

text \<open>The bytes before position \<open>i\<close> are in user space and are not zero.\<close>

definition str_prefix :: "mem \<Rightarrow> u64 \<Rightarrow> nat \<Rightarrow> bool" where
  "str_prefix m a i \<longleftrightarrow> (\<forall>j < i. is_user_address (a + of_nat j) \<and> m (a + of_nat j) \<noteq> 0)"

lemma str_loop_prefix:
  assumes "str_prefix m a i" and "i \<le> lim" and "lim \<le> length buf"
  shows "str_loop m a buf [0..<lim] = str_loop m a (mem_read m a i @ drop i buf) [i..<lim]"
proof -
  have "[0..<lim] = [0..<0 + i] @ [i..<lim]"
    using assms(2) by (metis add_0 le_add_diff_inverse upt_add_eq_append zero_le)
  then show ?thesis
    using str_loop_scan [of 0 i a m buf "[i..<lim]"] assms by (simp add: str_prefix_def mem_read_def)
qed

lemma access_ok_byte: "access_ok a 1 \<longleftrightarrow> is_user_address a"
  using access_ok_range [of 1 a] by (auto simp: is_user_unat)

lemma str_loop_stop:
  assumes "i < lim" and "lim \<le> length buf" and "length pre = i"
  shows "\<not> is_user_address (a + of_nat i) \<Longrightarrow> str_loop m a buf [i..<lim] = Some (Inl EFAULT, buf)"
    and "is_user_address (a + of_nat i) \<Longrightarrow> m (a + of_nat i) = 0 \<Longrightarrow>
      str_loop m a (pre @ drop i buf) [i..<lim] = Some (Inr i, pre @ 0 # drop (Suc i) buf)"
proof -
  have u: "[i..<lim] = i # [Suc i..<lim]" using assms(1) by (rule upt_conv_Cons)
  show "\<not> is_user_address (a + of_nat i) \<Longrightarrow> str_loop m a buf [i..<lim] = Some (Inl EFAULT, buf)"
    by (simp add: u access_ok_byte)
  have "drop i buf = buf ! i # drop (Suc i) buf" using assms by (simp add: Cons_nth_drop_Suc)
  then show "is_user_address (a + of_nat i) \<Longrightarrow> m (a + of_nat i) = 0 \<Longrightarrow>
      str_loop m a (pre @ drop i buf) [i..<lim] = Some (Inr i, pre @ 0 # drop (Suc i) buf)"
    using assms by (simp add: u access_ok_byte set_idx_def Let_def list_update_append)
qed

subsection \<open>The properties\<close>

text \<open>
  C6: Copies between the kernel and a process stay in user space. A copy to the process leaves every
  byte outside user space as it is, and a copy from it depends on no such byte; a non-empty copy
  succeeds exactly when all of its range is in user space, with no wrap-around; and what was copied
  to a process is what a copy from the same place reads.
\<close>

theorem user_copy_safe:
  assumes "length src < 2 ^ 64" and "length dst = length src"
  shows "(\<forall>x. \<not> is_user_address x \<longrightarrow> snd (copy_to_user m a src) x = m x)
    \<and> ((\<forall>x. is_user_address x \<longrightarrow> m' x = m x) \<longrightarrow> copy_from_user m' dst a = copy_from_user m dst a)
    \<and> (src \<noteq> [] \<longrightarrow> (fst (copy_to_user m a src) = Inr (length src)
         \<longleftrightarrow> 0x10000 \<le> unat a \<and> unat a + length src \<le> 0x800000000000))
    \<and> (fst (copy_to_user m a src) = Inr (length src)
         \<longrightarrow> copy_from_user (snd (copy_to_user m a src)) dst a = (Inr (length src), src))"
proof (intro conjI impI allI)
  show "snd (copy_to_user m a src) x = m x" if "\<not> is_user_address x" for x
    using assms(1) that by (rule copy_to_user_kernel)
  show "copy_from_user m' dst a = copy_from_user m dst a" if "\<forall>x. is_user_address x \<longrightarrow> m' x = m x"
    using assms that by (intro copy_from_user_cong) auto
  have l: "unat (of_nat (length src) :: u64) = length src" using assms(1) by (simp add: unat_of_nat)
  show "fst (copy_to_user m a src) = Inr (length src)
      \<longleftrightarrow> 0x10000 \<le> unat a \<and> unat a + length src \<le> 0x800000000000" if "src \<noteq> []"
  proof -
    have "(of_nat (length src) :: u64) \<noteq> 0" using l that by (metis length_0_conv unat_0)
    then show ?thesis using access_ok_range l by (simp add: copy_to_user_def)
  qed
  show "copy_from_user (snd (copy_to_user m a src)) dst a = (Inr (length src), src)"
    if "fst (copy_to_user m a src) = Inr (length src)"
    using that assms by (auto simp: copy_to_user_def copy_from_user_def mem_read_write_same split: if_splits)
qed

theorem user_copy_safe_witness:
  "fst (copy_to_user (\<lambda>_. 0) 0x7FFFFFFFFFFE [1, 2]) = Inr 2
    \<and> copy_from_user (snd (copy_to_user (\<lambda>_. 0) 0x7FFFFFFFFFFE [1, 2])) [0, 0] 0x7FFFFFFFFFFE = (Inr 2, [1, 2])
    \<and> fst (copy_to_user (\<lambda>_. 0) 0x7FFFFFFFFFFF [1, 2]) \<noteq> Inr 2"
  using user_copy_safe [of "[1, 2]" "[0, 0]" "\<lambda>_. 0" "0x7FFFFFFFFFFE" "\<lambda>_. 0"]
    user_copy_safe [of "[1, 2]" "[0, 0]" "\<lambda>_. 0" "0x7FFFFFFFFFFF" "\<lambda>_. 0"]
  by (simp add: numeral_2_eq_2 [symmetric])

text \<open>
  C15: \<open>str_from_user\<close> never panics and its result is decided by the first byte that ends the string:
  at a zero it returns the length and the buffer holds the string and the zero, at a byte outside
  user space it fails with \<open>EFAULT\<close>, and when neither comes before the limit it fails with \<open>EINVAL\<close>.
\<close>

theorem str_from_user_correct:
  assumes "0 < max_len" and "buf \<noteq> []" and "lim = min max_len (length buf)"
    and "str_prefix m a i" and "i \<le> lim"
  shows "(i < lim \<and> is_user_address (a + of_nat i) \<and> m (a + of_nat i) = 0
      \<longrightarrow> str_from_user m buf a max_len = Some (Inr i, mem_read m a i @ 0 # drop (Suc i) buf))
    \<and> (i < lim \<and> \<not> is_user_address (a + of_nat i)
      \<longrightarrow> str_from_user m buf a max_len = Some (Inl EFAULT, mem_read m a i @ drop i buf))
    \<and> (i = lim \<longrightarrow> str_from_user m buf a max_len = Some (Inl EINVAL, mem_read m a i @ drop i buf))"
proof -
  have lim: "lim \<le> length buf" "0 < lim" using assms(1-3) by auto
  note scan = str_loop_prefix [OF assms(4,5) lim(1)]
  have start: "str_from_user m buf a max_len =
      (if is_user_address a then str_loop m a buf [0..<lim] else Some (Inl EFAULT, buf))"
    using assms(1-3) by (simp add: str_from_user_def access_ok_byte)
  have first: "is_user_address a" if "0 < i" using assms(4) that by (auto simp: str_prefix_def)
  have len: "length (mem_read m a i @ drop i buf) = length buf" using assms(5) lim by simp
  show ?thesis
  proof (intro conjI impI)
    assume h: "i < lim \<and> is_user_address (a + of_nat i) \<and> m (a + of_nat i) = 0"
    then have "is_user_address a" using first by (cases "i = 0") auto
    then show "str_from_user m buf a max_len = Some (Inr i, mem_read m a i @ 0 # drop (Suc i) buf)"
      using h scan str_loop_stop(2) [of i lim buf "mem_read m a i" a m] lim(1) by (simp add: start)
  next
    assume h: "i < lim \<and> \<not> is_user_address (a + of_nat i)"
    then show "str_from_user m buf a max_len = Some (Inl EFAULT, mem_read m a i @ drop i buf)"
      using scan str_loop_stop(1) [of i lim "mem_read m a i @ drop i buf" "mem_read m a i" a m] lim(1) len first
      by (cases "i = 0") (auto simp: start mem_read_def)
  next
    assume "i = lim"
    then show "str_from_user m buf a max_len = Some (Inl EINVAL, mem_read m a i @ drop i buf)"
      using scan lim first by (simp add: start)
  qed
qed

theorem str_from_user_correct_witness:
  "str_from_user (\<lambda>x. if x = 0x10000 then 65 else 0) [9, 9, 9] 0x10000 8 = Some (Inr 1, [65, 0, 9])"
  using str_from_user_correct [of 8 "[9, 9, 9]" 3 "\<lambda>x. if x = 0x10000 then 65 else 0" "0x10000" 1]
  by (simp add: str_prefix_def is_user_unat mem_read_def)

end
