(* ===== verification/Spec2Isabelle.thy ===== *)
theory Spec2Isabelle
  imports Sched_Props Phys_Frame Fd Security Signal_Types Vm Elf_Image Pipe_Table Mq Uaccess
begin

text \<open>
  A verification library for the kernel of theoryOS, a Rust kernel for x86-64. Paths below are
  relative to \<^verbatim>\<open>src/kernel/src/\<close>.

  \<^bold>\<open>The program.\<close> The kernel manages physical frames (\<^verbatim>\<open>mm/phys\<close>), page tables over them
  (\<^verbatim>\<open>mm/paging\<close>), and address spaces made of areas (\<^verbatim>\<open>mm/vma.rs\<close>, \<^verbatim>\<open>mm/vm.rs\<close>) whose pages appear
  on demand (\<^verbatim>\<open>mm/fault.rs\<close>, \<^verbatim>\<open>mm/cow.rs\<close>). Processes and threads live in two locked tables
  (\<^verbatim>\<open>proc\<close>); the programs they run are ELF files, loaded into an address space segment by segment
  (\<^verbatim>\<open>mm/elf\<close>). A fair scheduler keeps the runnable threads of each CPU in a red-black tree keyed by
  virtual runtime (\<^verbatim>\<open>sched\<close>). Pipes, named pipes and message queues (\<^verbatim>\<open>ipc\<close>) are tables behind locks
  of their own, whose callers wait through the scheduler. System calls copy arguments with checked
  accesses (\<^verbatim>\<open>syscall/uaccess.rs\<close>) and act on descriptors, credentials, filters and signals of the
  current process.

  \<^bold>\<open>Conventions\<close> (\<open>Prelude\<close>, \<open>Bytes\<close>). Machine integers are words and wrap, as in the release build;
  indices are natural numbers. A computation is a \<open>run\<close>: \<open>None\<close> is a computation that does not return to
  its caller, because it panics, loops for ever or takes a spin lock it holds. Errors are the left
  of a sum. Statics are fields of the record \<open>Kernel\<close>, which \<open>Pipe\<close> and \<open>Mq\<close> extend by their own; a lock
  that is held is an element of \<open>kn_held\<close>.

  \<^bold>\<open>The theories and what they show.\<close>

  \<^item> \<open>Layout\<close>: \<^verbatim>\<open>mm/layout.rs\<close>, \<^verbatim>\<open>mm/permissions.rs\<close>, \<^verbatim>\<open>arch/memory.rs\<close>. Rounding to pages is exact
    up to the last page, where it wraps.
  \<^item> \<open>Phys_Bitmap\<close>, \<open>Phys_Frame\<close>: \<^verbatim>\<open>mm/phys\<close>. The bitmap refines a set of free frames; allocating one
    frame takes the least free one and freeing returns it; after construction the free frames are
    those of the regions of the memory map that may be handed out; the count of free frames is
    right for whole words and wrong for a partial last one; the buddy lists are never filled.
  \<^item> \<open>Paging\<close>, \<open>Paging_Walk\<close>: \<^verbatim>\<open>mm/paging/x86_64.rs\<close>. Tables are a tree of distinct pages in a byte
    memory; mapping changes exactly one translation and unmapping undoes it. The locale
    \<open>frame_source\<close> is what the walk needs of the frame allocator, which interprets it.
  \<^item> \<open>Vma\<close>: \<^verbatim>\<open>mm/vma.rs\<close>. The array refines a sorted list of disjoint areas; the search for a gap ends
    and finds the first one, unless the addresses wrap.
  \<^item> \<open>Vm\<close>: \<^verbatim>\<open>mm/address_space.rs\<close>, \<^verbatim>\<open>mm/vm.rs\<close>, \<^verbatim>\<open>mm/fault.rs\<close>, \<^verbatim>\<open>mm/cow.rs\<close>, \<^verbatim>\<open>mm/aslr.rs\<close>. A fault on an
    untouched page is resolved with a fresh zeroed page; breaking a copy-on-write mapping always
    fails; \<open>mprotect\<close> takes the user's access away.
  \<^item> \<open>Elf_Parse\<close>, \<open>Elf_Load\<close>, \<open>Elf_Image\<close>: \<^verbatim>\<open>mm/elf/parse.rs\<close>, \<^verbatim>\<open>mm/elf/relocate.rs\<close>, \<^verbatim>\<open>mm/elf/load.rs\<close>. Headers
    are read back from a file made of them; a loaded segment holds the bytes of the file and zeros,
    and nothing else in use changes; three bounds checks wrap around, and the reads they guard
    leave the file. The interpreter is read from the file system through an argument.
  \<^item> \<open>Cfs\<close>, \<open>Rb_Tree\<close>, \<open>Rb_Links\<close>, \<open>Rb_Spec\<close>, \<open>Rb_Round\<close>, \<open>Rb_Insert\<close>, \<open>Rb_Remove\<close>, \<open>Rb_Props\<close>, \<open>Rb_Faults\<close>:
    \<^verbatim>\<open>sched/cfs.rs\<close>, \<^verbatim>\<open>sched/rbtree.rs\<close>. The weights and the virtual runtime; insertion, minimum and
    removal of the tree on an abstract red-black tree; the parent link that a rotation leaves
    wrong, with the panic that follows; and the nodes that a removal with two children loses.
  \<^item> \<open>Context\<close>, \<open>Proc\<close>, \<open>Sched\<close>, \<open>Kernel_Frame\<close>, \<open>Sched_Props\<close>: \<^verbatim>\<open>arch/x86_64/context.rs\<close>, \<^verbatim>\<open>proc\<close>, \<^verbatim>\<open>sched\<close>,
    \<^verbatim>\<open>ipc/wait.rs\<close>. The scheduler picks the thread with the least key and takes exactly it off the
    queue; blocking, preempting and boosting lock the thread table twice; yielding does nothing.
  \<^item> \<open>Ring\<close>, \<open>Pipe\<close>, \<open>Pipe_Table\<close>: \<^verbatim>\<open>ipc/pipe.rs\<close>, \<^verbatim>\<open>ipc/fifo.rs\<close>. The locale \<open>ring\<close> is a ring buffer and the locale
    \<open>fifo\<close> a byte queue; the pipe interprets the first and so is the second. Written bytes are read
    back; a call that has to wait never returns; the tables stay well typed in every reachable state.
  \<^item> \<open>Mq\<close>: \<^verbatim>\<open>ipc/mq.rs\<close>. The step relation of the four calls keeps the counters of every queue right;
    what is sent is received, into a buffer that is long enough.
  \<^item> \<open>Errno\<close>, \<open>Uaccess\<close>: \<^verbatim>\<open>syscall/errno.rs\<close>, \<^verbatim>\<open>syscall/uaccess.rs\<close>. No copy touches the kernel; strings
    are read up to their zero. User pages are taken to be mapped: page faults are not represented.
  \<^item> \<open>Vfs_Types\<close>, \<open>Fd\<close>, \<open>Security\<close>, \<open>Signal_Types\<close>: \<^verbatim>\<open>fs/vfs/inode.rs\<close>, \<^verbatim>\<open>fs/vfs/file.rs\<close>, \<^verbatim>\<open>fs/fd.rs\<close>,
    \<^verbatim>\<open>security\<close>, \<^verbatim>\<open>signal/types.rs\<close>. Descriptors are allocated lowest first; a filter admits exactly
    its list; the least deliverable signal is taken.

  \<^bold>\<open>Bounds.\<close> There is no fuel. Loops with a bound are structural recursion or have a termination proof;
  loops that may not end (the walks over the links of the tree, the waiting loops of pipes) are
  partial functions, and the lemmas show that they return a value, or that they do not.

  \<^bold>\<open>Not modelled.\<close> Instructions and devices: the look-aside buffer, the assembly that switches
  contexts (generated by the build), page-table isolation, drivers, ACPI, boot, video, audio and
  input. Other CPUs: a computation is that of one CPU, and nothing else changes the state while it
  runs (so the sleeping mutex is left out). Raw pointers: the heap. Parts outside the scope of this
  development: the file systems, with \<open>exec\<close>, Unix sockets and most system call handlers that reach
  files through them, the network stack, signal frames on the user stack, futexes and shared memory.
\<close>

end
